(* ===== verification/Prelude.thy ===== *)
theory Prelude
  imports Main
begin

text \<open>
  What the components share: byte strings and the few operations of \<open>std::string\<close>
  and \<open>std::istream\<close> the sources call (\<open>find\<close>, \<open>substr\<close>, \<open>getline\<close>), the
  outcome type of an operation that may throw or leave defined behaviour, and
  the generic lemmas on lists and maps the component proofs use.

  A \<open>std::string\<close> is a list of 8-bit characters, which is what \<^typ>\<open>string\<close> is in
  HOL. A position is a \<^typ>\<open>nat\<close>; \<open>std::string::npos\<close> is \<^term>\<open>None\<close>.
\<close>

section \<open>Collections of facts\<close>

named_theorems text_simps \<open>evaluation of the string primitives\<close>
named_theorems inv_intros \<open>operations that keep an invariant\<close>

type_synonym bytes = string
type_synonym headers = "(bytes \<times> bytes) list"

section \<open>Outcomes\<close>

text \<open>
  \<open>Throw\<close> is a C++ exception; \<open>Undefined\<close> is undefined behaviour (a wild
  dereference), which the invariants have to exclude.
\<close>

datatype 'a outcome = Ok 'a | Throw | Undefined

section \<open>Characters\<close>

abbreviation CR :: char where "CR \<equiv> CHR 0x0D"
abbreviation LF :: char where "LF \<equiv> CHR 0x0A"

abbreviation crlf :: bytes where "crlf \<equiv> [CR, LF]"

definition tolower :: "char \<Rightarrow> char" where
  "tolower c = (if 65 \<le> (of_char c :: nat) \<and> (of_char c :: nat) \<le> 90
     then char_of ((of_char c :: nat) + 32) else c)"

definition is_digit :: "char \<Rightarrow> bool" where
  "is_digit c \<longleftrightarrow> 48 \<le> (of_char c :: nat) \<and> (of_char c :: nat) \<le> 57"

definition digit_val :: "char \<Rightarrow> nat" where
  "digit_val c = (of_char c :: nat) - 48"

section \<open>Strings\<close>

text \<open>\<open>s.find(c, from)\<close>: the first position at or after \<open>from\<close> that holds \<open>c\<close>.\<close>

fun find_at :: "char \<Rightarrow> bytes \<Rightarrow> nat \<Rightarrow> nat option" where
  "find_at c [] i = None"
| "find_at c (x # xs) i = (if x = c then Some i else find_at c xs (Suc i))"

definition str_find :: "bytes \<Rightarrow> char \<Rightarrow> nat \<Rightarrow> nat option" where
  "str_find s c from = find_at c (drop from s) from"

text \<open>
  \<open>s.substr(pos, n)\<close>: throws \<open>std::out_of_range\<close> when \<open>pos\<close> is past the end, and
  stops at the end of the string otherwise.
\<close>

definition substr :: "bytes \<Rightarrow> nat \<Rightarrow> nat \<Rightarrow> bytes option" where
  "substr s pos n = (if length s < pos then None else Some (take n (drop pos s)))"

text \<open>\<open>s.substr(pos)\<close> takes the rest.\<close>

definition substr_from :: "bytes \<Rightarrow> nat \<Rightarrow> bytes option" where
  "substr_from s pos = (if length s < pos then None else Some (drop pos s))"

text \<open>Subtraction of two \<open>std::size_t\<close> values: it wraps around below zero.\<close>

definition size_sub :: "nat \<Rightarrow> nat \<Rightarrow> nat" where
  "size_sub a b = (if b \<le> a then a - b else 2 ^ 64 + a - b)"

text \<open>
  \<open>std::getline(stream, line)\<close> on what is left of the stream: fails when nothing is
  left; otherwise the line without its \<open>\n\<close>, and the rest after it.
\<close>

definition getline :: "bytes \<Rightarrow> (bytes \<times> bytes) option" where
  "getline s = (if s = [] then None
     else Some (takeWhile (\<lambda>c. c \<noteq> LF) s, drop 1 (dropWhile (\<lambda>c. c \<noteq> LF) s)))"

section \<open>Generic lemmas\<close>

lemma find_at_Some_iff:
  "find_at c xs i = Some k \<longleftrightarrow>
     (\<exists>j < length xs. k = i + j \<and> xs ! j = c \<and> c \<notin> set (take j xs))"
proof (induction xs arbitrary: i)
  case Nil
  then show ?case by simp
next
  case (Cons x xs)
  show ?case
  proof (cases "x = c")
    case True
    then show ?thesis by (auto simp: take_Cons' split: if_splits)
  next
    case False
    then show ?thesis
      by (auto simp: Cons.IH less_Suc_eq_0_disj)
  qed
qed

lemma find_at_None_iff [text_simps]: "find_at c xs i = None \<longleftrightarrow> c \<notin> set xs"
  by (induction xs arbitrary: i) auto

lemma find_at_append [text_simps]:
  "c \<notin> set xs \<Longrightarrow> find_at c (xs @ c # ys) i = Some (i + length xs)"
  by (induction xs arbitrary: i) auto

lemma str_find_append [text_simps]:
  "c \<notin> set xs \<Longrightarrow> str_find (xs @ c # ys) c 0 = Some (length xs)"
  by (simp add: str_find_def find_at_append)

lemma str_find_less: "str_find s c from = Some k \<Longrightarrow> k < length s \<and> from \<le> k \<and> s ! k = c"
  by (auto simp: str_find_def find_at_Some_iff)

lemma takeWhile_until [text_simps]:
  "c \<notin> set xs \<Longrightarrow> takeWhile (\<lambda>x. x \<noteq> c) (xs @ c # ys) = xs"
  by (induction xs) auto

lemma dropWhile_until [text_simps]:
  "c \<notin> set xs \<Longrightarrow> dropWhile (\<lambda>x. x \<noteq> c) (xs @ c # ys) = c # ys"
  by (induction xs) auto

lemma substr_total [text_simps]: "pos \<le> length s \<Longrightarrow> substr s pos n = Some (take n (drop pos s))"
  by (simp add: substr_def)

lemma substr_middle: "n = length xs \<Longrightarrow> k = length ys \<Longrightarrow> substr (xs @ ys @ zs) n k = Some ys"
  by (simp add: substr_def)

lemma substr_from_total [text_simps]: "pos \<le> length s \<Longrightarrow> substr_from s pos = Some (drop pos s)"
  by (simp add: substr_from_def)

lemma getline_Nil [simp]: "getline [] = None"
  by (simp add: getline_def)

lemma getline_line [text_simps]:
  "LF \<notin> set l \<Longrightarrow> getline (l @ LF # rest) = Some (l, rest)"
  by (auto simp: getline_def takeWhile_append dropWhile_append)

lemma getline_last:
  assumes "LF \<notin> set l" and "l \<noteq> []"
  shows "getline l = Some (l, [])"
proof -
  have all: "\<forall>x\<in>set l. x \<noteq> LF" using assms(1) by auto
  then have t: "takeWhile (\<lambda>c. c \<noteq> LF) l = l" by (simp only: takeWhile_eq_all_conv)
  from all have d: "dropWhile (\<lambda>c. c \<noteq> LF) l = []" by (simp only: dropWhile_eq_Nil_conv)
  show ?thesis using assms(2) by (simp only: getline_def t d if_False drop_Nil)
qed

lemma getline_shorter: "getline s = Some (l, r) \<Longrightarrow> length r < length s"
proof -
  assume g: "getline s = Some (l, r)"
  then have ne: "s \<noteq> []" and r: "r = drop 1 (dropWhile (\<lambda>c. c \<noteq> LF) s)"
    by (auto simp: getline_def split: if_splits)
  have "length (dropWhile (\<lambda>c. c \<noteq> LF) s) \<le> length s" by (rule length_dropWhile_le)
  with ne r show ?thesis by (cases s) auto
qed

lemma getline_no_LF: "getline s = Some (l, r) \<Longrightarrow> LF \<notin> set l"
  by (auto simp: getline_def split: if_splits dest: set_takeWhileD)

lemma length_filter_update:
  "i < length xs \<Longrightarrow> \<not> P (xs ! i) \<Longrightarrow> P y \<Longrightarrow>
    length (filter P (xs[i := y])) = Suc (length (filter P xs))"
proof (induction xs arbitrary: i)
  case Nil
  then show ?case by simp
next
  case (Cons x xs)
  then show ?case by (cases i) auto
qed

lemma length_filter_downdate:
  assumes "i < length xs" and "P (xs ! i)" and "\<not> P y"
  shows "Suc (length (filter P (xs[i := y]))) = length (filter P xs)"
proof -
  have "xs[i := y, i := xs ! i] = xs" by simp
  with length_filter_update [of i "xs[i := y]" P "xs ! i"] assms show ?thesis
    by simp
qed

lemma in_map_filter [simp]: "y \<in> set (List.map_filter f xs) \<longleftrightarrow> (\<exists>x \<in> set xs. f x = Some y)"
  by (induction xs) (auto simp: List.map_filter_simps split: option.splits)

lemma filter_update_unchanged:
  "i < length xs \<Longrightarrow> P (xs ! i) = P y \<Longrightarrow> length (filter P (xs[i := y])) = length (filter P xs)"
proof (induction xs arbitrary: i)
  case Nil
  then show ?case by simp
next
  case (Cons x xs)
  then show ?case by (cases i) auto
qed

end
