(* ===== verification/Signal.thy ===== *)
theory Signal
  imports Prelude
begin

text \<open>
  \<open>Simple::Signal\<close> of \<open>src/src/clib/simple_signal.hpp\<close>: a fixed buffer of pointers
  that holds the connected callbacks and, threaded through its unused cells, the
  list of free cells. A cell is the null pointer (the end of the free list), a
  pointer to another cell of the buffer, or a pointer to a \<open>CbFunction\<close> outside
  it. The invariant says the free list starts at \<open>free_beg_\<close>, visits exactly the
  cells that hold no callback, each once, and ends in the null pointer; \<open>size_\<close>
  counts the callbacks. Under it no operation dereferences a wild pointer, and
  the operations implement those of a bounded table of slots (locale
  \<open>slot_table\<close>).
\<close>

section \<open>Data\<close>

datatype 'cb cell = Null | Link nat | Fn 'cb

text \<open>
  Pointers into the buffer are indices. \<open>margins_\<close> is the buffer itself, cell
  \<open>0\<close> to the cell before \<open>length cells\<close>. A default-constructed \<open>SlotHandle\<close> is the
  null pointer.
\<close>

record 'cb signal =
  cells :: "'cb cell list"
  free_beg :: "nat option"
  size_of :: nat

type_synonym slot_handle = "nat option"

definition default_max_callbacks :: nat where
  "default_max_callbacks = 1000"

definition is_inside_buff :: "'cb signal \<Rightarrow> nat \<Rightarrow> bool" where
  "is_inside_buff s p \<longleftrightarrow> p < length (cells s)"

definition is_fn :: "'cb cell \<Rightarrow> bool" where
  "is_fn c = (case c of Fn _ \<Rightarrow> True | _ \<Rightarrow> False)"

lemma is_fn_simps [simp]: "\<not> is_fn Null" "\<not> is_fn (Link q)" "is_fn (Fn cb)"
  by (simp_all add: is_fn_def)

section \<open>Operations\<close>

text \<open>\<open>connect\<close>: takes the head of the free list unless it is the last free cell.\<close>

definition connect :: "'cb signal \<Rightarrow> 'cb \<Rightarrow> (slot_handle \<times> 'cb signal) outcome" where
  "connect s cbf =
     (case free_beg s of
        None \<Rightarrow> Throw
      | Some p \<Rightarrow>
          if \<not> is_inside_buff s p then Undefined
          else (case cells s ! p of
                  Null \<Rightarrow> Throw
                | Link q \<Rightarrow> Ok (Some p, s\<lparr>cells := (cells s)[p := Fn cbf],
                                        free_beg := Some q, size_of := Suc (size_of s)\<rparr>)
                | Fn _ \<Rightarrow> Undefined))"

text \<open>
  \<open>disconnect\<close>: the freed cell goes into the free list behind its head,
  \<open>*cbf_ptr = std::exchange(*free_beg_, cbf_ptr)\<close>.
\<close>

definition disconnect :: "'cb signal \<Rightarrow> slot_handle \<Rightarrow> 'cb signal outcome" where
  "disconnect s slot_handle =
     (case slot_handle of
        None \<Rightarrow> Throw
      | Some p \<Rightarrow>
          if \<not> is_inside_buff s p then Throw
          else (case cells s ! p of
                  Null \<Rightarrow> Throw
                | Link q \<Rightarrow> (if is_inside_buff s q then Throw else Undefined)
                | Fn _ \<Rightarrow>
                    (case free_beg s of
                       None \<Rightarrow> Undefined
                     | Some f \<Rightarrow>
                         if \<not> is_inside_buff s f then Undefined
                         else (let old = cells s ! f; cs = (cells s)[f := Link p]
                               in Ok (s\<lparr>cells := cs[p := old],
                                        size_of := size_sub (size_of s) 1\<rparr>)))))"

text \<open>The constructor: every cell points to the next, the last one to nothing.\<close>

definition signal_buffer :: "nat \<Rightarrow> 'cb signal" where
  "signal_buffer upper_limit =
     \<lparr>cells = map (\<lambda>i. Link (Suc i)) [0..<upper_limit] @ [Null], free_beg = Some 0, size_of = 0\<rparr>"

definition signal_new :: "nat \<Rightarrow> 'cb option \<Rightarrow> 'cb signal outcome" where
  "signal_new upper_limit method_opt =
     (case method_opt of
        None \<Rightarrow> Ok (signal_buffer upper_limit)
      | Some f \<Rightarrow> (case connect (signal_buffer upper_limit) f of
                     Ok (_, s) \<Rightarrow> Ok s | Throw \<Rightarrow> Throw | Undefined \<Rightarrow> Undefined))"

text \<open>
  \<open>emit\<close> walks the buffer from its first cell and stops after as many callbacks as
  were connected when it started. A callback may change the state the signal is
  part of, so every cell is read from the state the callbacks before it left;
  \<open>sg\<close> reads the signal in the state, \<open>run\<close> calls the callback of a cell.
\<close>

fun emit_loop ::
  "('s \<Rightarrow> 'cb signal) \<Rightarrow> (nat \<Rightarrow> 'cb \<Rightarrow> 's \<Rightarrow> 's outcome) \<Rightarrow> nat \<Rightarrow> nat list \<Rightarrow> 's \<Rightarrow> 's outcome"
where
  "emit_loop sg run left [] s = Ok s"
| "emit_loop sg run left (p # ps) s =
     (if left = 0 then Ok s
      else (case cells (sg s) ! p of
              Null \<Rightarrow> emit_loop sg run left ps s
            | Link q \<Rightarrow> (if is_inside_buff (sg s) q then emit_loop sg run left ps s
                        else Undefined)
            | Fn cb \<Rightarrow> (case run p cb s of
                          Ok s' \<Rightarrow> emit_loop sg run (left - 1) ps s'
                        | Throw \<Rightarrow> Throw | Undefined \<Rightarrow> Undefined)))"

definition emit ::
  "('s \<Rightarrow> 'cb signal) \<Rightarrow> (nat \<Rightarrow> 'cb \<Rightarrow> 's \<Rightarrow> 's outcome) \<Rightarrow> 's \<Rightarrow> 's outcome" where
  "emit sg run s = emit_loop sg run (size_of (sg s)) [0..<length (cells (sg s))] s"

text \<open>The destructor deletes callbacks in the same order; the result lists them.\<close>

fun delete_loop :: "nat \<Rightarrow> nat \<Rightarrow> 'cb cell list \<Rightarrow> 'cb list outcome" where
  "delete_loop n left [] = Ok []"
| "delete_loop n left (c # cs) =
     (if left = 0 then Ok []
      else (case c of
              Null \<Rightarrow> delete_loop n left cs
            | Link q \<Rightarrow> (if q < n then delete_loop n left cs else Undefined)
            | Fn cb \<Rightarrow> (case delete_loop n (left - 1) cs of
                          Ok ds \<Rightarrow> Ok (cb # ds) | Throw \<Rightarrow> Throw | Undefined \<Rightarrow> Undefined)))"

definition signal_destroy :: "'cb signal \<Rightarrow> 'cb list outcome" where
  "signal_destroy s = delete_loop (length (cells s)) (size_of s) (cells s)"

definition signal_size :: "'cb signal \<Rightarrow> nat" where
  "signal_size s = size_of s"

section \<open>The invariant\<close>

text \<open>\<open>chain cs ps\<close>: following the links from cell \<open>hd ps\<close> visits \<open>ps\<close> and ends in the null pointer.\<close>

fun chain :: "'cb cell list \<Rightarrow> nat list \<Rightarrow> bool" where
  "chain cs [] = False"
| "chain cs [p] = (p < length cs \<and> cs ! p = Null)"
| "chain cs (p # q # ps) = (p < length cs \<and> cs ! p = Link q \<and> chain cs (q # ps))"

definition free_list :: "'cb signal \<Rightarrow> nat list \<Rightarrow> bool" where
  "free_list s fl \<longleftrightarrow>
     fl \<noteq> [] \<and> free_beg s = Some (hd fl) \<and> chain (cells s) fl \<and> distinct fl \<and>
     (\<forall>p < length (cells s). p \<in> set fl \<longleftrightarrow> \<not> is_fn (cells s ! p)) \<and>
     size_of s = length (filter is_fn (cells s))"

definition wf_signal :: "'cb signal \<Rightarrow> bool" where
  "wf_signal s \<longleftrightarrow> (\<exists>fl. free_list s fl)"

text \<open>The number of callbacks the buffer can hold, and the callback a handle refers to.\<close>

definition upper_limit :: "'cb signal \<Rightarrow> nat" where
  "upper_limit s = length (cells s) - 1"

definition slot :: "'cb signal \<Rightarrow> slot_handle \<Rightarrow> 'cb option" where
  "slot s h = (case h of None \<Rightarrow> None
     | Some p \<Rightarrow> if p < length (cells s)
                 then (case cells s ! p of Fn cb \<Rightarrow> Some cb | _ \<Rightarrow> None) else None)"

text \<open>The connected callbacks with their cells, in the order of the buffer.\<close>

definition connected :: "'cb signal \<Rightarrow> (nat \<times> 'cb) list" where
  "connected s = List.map_filter
     (\<lambda>p. map_option (Pair p) (slot s (Some p))) [0..<length (cells s)]"

lemma chain_bound: "chain cs ps \<Longrightarrow> p \<in> set ps \<Longrightarrow> p < length cs \<and> \<not> is_fn (cs ! p)"
  by (induction cs ps rule: chain.induct) auto

lemma chain_links:
  "chain cs ps \<Longrightarrow> p \<in> set ps \<Longrightarrow> cs ! p = Null \<or> (\<exists>q \<in> set ps. cs ! p = Link q)"
  by (induction cs ps rule: chain.induct) auto

lemma chain_update: "p \<notin> set ps \<Longrightarrow> chain (cs[p := c]) ps = chain cs ps"
  by (induction cs ps rule: chain.induct) auto

lemma chain_Cons: "ps \<noteq> [] \<Longrightarrow>
  chain cs (p # ps) \<longleftrightarrow> p < length cs \<and> cs ! p = Link (hd ps) \<and> chain cs ps"
  by (cases ps) auto

lemma free_list_length:
  assumes "free_list s fl"
  shows "length fl + size_of s = length (cells s)"
proof -
  let ?U = "{p. p < length (cells s) \<and> is_fn (cells s ! p)}"
  have "set fl = {p. p < length (cells s) \<and> \<not> is_fn (cells s ! p)}"
    using assms by (auto simp: free_list_def dest: chain_bound)
  then have "{..<length (cells s)} = set fl \<union> ?U" and "set fl \<inter> ?U = {}" by auto
  then have "length (cells s) = card (set fl) + card ?U"
    by (metis card_Un_disjoint card_lessThan finite_Un finite_lessThan)
  moreover have "card (set fl) = length fl"
    using assms by (simp add: free_list_def distinct_card)
  moreover have "card ?U = size_of s"
    using assms by (simp add: free_list_def length_filter_conv_card)
  ultimately show ?thesis by simp
qed

lemma slot_Some_iff:
  "slot s h = Some cb \<longleftrightarrow> (\<exists>p. h = Some p \<and> p < length (cells s) \<and> cells s ! p = Fn cb)"
  by (auto simp: slot_def split: option.splits cell.splits if_splits)

lemma slot_None_handle [simp]: "slot s None = None"
  by (simp add: slot_def)

lemma set_connected: "(p, cb) \<in> set (connected s) \<longleftrightarrow> slot s (Some p) = Some cb"
  by (auto simp: connected_def slot_Some_iff)

text \<open>The constructor establishes the invariant.\<close>

lemma chain_buffer:
  "k \<le> n \<Longrightarrow> chain (map (\<lambda>i. Link (Suc i)) [0..<n] @ [Null]) [k..<Suc n]"
proof (induction rule: inc_induct)
  case base
  then show ?case by (simp add: nth_append)
next
  case (step k)
  then have "[k..<Suc n] = k # [Suc k..<Suc n]" and "[Suc k..<Suc n] \<noteq> []"
    and "hd [Suc k..<Suc n] = Suc k"
    by (simp_all add: upt_conv_Cons del: upt_Suc)
  with step show ?case by (simp add: chain_Cons nth_append del: upt_Suc)
qed

lemma wf_signal_buffer: "wf_signal (signal_buffer n :: 'cb signal)"
proof -
  let ?cs = "map (\<lambda>i. Link (Suc i)) [0..<n] @ [Null] :: 'cb cell list"
  have "\<not> is_fn (?cs ! p)" if "p < Suc n" for p
    using that by (simp add: nth_append)
  moreover have "filter is_fn ?cs = []"
    by (auto simp: filter_empty_conv)
  moreover have "hd [0..<Suc n] = 0" by (simp del: upt_Suc)
  moreover have "chain ?cs [0..<Suc n]" by (rule chain_buffer) simp
  ultimately have "free_list (signal_buffer n :: 'cb signal) [0..<Suc n]"
    by (simp add: free_list_def signal_buffer_def del: upt_Suc filter_append)
  then show ?thesis by (auto simp: wf_signal_def)
qed

lemma upper_limit_buffer [simp]: "upper_limit (signal_buffer n) = n"
  by (simp add: upper_limit_def signal_buffer_def)

lemma slot_buffer [simp]: "slot (signal_buffer n) h = None"
  by (auto simp: slot_def signal_buffer_def nth_append split: option.splits)

lemma size_buffer [simp]: "size_of (signal_buffer n) = 0"
  by (simp add: signal_buffer_def)

section \<open>Connect and disconnect keep the invariant\<close>

lemma connect_free_list:
  assumes fl: "free_list s (p # q # ps)"
  shows "connect s cb = Ok (Some p, s\<lparr>cells := (cells s)[p := Fn cb], free_beg := Some q,
           size_of := Suc (size_of s)\<rparr>)"
    and "free_list (s\<lparr>cells := (cells s)[p := Fn cb], free_beg := Some q,
           size_of := Suc (size_of s)\<rparr>) (q # ps)"
proof -
  have ch: "chain (cells s) (p # q # ps)" and d: "distinct (p # q # ps)"
    and beg: "free_beg s = Some p"
    and out: "\<forall>i < length (cells s). i \<in> set (p # q # ps) \<longleftrightarrow> \<not> is_fn (cells s ! i)"
    and sz: "size_of s = length (filter is_fn (cells s))"
    using fl by (auto simp: free_list_def)
  from ch have p: "p < length (cells s)" "cells s ! p = Link q" by auto
  then show "connect s cb = Ok (Some p, s\<lparr>cells := (cells s)[p := Fn cb],
      free_beg := Some q, size_of := Suc (size_of s)\<rparr>)"
    using beg by (simp add: connect_def is_inside_buff_def)
  have "chain ((cells s)[p := Fn cb]) (q # ps)"
    using ch d by (simp add: chain_update)
  moreover have "i \<in> set (q # ps) \<longleftrightarrow> \<not> is_fn ((cells s)[p := Fn cb] ! i)"
    if "i < length (cells s)" for i
    using out [rule_format, OF that] d that by (cases "i = p") auto
  moreover have "Suc (size_of s) = length (filter is_fn ((cells s)[p := Fn cb]))"
    using sz p by (simp add: length_filter_update)
  ultimately show "free_list (s\<lparr>cells := (cells s)[p := Fn cb], free_beg := Some q,
      size_of := Suc (size_of s)\<rparr>) (q # ps)"
    using d by (simp add: free_list_def)
qed

lemma connect_last:
  assumes "free_list s [p]"
  shows "connect s cb = Throw"
  using assms by (simp add: free_list_def connect_def is_inside_buff_def)

lemma disconnect_free_list:
  assumes fl: "free_list s (f # ps)" and live: "slot s h = Some cb"
  obtains p s' where "h = Some p" and "disconnect s h = Ok s'"
    and "s' = s\<lparr>cells := (cells s)[f := Link p, p := cells s ! f], size_of := size_of s - 1\<rparr>"
    and "free_list s' (f # p # ps)"
proof -
  have ch: "chain (cells s) (f # ps)" and d: "distinct (f # ps)"
    and beg: "free_beg s = Some f"
    and out: "\<forall>i < length (cells s). i \<in> set (f # ps) \<longleftrightarrow> \<not> is_fn (cells s ! i)"
    and sz: "size_of s = length (filter is_fn (cells s))"
    using fl by (auto simp: free_list_def)
  from live obtain p where h: "h = Some p" and p: "p < length (cells s)" "cells s ! p = Fn cb"
    by (auto simp: slot_Some_iff)
  have f: "f < length (cells s)" and nf: "\<not> is_fn (cells s ! f)"
    using chain_bound [OF ch] by auto
  have pf: "p \<notin> set (f # ps)" using out p by auto
  let ?cs = "(cells s)[f := Link p, p := cells s ! f]"
  have len: "length (filter is_fn (cells s)) = Suc (length (filter is_fn ?cs))"
  proof -
    have "length (filter is_fn ((cells s)[f := Link p])) = length (filter is_fn (cells s))"
      using f nf by (simp add: filter_update_unchanged)
    moreover have "Suc (length (filter is_fn ?cs)) = length (filter is_fn ((cells s)[f := Link p]))"
      using p pf nf by (intro length_filter_downdate) auto
    ultimately show ?thesis by simp
  qed
  let ?s = "s\<lparr>cells := ?cs, size_of := size_of s - 1\<rparr>"
  have "disconnect s h = Ok ?s"
    using h p beg f sz len by (simp add: disconnect_def is_inside_buff_def size_sub_def Let_def)
  moreover have "free_list ?s (f # p # ps)"
  proof -
    have "chain ?cs (f # p # ps)"
    proof (cases ps)
      case Nil
      with ch f p pf show ?thesis by auto
    next
      case (Cons q qs)
      with ch have "chain (cells s) (q # qs)" and "cells s ! f = Link q" by auto
      moreover have "f \<notin> set (q # qs)" "p \<notin> set (q # qs)" using d pf Cons by auto
      ultimately show ?thesis using Cons f p pf by (simp add: chain_update)
    qed
    moreover have "i \<in> set (f # p # ps) \<longleftrightarrow> \<not> is_fn (?cs ! i)" if "i < length (cells s)" for i
      using out [rule_format, OF that] that f p nf pf by (auto simp: nth_list_update)
    ultimately show ?thesis using d pf beg sz len by (simp add: free_list_def)
  qed
  ultimately show ?thesis using that h by blast
qed

section \<open>The interface: a bounded table of slots\<close>

text \<open>
  What the clients of a signal rely on: a callback can be connected while there is
  room and gets a handle that was free; disconnecting a handle that refers to a
  callback removes that callback and no other; everything else throws and
  changes nothing.
\<close>

locale slot_table =
  fixes conn :: "'s \<Rightarrow> 'cb \<Rightarrow> (slot_handle \<times> 's) outcome"
    and disc :: "'s \<Rightarrow> slot_handle \<Rightarrow> 's outcome"
    and look :: "'s \<Rightarrow> slot_handle \<Rightarrow> 'cb option"
    and used :: "'s \<Rightarrow> nat"
    and limit :: "'s \<Rightarrow> nat"
    and inv :: "'s \<Rightarrow> bool"
  assumes conn_room: "inv s \<Longrightarrow> used s < limit s \<Longrightarrow> \<exists>h s'. conn s cb = Ok (h, s')"
    and conn_full: "inv s \<Longrightarrow> \<not> used s < limit s \<Longrightarrow> conn s cb = Throw"
    and conn_ok: "inv s \<Longrightarrow> conn s cb = Ok (h, s') \<Longrightarrow>
      inv s' \<and> look s h = None \<and> look s' = (look s)(h \<mapsto> cb) \<and>
      used s' = Suc (used s) \<and> limit s' = limit s"
    and disc_live: "inv s \<Longrightarrow> look s h = Some cb \<Longrightarrow>
      \<exists>s'. disc s h = Ok s' \<and> inv s' \<and> look s' = (look s)(h := None) \<and>
        used s = Suc (used s') \<and> limit s' = limit s"
    and disc_dead: "inv s \<Longrightarrow> look s h = None \<Longrightarrow> disc s h = Throw"

text \<open>A caller that catches the exceptions of the operations, as a script of calls.\<close>

datatype 'cb slot_op = Connect 'cb | Disconnect slot_handle

fun run_slots ::
  "('s \<Rightarrow> 'cb \<Rightarrow> (slot_handle \<times> 's) outcome) \<Rightarrow> ('s \<Rightarrow> slot_handle \<Rightarrow> 's outcome) \<Rightarrow>
   's \<Rightarrow> 'cb slot_op list \<Rightarrow> 's outcome"
where
  "run_slots conn disc s [] = Ok s"
| "run_slots conn disc s (Connect cb # ops) =
     (case conn s cb of Ok (h, s') \<Rightarrow> run_slots conn disc s' ops
      | Throw \<Rightarrow> run_slots conn disc s ops | Undefined \<Rightarrow> Undefined)"
| "run_slots conn disc s (Disconnect h # ops) =
     (case disc s h of Ok s' \<Rightarrow> run_slots conn disc s' ops
      | Throw \<Rightarrow> run_slots conn disc s ops | Undefined \<Rightarrow> Undefined)"

context slot_table
begin

lemma conn_iff_room: "inv s \<Longrightarrow> (\<exists>h s'. conn s cb = Ok (h, s')) \<longleftrightarrow> used s < limit s"
  using conn_room conn_full by (metis outcome.distinct(1))

lemma conn_defined: "inv s \<Longrightarrow> conn s cb \<noteq> Undefined"
  using conn_room [of s cb] conn_full [of s cb] by (cases "used s < limit s") auto

lemma disc_iff_live: "inv s \<Longrightarrow> (\<exists>s'. disc s h = Ok s') \<longleftrightarrow> look s h \<noteq> None"
  using disc_live disc_dead by (metis not_Some_eq outcome.distinct(1))

lemma disc_ok: "inv s \<Longrightarrow> disc s h = Ok s' \<Longrightarrow>
  inv s' \<and> look s h \<noteq> None \<and> look s' = (look s)(h := None) \<and>
  used s = Suc (used s') \<and> limit s' = limit s"
  using disc_live disc_dead by (metis not_Some_eq outcome.distinct(1) outcome.inject)

lemma run_total:
  "inv s \<Longrightarrow> used s \<le> limit s \<Longrightarrow>
    \<exists>s'. run_slots conn disc s ops = Ok s' \<and> inv s' \<and> used s' \<le> limit s \<and> limit s' = limit s"
proof (induction ops arbitrary: s)
  case Nil
  then show ?case by simp
next
  case (Cons a ops)
  show ?case
  proof (cases a)
    case (Connect cb)
    show ?thesis
    proof (cases "used s < limit s")
      case True
      then obtain h s' where c: "conn s cb = Ok (h, s')" using conn_room Cons.prems by blast
      with conn_ok [OF Cons.prems(1) c] True Cons.IH [of s'] Connect show ?thesis by auto
    next
      case False
      with conn_full Cons.prems Cons.IH [of s] Connect show ?thesis by auto
    qed
  next
    case (Disconnect h)
    show ?thesis
    proof (cases "look s h")
      case None
      with disc_dead Cons.prems Cons.IH [of s] Disconnect show ?thesis by auto
    next
      case (Some cb)
      then obtain s' where "disc s h = Ok s'" "inv s'" "used s = Suc (used s')"
        "limit s' = limit s" using disc_live Cons.prems by blast
      with Cons.prems Cons.IH [of s'] Disconnect show ?thesis by auto
    qed
  qed
qed

lemma conn_disc_inverse:
  assumes "inv s" and "conn s cb = Ok (h, s')"
  shows "\<exists>s''. disc s' h = Ok s'' \<and> look s'' = look s \<and> used s'' = used s"
proof -
  from conn_ok [OF assms] have "inv s'" and "look s' h = Some cb" and none: "look s h = None"
    and l: "look s' = (look s)(h \<mapsto> cb)" and u: "used s' = Suc (used s)" by auto
  then obtain s'' where "disc s' h = Ok s''" "look s'' = (look s')(h := None)"
    "used s' = Suc (used s'')" using disc_live by blast
  with none l u show ?thesis by (auto simp: fun_upd_idem)
qed

end

section \<open>The signal is a slot table\<close>

lemma slot_eqI: "(\<And>p. slot s (Some p) = slot' (Some p)) \<Longrightarrow> slot s None = slot' None \<Longrightarrow> slot s = slot'"
  by (rule ext) (metis option.exhaust)

lemma free_list_cases:
  assumes "free_list s fl"
  obtains p where "fl = [p]" | p q ps where "fl = p # q # ps"
  using assms by (cases fl rule: remdups_adj.cases) (auto simp: free_list_def)

lemma limit_room:
  assumes "free_list s fl"
  shows "size_of s < upper_limit s \<longleftrightarrow> (\<exists>p q ps. fl = p # q # ps)"
    and "size_of s \<le> upper_limit s"
  by (cases rule: free_list_cases [OF assms];
      use free_list_length [OF assms] in \<open>simp add: upper_limit_def\<close>)+

lemma wf_size_le: "wf_signal s \<Longrightarrow> size_of s \<le> upper_limit s"
  by (auto simp: wf_signal_def limit_room)

lemma connect_laws:
  assumes wf: "wf_signal s"
  shows "size_of s < upper_limit s \<Longrightarrow> \<exists>h s'. connect s cb = Ok (h, s')"
    and "\<not> size_of s < upper_limit s \<Longrightarrow> connect s cb = Throw"
    and "connect s cb = Ok (h, s') \<Longrightarrow> wf_signal s' \<and> slot s h = None \<and>
      slot s' = (slot s)(h \<mapsto> cb) \<and> size_of s' = Suc (size_of s) \<and>
      upper_limit s' = upper_limit s"
proof -
  from wf obtain fl where fl: "free_list s fl" by (auto simp: wf_signal_def)
  show "size_of s < upper_limit s \<Longrightarrow> \<exists>h s'. connect s cb = Ok (h, s')"
  proof -
    assume "size_of s < upper_limit s"
    then obtain p q ps where "fl = p # q # ps" using limit_room(1) [OF fl] by blast
    with connect_free_list(1) [of s p q ps cb] fl show ?thesis by auto
  qed
  show "\<not> size_of s < upper_limit s \<Longrightarrow> connect s cb = Throw"
    by (cases rule: free_list_cases [OF fl])
      (use fl limit_room(1) [OF fl] in \<open>auto simp: connect_last\<close>)
  assume ok: "connect s cb = Ok (h, s')"
  then obtain p q ps where c: "fl = p # q # ps"
    by (cases rule: free_list_cases [OF fl]) (use fl in \<open>auto simp: connect_last\<close>)
  let ?s = "s\<lparr>cells := (cells s)[p := Fn cb], free_beg := Some q, size_of := Suc (size_of s)\<rparr>"
  from connect_free_list [OF fl [unfolded c]] ok have h: "h = Some p" and s': "s' = ?s"
    and wf': "free_list ?s (q # ps)" by auto
  have p: "p < length (cells s)" "cells s ! p = Link q"
    using fl c by (auto simp: free_list_def)
  have "slot ?s = (slot s)(h \<mapsto> cb)"
  proof (rule slot_eqI)
    show "slot ?s (Some i) = ((slot s)(h \<mapsto> cb)) (Some i)" for i
      using p h by (cases "i = p") (simp_all add: slot_def)
  qed (simp add: h)
  moreover have "slot s h = None" using h p by (simp add: slot_def)
  moreover have "wf_signal ?s" using wf' by (auto simp: wf_signal_def)
  ultimately show "wf_signal s' \<and> slot s h = None \<and> slot s' = (slot s)(h \<mapsto> cb) \<and>
      size_of s' = Suc (size_of s) \<and> upper_limit s' = upper_limit s"
    using s' by (simp add: upper_limit_def)
qed

lemma disconnect_laws:
  assumes wf: "wf_signal s"
  shows "slot s h = Some cb \<Longrightarrow> \<exists>s'. disconnect s h = Ok s' \<and> wf_signal s' \<and>
      slot s' = (slot s)(h := None) \<and> size_of s = Suc (size_of s') \<and>
      upper_limit s' = upper_limit s"
    and "slot s h = None \<Longrightarrow> disconnect s h = Throw"
proof -
  from wf obtain fl where fl0: "free_list s fl" by (auto simp: wf_signal_def)
  then obtain f ps where fl: "free_list s (f # ps)"
    by (metis free_list_def neq_Nil_conv)
  show "\<exists>s'. disconnect s h = Ok s' \<and> wf_signal s' \<and> slot s' = (slot s)(h := None) \<and>
      size_of s = Suc (size_of s') \<and> upper_limit s' = upper_limit s"
    if live: "slot s h = Some cb"
  proof -
    from disconnect_free_list [OF fl live] obtain p s' where h: "h = Some p"
      and d: "disconnect s h = Ok s'"
      and s': "s' = s\<lparr>cells := (cells s)[f := Link p, p := cells s ! f],
                 size_of := size_of s - 1\<rparr>"
      and fl': "free_list s' (f # p # ps)" by blast
    have f: "f < length (cells s)" "\<not> is_fn (cells s ! f)"
      using fl chain_bound [of "cells s" "f # ps" f] by (auto simp: free_list_def)
    have len: "size_of s = Suc (size_of s')"
      using free_list_length [OF fl] free_list_length [OF fl'] s' by simp
    have "slot s' = (slot s)(h := None)"
    proof (rule slot_eqI)
      show "slot s' (Some i) = ((slot s)(h := None)) (Some i)" for i
        using f h s'
        by (cases "i = p"; cases "i = f") (auto simp: slot_def is_fn_def split: cell.splits)
    qed (simp add: h)
    moreover have "upper_limit s' = upper_limit s" by (simp add: upper_limit_def s')
    moreover have "wf_signal s'" using fl' unfolding wf_signal_def by (rule exI)
    ultimately show ?thesis using d len by blast
  qed
  show "disconnect s h = Throw" if dead: "slot s h = None"
  proof (cases h)
    case None
    then show ?thesis by (simp add: disconnect_def)
  next
    case (Some p)
    show ?thesis
    proof (cases "p < length (cells s)")
      case False
      with Some show ?thesis by (simp add: disconnect_def is_inside_buff_def)
    next
      case True
      with dead Some have nf: "\<not> is_fn (cells s ! p)"
        by (auto simp: slot_def is_fn_def split: cell.splits)
      from fl0 have ch: "chain (cells s) fl" by (simp add: free_list_def)
      from nf True fl0 have "p \<in> set fl" by (simp add: free_list_def)
      then have "cells s ! p = Null \<or> (\<exists>q < length (cells s). cells s ! p = Link q)"
        using chain_links [OF ch] chain_bound [OF ch] by blast
      with Some True show ?thesis by (auto simp: disconnect_def is_inside_buff_def)
    qed
  qed
qed

interpretation sig: slot_table connect disconnect slot size_of upper_limit wf_signal
  by unfold_locales (blast intro: connect_laws(1), rule connect_laws(2), assumption+,
      rule connect_laws(3), assumption+, rule disconnect_laws(1), assumption+,
      rule disconnect_laws(2), assumption+)

section \<open>Emission\<close>

text \<open>Calling a list of callbacks one after the other, up to the first exception.\<close>

fun run_each :: "(nat \<Rightarrow> 'cb \<Rightarrow> 's \<Rightarrow> 's outcome) \<Rightarrow> (nat \<times> 'cb) list \<Rightarrow> 's \<Rightarrow> 's outcome" where
  "run_each run [] s = Ok s"
| "run_each run ((p, cb) # xs) s =
     (case run p cb s of Ok s' \<Rightarrow> run_each run xs s' | Throw \<Rightarrow> Throw | Undefined \<Rightarrow> Undefined)"

definition connected_on :: "'cb signal \<Rightarrow> nat list \<Rightarrow> (nat \<times> 'cb) list" where
  "connected_on s ps = List.map_filter (\<lambda>p. map_option (Pair p) (slot s (Some p))) ps"

lemma connected_on_simps [simp]:
  "connected_on s [] = []"
  "connected_on s (p # ps) = (case slot s (Some p) of None \<Rightarrow> connected_on s ps
     | Some cb \<Rightarrow> (p, cb) # connected_on s ps)"
  by (simp_all add: connected_on_def List.map_filter_simps split: option.splits)

lemma connected_on_cong:
  "(\<And>p. p \<in> set ps \<Longrightarrow> slot s (Some p) = slot s' (Some p)) \<Longrightarrow> connected_on s ps = connected_on s' ps"
  by (induction ps) (auto split: option.splits)

lemma connected_eq: "connected s = connected_on s [0..<length (cells s)]"
  by (simp add: connected_def connected_on_def)

lemma length_connected_on:
  "set ps \<subseteq> {..<length (cells s)} \<Longrightarrow>
    length (connected_on s ps) = length (filter (\<lambda>p. is_fn (cells s ! p)) ps)"
  by (induction ps) (auto simp: slot_def is_fn_def split: cell.splits)

lemma length_connected: "wf_signal s \<Longrightarrow> length (connected s) = size_of s"
proof -
  assume "wf_signal s"
  then have "size_of s = length (filter is_fn (map ((!) (cells s)) [0..<length (cells s)]))"
    by (auto simp: wf_signal_def free_list_def map_nth)
  moreover have "length (connected s) = length (filter (\<lambda>p. is_fn (cells s ! p)) [0..<length (cells s)])"
    unfolding connected_eq by (rule length_connected_on) auto
  ultimately show ?thesis by (simp only: filter_map length_map comp_def)
qed

lemma wf_links_inside:
  assumes "wf_signal s" and "p < length (cells s)" and "cells s ! p = Link q"
  shows "is_inside_buff s q"
proof -
  from assms(1) obtain fl where fl: "free_list s fl" by (auto simp: wf_signal_def)
  then have ch: "chain (cells s) fl" by (simp add: free_list_def)
  have "p \<in> set fl" using fl assms(2,3) by (simp add: free_list_def)
  with chain_links [OF ch this] chain_bound [OF ch] assms(3) show ?thesis
    by (auto simp: is_inside_buff_def)
qed

text \<open>
  A callback may change the signal, as long as it leaves the other cells alone: then
  \<open>emit\<close> calls what was connected when it started, each callback once.
\<close>

lemma emit_loop_run_each:
  assumes step: "\<And>p cb s s'. P s \<Longrightarrow> slot (sg s) (Some p) = Some cb \<Longrightarrow> run p cb s = Ok s' \<Longrightarrow>
      P s' \<and> (\<forall>q. q \<noteq> p \<longrightarrow> slot (sg s') (Some q) = slot (sg s) (Some q)) \<and>
      length (cells (sg s')) = length (cells (sg s))"
    and wf: "\<And>s. P s \<Longrightarrow> wf_signal (sg s)"
  shows "P s \<Longrightarrow> distinct ps \<Longrightarrow> set ps \<subseteq> {..<length (cells (sg s))} \<Longrightarrow>
    left = length (connected_on (sg s) ps) \<Longrightarrow>
    emit_loop sg run left ps s = run_each run (connected_on (sg s) ps) s"
proof (induction ps arbitrary: s left)
  case Nil
  then show ?case by simp
next
  case (Cons p ps)
  have wfs: "wf_signal (sg s)" using wf Cons.prems(1) .
  have p: "p < length (cells (sg s))" using Cons.prems by simp
  show ?case
  proof (cases "slot (sg s) (Some p)")
    case (Some cb)
    then have c: "cells (sg s) ! p = Fn cb" by (simp add: slot_Some_iff)
    show ?thesis
    proof (cases "run p cb s")
      case (Ok s')
      note st = step [OF Cons.prems(1) Some Ok]
      have "connected_on (sg s') ps = connected_on (sg s) ps"
        using st Cons.prems(2) by (intro connected_on_cong) auto
      with Cons.IH [of s' "left - 1"] st Cons.prems Some c Ok show ?thesis by simp
    qed (use Some c Cons.prems in simp_all)
  next
    case None
    then have nf: "\<not> is_fn (cells (sg s) ! p)"
      using p by (auto simp: slot_def is_fn_def split: cell.splits)
    have IH: "emit_loop sg run left ps s = run_each run (connected_on (sg s) ps) s"
      using Cons None by simp
    show ?thesis
    proof (cases "left = 0")
      case True
      with Cons.prems(4) None show ?thesis by simp
    next
      case False
      with IH None nf wf_links_inside [OF wfs p] show ?thesis
        by (cases "cells (sg s) ! p") auto
    qed
  qed
qed

lemma emit_run_each:
  assumes "\<And>p cb s s'. P s \<Longrightarrow> slot (sg s) (Some p) = Some cb \<Longrightarrow> run p cb s = Ok s' \<Longrightarrow>
      P s' \<and> (\<forall>q. q \<noteq> p \<longrightarrow> slot (sg s') (Some q) = slot (sg s) (Some q)) \<and>
      length (cells (sg s')) = length (cells (sg s))"
    and "\<And>s. P s \<Longrightarrow> wf_signal (sg s)" and "P s"
  shows "emit sg run s = run_each run (connected (sg s)) s"
proof -
  have "size_of (sg s) = length (connected_on (sg s) [0..<length (cells (sg s))])"
    using length_connected [OF assms(2) [OF assms(3)]] by (simp only: connected_eq)
  then show ?thesis
    unfolding emit_def connected_eq
    by (intro emit_loop_run_each [where P = P, OF assms(1,2) assms(3)]) auto
qed

lemma delete_loop_all:
  assumes "\<And>q. Link q \<in> set cs \<Longrightarrow> q < n" and "left = length (filter is_fn cs)"
  shows "delete_loop n left cs = Ok (List.map_filter (\<lambda>c. case c of Fn cb \<Rightarrow> Some cb | _ \<Rightarrow> None) cs)"
  using assms
proof (induction cs arbitrary: left)
  case Nil
  then show ?case by (simp add: List.map_filter_simps)
next
  case (Cons c cs)
  have none: "List.map_filter (\<lambda>c. case c of Fn cb \<Rightarrow> Some cb | _ \<Rightarrow> None) cs = []"
    if "filter is_fn cs = []"
    using that by (induction cs) (auto simp: List.map_filter_simps is_fn_def split: cell.splits if_splits)
  show ?case
    using Cons.prems Cons.IH [of "length (filter is_fn cs)"] none
    by (cases c) (auto simp: List.map_filter_simps)
qed

lemma connected_on_cells:
  "set ps \<subseteq> {..<length (cells s)} \<Longrightarrow> map snd (connected_on s ps) =
    List.map_filter (\<lambda>c. case c of Fn cb \<Rightarrow> Some cb | _ \<Rightarrow> None) (map ((!) (cells s)) ps)"
proof (induction ps)
  case Nil
  then show ?case by (simp add: List.map_filter_simps)
next
  case (Cons p ps)
  then show ?case
    by (cases "cells s ! p") (simp_all add: List.map_filter_simps slot_def)
qed

lemma connected_cells:
  "map snd (connected s) = List.map_filter (\<lambda>c. case c of Fn cb \<Rightarrow> Some cb | _ \<Rightarrow> None) (cells s)"
  using connected_on_cells [of "[0..<length (cells s)]" s]
  by (simp add: connected_eq map_nth atLeast0LessThan)

section \<open>Properties\<close>

text \<open>
  C15: \<open>connect\<close> implements insertion into a bounded table of slots. While fewer
  callbacks are connected than the buffer holds it returns a handle that referred to
  no callback and now refers to the new one, every other handle keeping its callback;
  when the buffer is full it throws; it never dereferences a wild pointer.
\<close>
theorem connect_refines_insert:
  assumes "wf_signal s"
  shows "case connect s cb of
      Ok (h, s') \<Rightarrow> size_of s < upper_limit s \<and> slot s h = None \<and> slot s' = (slot s)(h \<mapsto> cb) \<and>
        size_of s' = Suc (size_of s) \<and> upper_limit s' = upper_limit s \<and> wf_signal s'
    | Throw \<Rightarrow> size_of s = upper_limit s
    | Undefined \<Rightarrow> False"
proof (cases "size_of s < upper_limit s")
  case True
  obtain h s' where c: "connect s cb = Ok (h, s')"
    using sig.conn_room [OF assms True, of cb] by (elim exE that)
  show ?thesis using sig.conn_ok [OF assms c] True unfolding c by simp
next
  case False
  then have "connect s cb = Throw" by (rule sig.conn_full [OF assms])
  with False wf_size_le [OF assms] show ?thesis by simp
qed

theorem connect_refines_insert_witness:
  "case connect (signal_buffer 2 :: nat signal) 7 of
      Ok (h, s') \<Rightarrow> size_of (signal_buffer 2 :: nat signal) < upper_limit (signal_buffer 2 :: nat signal) \<and>
        slot (signal_buffer 2 :: nat signal) h = None \<and>
        slot s' = (slot (signal_buffer 2))(h \<mapsto> 7) \<and>
        size_of s' = Suc (size_of (signal_buffer 2 :: nat signal)) \<and>
        upper_limit s' = upper_limit (signal_buffer 2 :: nat signal) \<and> wf_signal s'
    | Throw \<Rightarrow> size_of (signal_buffer 2 :: nat signal) = upper_limit (signal_buffer 2 :: nat signal)
    | Undefined \<Rightarrow> False"
  by (rule connect_refines_insert [OF wf_signal_buffer])

text \<open>
  C16: \<open>disconnect\<close> implements deletion from the table of slots. A handle that refers to a
  callback loses it, every other handle keeps its callback and one more callback can be
  connected; any other handle (null, foreign to the buffer, or of a free cell) throws.
\<close>
theorem disconnect_refines_delete:
  assumes "wf_signal s"
  shows "case disconnect s h of
      Ok s' \<Rightarrow> slot s h \<noteq> None \<and> slot s' = (slot s)(h := None) \<and>
        size_of s = Suc (size_of s') \<and> upper_limit s' = upper_limit s \<and> wf_signal s'
    | Throw \<Rightarrow> slot s h = None
    | Undefined \<Rightarrow> False"
proof (cases "slot s h")
  case None
  with sig.disc_dead [OF assms None] show ?thesis by simp
next
  case (Some cb)
  obtain s' where "disconnect s h = Ok s'"
    using sig.disc_live [OF assms Some] by (elim exE conjE that)
  with sig.disc_ok [OF assms this] show ?thesis by simp
qed

theorem disconnect_refines_delete_witness:
  "case disconnect (signal_buffer 2 :: nat signal) (Some 1) of
      Ok s' \<Rightarrow> slot (signal_buffer 2 :: nat signal) (Some 1) \<noteq> None \<and>
        slot s' = (slot (signal_buffer 2))(Some 1 := None) \<and>
        size_of (signal_buffer 2 :: nat signal) = Suc (size_of s') \<and>
        upper_limit s' = upper_limit (signal_buffer 2 :: nat signal) \<and> wf_signal s'
    | Throw \<Rightarrow> slot (signal_buffer 2 :: nat signal) (Some 1) = None
    | Undefined \<Rightarrow> False"
  by (rule disconnect_refines_delete [OF wf_signal_buffer])

text \<open>
  Starting from a new signal, no sequence of connects and disconnects, with any handles
  and with exceptions caught by the caller, reaches undefined behaviour, and the number
  of callbacks stays within the limit of the constructor.
\<close>
lemma signal_scripts_safe:
  "\<exists>s. run_slots connect disconnect (signal_buffer n) ops = Ok s \<and>
    wf_signal s \<and> size_of s \<le> n \<and> upper_limit s = n"
  using sig.run_total [OF wf_signal_buffer, of n ops] by simp

text \<open>
  The cell freed by \<open>disconnect\<close> goes behind the head of the free list, so the second
  callback connected afterwards gets the very handle that was disconnected: a handle
  kept after its disconnection refers to somebody else's callback.
\<close>
lemma stale_handle_reused:
  assumes "wf_signal s" and "disconnect s h = Ok s1"
    and "connect s1 a = Ok (h1, s2)" and "connect s2 b = Ok (h2, s3)"
  shows "h2 = h \<and> slot s3 h = Some b"
proof -
  from sig.disc_ok [OF assms(1,2)] obtain cb where live: "slot s h = Some cb" by auto
  from assms(1) obtain f ps where fl: "free_list s (f # ps)"
    unfolding wf_signal_def free_list_def by (metis neq_Nil_conv)
  obtain p where h: "h = Some p" and fl1: "free_list s1 (f # p # ps)"
    by (rule disconnect_free_list [OF fl live]) (use assms(2) in auto)
  from connect_free_list [OF fl1] assms(3) have fl2: "free_list s2 (p # ps)" by auto
  with assms(4) obtain q qs where "ps = q # qs"
    by (cases ps) (auto simp: connect_last)
  with connect_free_list(1) [of s2 p] fl2 assms(4) h have h2: "h2 = h" by auto
  have "wf_signal s2" using fl2 by (auto simp: wf_signal_def)
  from sig.conn_ok [OF this assms(4)] h2 show ?thesis by simp
qed

text \<open>
  C17: \<open>emit\<close> calls every connected callback exactly once, in the order of the buffer, and
  an exception of a callback ends it, for callbacks that leave the signal alone.
\<close>
theorem emit_calls_each_once:
  assumes "wf_signal (sg s)"
    and "\<And>p cb s s'. run p cb s = Ok s' \<Longrightarrow> sg s' = sg s"
  shows "emit sg run s = run_each run (connected (sg s)) s"
  by (rule emit_run_each [where P = "\<lambda>s. wf_signal (sg s)"]) (use assms in auto)

theorem emit_calls_each_once_witness:
  "let s = \<lparr>cells = [Fn 7, Link 3, Fn 8, Null], free_beg = Some 1, size_of = 2\<rparr> :: nat signal
   in emit fst (\<lambda>p cb (s, log). Ok (s, log @ [cb])) (s, []) = Ok (s, [7, 8])"
proof -
  let ?s = "\<lparr>cells = [Fn 7, Link 3, Fn 8, Null], free_beg = Some 1, size_of = 2\<rparr> :: nat signal"
  let ?run = "\<lambda>p (cb :: nat) (s :: nat signal, log). Ok (s, log @ [cb])"
  have "free_list ?s [1, 3]"
    by (auto simp: free_list_def less_Suc_eq numeral_2_eq_2 numeral_3_eq_3 is_fn_def)
  then have "wf_signal ?s" by (auto simp: wf_signal_def)
  then have "emit fst ?run (?s, []) = run_each ?run (connected ?s) (?s, [])"
    using emit_calls_each_once [of fst "(?s, [])" ?run] by auto
  also have "connected ?s = [(0, 7), (2, 8)]"
    by (simp add: connected_def upt_rec List.map_filter_simps slot_def numeral_2_eq_2 numeral_3_eq_3)
  finally show ?thesis by (simp add: Let_def)
qed

text \<open>
  The destructor deletes every connected callback exactly once: none leaks and none is
  deleted twice.
\<close>
lemma destroy_deletes_each_once:
  assumes "wf_signal s"
  shows "signal_destroy s = Ok (map snd (connected s))"
proof -
  have "q < length (cells s)" if "Link q \<in> set (cells s)" for q
    using that wf_links_inside [OF assms] by (metis in_set_conv_nth is_inside_buff_def)
  moreover have "size_of s = length (filter is_fn (cells s))"
    using assms by (auto simp: wf_signal_def free_list_def)
  ultimately show ?thesis
    unfolding signal_destroy_def connected_cells by (rule delete_loop_all)
qed

end
