(* ===== verification/Session_Manager.thy ===== *)
theory Session_Manager
  imports Prelude "HOL-Library.AList"
begin

text \<open>
  \<open>Simple::SessionManager\<close> of \<open>src/src/clib/session_manager.hpp\<close>: a table of sessions
  under random handles. The unordered map is the list of its entries, in the
  order in which it happens to iterate over them; the random generator is the
  argument \<open>keygen\<close>, whose value at \<open>(upper_limit, k)\<close> is the number its \<open>k\<close>-th call
  returns. The loop of \<open>create\<close> draws until it finds a handle that is free; it
  need not end for a generator that repeats itself, so its result is an option,
  with \<^term>\<open>None\<close> for not returning. The contract of the manager is the locale
  \<open>session_store\<close>.
\<close>

section \<open>Data\<close>

definition default_max_sessions :: nat where
  "default_max_sessions = 1000"

record 'a sessions =
  table :: "(nat \<times> 'a) list"
  max_sessions :: nat

type_synonym generator = "nat \<Rightarrow> nat \<Rightarrow> nat"

definition sessions_new :: "nat \<Rightarrow> 'a sessions" where
  "sessions_new limit = \<lparr>table = [], max_sessions = limit\<rparr>"

section \<open>Operations\<close>

definition find_session_or_throw :: "'a sessions \<Rightarrow> nat \<Rightarrow> 'a outcome" where
  "find_session_or_throw s sess_handle =
     (if table s = [] then Throw
      else (case map_of (table s) sess_handle of None \<Rightarrow> Throw | Some p_sess \<Rightarrow> Ok p_sess))"

text \<open>The state of the static generator is the number of draws so far.\<close>

definition gen_handle :: "generator \<Rightarrow> nat \<Rightarrow> nat \<Rightarrow> nat \<times> nat" where
  "gen_handle keygen limit k = (keygen limit k, Suc k)"

partial_function (option) draw_free ::
  "generator \<Rightarrow> nat \<Rightarrow> (nat \<times> 'a) list \<Rightarrow> nat \<Rightarrow> (nat \<times> nat) option" where
  "draw_free keygen limit tab k =
     (case gen_handle keygen limit k of (sess_handle, k') \<Rightarrow>
        if map_of tab sess_handle \<noteq> None then draw_free keygen limit tab k'
        else Some (sess_handle, k'))"

definition create ::
  "generator \<Rightarrow> 'a sessions \<Rightarrow> nat \<Rightarrow> 'a \<Rightarrow> (nat \<times> nat \<times> 'a sessions) outcome option" where
  "create keygen s k sess =
     (if max_sessions s \<le> length (table s) then Some Throw
      else map_option (\<lambda>(sess_handle, k').
             Ok (sess_handle, k', s\<lparr>table := AList.update sess_handle sess (table s)\<rparr>))
           (draw_free keygen (max_sessions s) (table s) k))"

definition get :: "'a sessions \<Rightarrow> nat \<Rightarrow> 'a outcome" where
  "get s sess_handle = find_session_or_throw s sess_handle"

text \<open>Writing through the reference \<open>get\<close> returns.\<close>

definition modify :: "'a sessions \<Rightarrow> nat \<Rightarrow> ('a \<Rightarrow> 'a) \<Rightarrow> 'a sessions outcome" where
  "modify s sess_handle f =
     (case get s sess_handle of
        Ok sess \<Rightarrow> Ok (s\<lparr>table := AList.update sess_handle (f sess) (table s)\<rparr>)
      | Throw \<Rightarrow> Throw | Undefined \<Rightarrow> Undefined)"

definition collect :: "'a sessions \<Rightarrow> ('a \<times> nat) list" where
  "collect s = map (\<lambda>session. (snd session, fst session)) (table s)"

definition remove :: "'a sessions \<Rightarrow> nat \<Rightarrow> 'a sessions outcome" where
  "remove s sess_handle =
     (case find_session_or_throw s sess_handle of
        Ok _ \<Rightarrow> Ok (s\<lparr>table := AList.delete sess_handle (table s)\<rparr>)
      | Throw \<Rightarrow> Throw | Undefined \<Rightarrow> Undefined)"

definition count :: "'a sessions \<Rightarrow> nat" where
  "count s = length (table s)"

definition empty :: "'a sessions \<Rightarrow> bool" where
  "empty s \<longleftrightarrow> table s = []"

section \<open>Invariant and abstraction\<close>

definition wf_sessions :: "'a sessions \<Rightarrow> bool" where
  "wf_sessions s \<longleftrightarrow> distinct (map fst (table s)) \<and> length (table s) \<le> max_sessions s"

definition session :: "'a sessions \<Rightarrow> nat \<Rightarrow> 'a option" where
  "session s = map_of (table s)"

lemma wf_sessions_new [simp]: "wf_sessions (sessions_new n)"
  by (simp add: wf_sessions_def sessions_new_def)

lemma session_new [simp]: "session (sessions_new n) h = None"
  by (simp add: session_def sessions_new_def)

lemma get_session: "get s h = (case session s h of None \<Rightarrow> Throw | Some v \<Rightarrow> Ok v)"
  by (auto simp: get_def find_session_or_throw_def session_def split: option.split)

lemma draw_free_step:
  "draw_free keygen limit tab k =
     (if map_of tab (keygen limit k) \<noteq> None then draw_free keygen limit tab (Suc k)
      else Some (keygen limit k, Suc k))"
  by (subst draw_free.simps) (simp add: gen_handle_def)

lemma draw_free_fresh:
  assumes ret: "draw_free keygen limit tab k = Some (h, k')"
  shows "map_of tab h = None \<and> k < k' \<and> h = keygen limit (k' - 1)"
proof -
  have "map_of tab (fst r) = None \<and> k < snd r \<and> fst r = keygen limit (snd r - 1)"
    if "draw_free keygen limit tab k = Some r" for r
  proof (rule draw_free.raw_induct
      [where P = "\<lambda>keygen limit tab k r.
         map_of tab (fst r) = None \<and> k < snd r \<and> fst r = keygen limit (snd r - 1)", OF _ that])
    fix f :: "generator \<Rightarrow> nat \<Rightarrow> (nat \<times> 'a) list \<Rightarrow> nat \<Rightarrow> (nat \<times> nat) option"
      and keygen limit tab k r
    assume IH: "\<And>keygen limit tab k r. f keygen limit tab k = Some r \<Longrightarrow>
        map_of tab (fst r) = None \<and> k < snd r \<and> fst r = keygen limit (snd r - 1)"
      and eq: "(case gen_handle keygen limit k of (h, k') \<Rightarrow>
          if map_of tab h \<noteq> None then f keygen limit tab k' else Some (h, k')) = Some r"
    show "map_of tab (fst r) = None \<and> k < snd r \<and> fst r = keygen limit (snd r - 1)"
    proof (cases "map_of tab (keygen limit k) = None")
      case True
      with eq show ?thesis by (auto simp: gen_handle_def)
    next
      case False
      with eq have "f keygen limit tab (Suc k) = Some r" by (auto simp: gen_handle_def)
      from IH [OF this] show ?thesis by auto
    qed
  qed
  with ret show ?thesis by fastforce
qed

text \<open>The loop ends as soon as the generator yields a free handle.\<close>

lemma draw_free_ends:
  assumes "map_of tab (keygen limit j) = None" and "k \<le> j"
  shows "\<exists>h k'. draw_free keygen limit tab k = Some (h, k')"
  using assms(2)
proof (induction k rule: inc_induct)
  case base
  with assms(1) show ?case by (subst draw_free_step) simp
next
  case (step k)
  then show ?case by (subst draw_free_step) auto
qed

text \<open>A table that is not full leaves one of the handles \<open>0..max_sessions\<close> free.\<close>

lemma free_handle_exists:
  assumes "length tab \<le> limit"
  shows "\<exists>h \<le> limit. map_of tab h = None"
proof (rule ccontr)
  assume "\<not> ?thesis"
  then have "{0..limit} \<subseteq> set (map fst tab)"
    by (auto simp: map_of_eq_None_iff)
  then have "card {0..limit} \<le> length (map fst tab)"
    by (meson card_length card_mono finite_set order_trans)
  with assms show False by simp
qed

section \<open>The interface: a store of sessions\<close>

locale session_store =
  fixes mk :: "'s \<Rightarrow> 'g \<Rightarrow> 'a \<Rightarrow> (nat \<times> 'g \<times> 's) outcome option"
    and upd :: "'s \<Rightarrow> nat \<Rightarrow> ('a \<Rightarrow> 'a) \<Rightarrow> 's outcome"
    and del :: "'s \<Rightarrow> nat \<Rightarrow> 's outcome"
    and look :: "'s \<Rightarrow> nat \<Rightarrow> 'a option"
    and used :: "'s \<Rightarrow> nat"
    and limit :: "'s \<Rightarrow> nat"
    and inv :: "'s \<Rightarrow> bool"
  assumes mk_full: "inv s \<Longrightarrow> limit s \<le> used s \<Longrightarrow> mk s g v = Some Throw"
    and mk_room: "inv s \<Longrightarrow> used s < limit s \<Longrightarrow>
      mk s g v = None \<or> (\<exists>h g' s'. mk s g v = Some (Ok (h, g', s')))"
    and mk_ok: "inv s \<Longrightarrow> mk s g v = Some (Ok (h, g', s')) \<Longrightarrow>
      inv s' \<and> look s h = None \<and> look s' = (look s)(h \<mapsto> v) \<and>
      used s' = Suc (used s) \<and> limit s' = limit s"
    and upd_live: "inv s \<Longrightarrow> look s h = Some v \<Longrightarrow>
      \<exists>s'. upd s h f = Ok s' \<and> inv s' \<and> look s' = (look s)(h \<mapsto> f v) \<and>
        used s' = used s \<and> limit s' = limit s"
    and upd_dead: "inv s \<Longrightarrow> look s h = None \<Longrightarrow> upd s h f = Throw"
    and del_live: "inv s \<Longrightarrow> look s h = Some v \<Longrightarrow>
      \<exists>s'. del s h = Ok s' \<and> inv s' \<and> look s' = (look s)(h := None) \<and>
        used s = Suc (used s') \<and> limit s' = limit s"
    and del_dead: "inv s \<Longrightarrow> look s h = None \<Longrightarrow> del s h = Throw"
begin

lemma upd_ok: "inv s \<Longrightarrow> upd s h f = Ok s' \<Longrightarrow> \<exists>v. look s h = Some v \<and> inv s' \<and>
    look s' = (look s)(h \<mapsto> f v) \<and> used s' = used s \<and> limit s' = limit s"
  using upd_live upd_dead
  by (metis not_None_eq outcome.distinct(1) outcome.inject)

lemma del_ok: "inv s \<Longrightarrow> del s h = Ok s' \<Longrightarrow> look s h \<noteq> None \<and> inv s' \<and>
    look s' = (look s)(h := None) \<and> used s = Suc (used s') \<and> limit s' = limit s"
  using del_live del_dead
  by (metis not_None_eq outcome.distinct(1) outcome.inject)

lemma mk_del_inverse:
  assumes "inv s" and "mk s g v = Some (Ok (h, g', s'))"
  shows "\<exists>s''. del s' h = Ok s'' \<and> look s'' = look s \<and> used s'' = used s"
proof -
  from mk_ok [OF assms] have i: "inv s'" and l: "look s' = (look s)(h \<mapsto> v)"
    and n: "look s h = None" and u: "used s' = Suc (used s)" by auto
  from l have "look s' h = Some v" by simp
  with del_live [OF i] obtain s'' where "del s' h = Ok s''" "look s'' = (look s')(h := None)"
    "used s' = Suc (used s'')" by blast
  with l n u show ?thesis by (auto simp: fun_upd_idem)
qed

end

lemma length_update_fresh:
  "map_of al k = None \<Longrightarrow> length (AList.update k v al) = Suc (length al)"
  by (induction al) auto

lemma length_update_present:
  "map_of al k = Some w \<Longrightarrow> length (AList.update k v al) = length al"
  by (induction al) auto

lemma length_delete_present:
  "distinct (map fst al) \<Longrightarrow> map_of al k = Some w \<Longrightarrow> length al = Suc (length (AList.delete k al))"
proof (induction al)
  case Nil
  then show ?case by simp
next
  case (Cons p al)
  have "k \<notin> set (map fst al) \<Longrightarrow> AList.delete k al = al"
    by (auto simp: AList.delete_eq filter_id_conv image_iff)
  with Cons show ?case by (cases "fst p = k") (cases p, auto)+
qed

lemma map_of_update [simp]: "map_of (AList.update k v al) = (map_of al)(k \<mapsto> v)"
  by (rule ext) (simp add: update_conv)

lemma map_of_delete [simp]: "map_of (AList.delete k al) = (map_of al)(k := None)"
  by (rule ext) (simp add: delete_conv)

lemma create_ok:
  assumes "wf_sessions s" and "create keygen s k v = Some (Ok (h, k', s'))"
  shows "wf_sessions s' \<and> session s h = None \<and> session s' = (session s)(h \<mapsto> v) \<and>
    count s' = Suc (count s) \<and> max_sessions s' = max_sessions s"
proof -
  from assms(2) have room: "length (table s) < max_sessions s"
    and d: "draw_free keygen (max_sessions s) (table s) k = Some (h, k')"
    and s': "s' = s\<lparr>table := AList.update h v (table s)\<rparr>"
    by (auto simp: create_def split: if_splits)
  from draw_free_fresh [OF d] have n: "map_of (table s) h = None" ..
  from assms(1) room n s' show ?thesis
    by (simp add: wf_sessions_def session_def count_def distinct_update length_update_fresh)
qed

lemma modify_live:
  assumes "wf_sessions s" and "session s h = Some v"
  shows "\<exists>s'. modify s h f = Ok s' \<and> wf_sessions s' \<and> session s' = (session s)(h \<mapsto> f v) \<and>
    count s' = count s \<and> max_sessions s' = max_sessions s"
  using assms
  by (simp add: modify_def get_session wf_sessions_def session_def count_def distinct_update
      length_update_present)

lemma remove_live:
  assumes "wf_sessions s" and "session s h = Some v"
  shows "\<exists>s'. remove s h = Ok s' \<and> wf_sessions s' \<and> session s' = (session s)(h := None) \<and>
    count s = Suc (count s') \<and> max_sessions s' = max_sessions s"
proof -
  have "find_session_or_throw s h = Ok v"
    using assms(2) get_session [of s h] by (simp add: get_def)
  moreover have "length (table s) = Suc (length (AList.delete h (table s)))"
    using assms by (intro length_delete_present [where w = v])
      (auto simp: wf_sessions_def session_def)
  ultimately show ?thesis using assms(1)
    by (simp add: remove_def wf_sessions_def session_def count_def distinct_delete)
qed

interpretation ses: session_store "create keygen" modify remove session count max_sessions wf_sessions
  for keygen
proof unfold_locales
  fix s :: "'a sessions" and g v
  show "max_sessions s \<le> count s \<Longrightarrow> create keygen s g v = Some Throw"
    by (simp add: create_def count_def)
  show "count s < max_sessions s \<Longrightarrow> create keygen s g v = None \<or>
      (\<exists>h g' s'. create keygen s g v = Some (Ok (h, g', s')))"
    by (cases "draw_free keygen (max_sessions s) (table s) g")
      (auto simp: create_def count_def split: prod.splits)
next
  fix s :: "'a sessions" and h f
  assume "wf_sessions s" and n: "session s h = None"
  then show "modify s h f = Throw" by (simp add: modify_def get_session)
  show "remove s h = Throw"
    using n get_session [of s h] by (simp add: remove_def get_def)
qed (rule create_ok modify_live remove_live; assumption)+

section \<open>Properties\<close>

text \<open>A generator that keeps producing every handle of its range.\<close>

definition fair :: "generator \<Rightarrow> nat \<Rightarrow> bool" where
  "fair keygen limit \<longleftrightarrow> (\<forall>h \<le> limit. \<forall>k. \<exists>j \<ge> k. keygen limit j = h)"

definition round_robin :: generator where
  "round_robin limit k = k mod Suc limit"

lemma fair_round_robin: "fair round_robin limit"
proof -
  have "\<exists>j \<ge> k. j mod Suc limit = h" if "h \<le> limit" for h k :: nat
    using that by (intro exI [of _ "h + k * Suc limit"]) (simp del: mult_Suc_right, simp)
  then show ?thesis by (simp add: fair_def round_robin_def)
qed

text \<open>
  C18: With a generator that keeps producing every handle, \<open>create\<close> on a table that is not
  full returns, with a handle that was free, under which the new session is now stored;
  the other sessions are untouched.
\<close>
theorem create_returns_fresh_handle:
  assumes "wf_sessions s" and "count s < max_sessions s" and "fair keygen (max_sessions s)"
  shows "\<exists>h k' s'. create keygen s k v = Some (Ok (h, k', s')) \<and> session s h = None \<and>
    session s' = (session s)(h \<mapsto> v) \<and> count s' = Suc (count s) \<and> wf_sessions s'"
proof -
  obtain h where "h \<le> max_sessions s" and free: "map_of (table s) h = None"
    using free_handle_exists [of "table s" "max_sessions s"] assms(2) by (auto simp: count_def)
  then obtain j where "k \<le> j" and "keygen (max_sessions s) j = h"
    using assms(3) unfolding fair_def by blast
  then obtain h' k' where "draw_free keygen (max_sessions s) (table s) k = Some (h', k')"
    using draw_free_ends free by blast
  then have "create keygen s k v \<noteq> None"
    using assms(2) by (simp add: create_def count_def)
  with ses.mk_room [OF assms(1,2), of keygen k v]
  obtain h g' s' where c: "create keygen s k v = Some (Ok (h, g', s'))" by auto
  with ses.mk_ok [OF assms(1) c] show ?thesis by simp
qed

theorem create_returns_fresh_handle_witness:
  "\<exists>h k' s'. create round_robin (sessions_new 3) 0 (7 :: nat) = Some (Ok (h, k', s')) \<and>
    session (sessions_new 3 :: nat sessions) h = None \<and>
    session s' = (session (sessions_new 3))(h \<mapsto> 7) \<and>
    count s' = Suc (count (sessions_new 3 :: nat sessions)) \<and> wf_sessions s'"
  by (rule create_returns_fresh_handle)
    (simp_all add: fair_round_robin, simp add: count_def sessions_new_def)

text \<open>
  C19: \<open>get\<close>, writing through its reference, and \<open>remove\<close> are lookup, update and deletion of
  the map from handles to sessions; on a handle that is not in the table each of them
  throws.
\<close>
theorem store_refines_map:
  assumes "wf_sessions s"
  shows "get s h = (case session s h of None \<Rightarrow> Throw | Some v \<Rightarrow> Ok v) \<and>
    (case modify s h f of
       Ok s' \<Rightarrow> (\<exists>v. session s h = Some v \<and> session s' = (session s)(h \<mapsto> f v)) \<and> wf_sessions s'
     | Throw \<Rightarrow> session s h = None
     | Undefined \<Rightarrow> False) \<and>
    (case remove s h of
       Ok s' \<Rightarrow> session s h \<noteq> None \<and> session s' = (session s)(h := None) \<and> wf_sessions s'
     | Throw \<Rightarrow> session s h = None
     | Undefined \<Rightarrow> False)"
proof (cases "session s h")
  case None
  with ses.upd_dead [OF assms None, of f] ses.del_dead [OF assms None] show ?thesis
    by (simp add: get_session)
next
  case (Some v)
  obtain s1 where 1: "modify s h f = Ok s1" using ses.upd_live [OF assms Some, of f] by (elim exE conjE that)
  obtain s2 where 2: "remove s h = Ok s2" using ses.del_live [OF assms Some] by (elim exE conjE that)
  show ?thesis
    using ses.upd_ok [OF assms 1] ses.del_ok [OF assms 2] Some unfolding 1 2
    by (simp add: get_session)
qed

theorem store_refines_map_witness:
  "let s = \<lparr>table = [(4, 7 :: nat)], max_sessions = 3\<rparr> in
     get s 4 = Ok 7 \<and> (\<exists>s'. modify s 4 Suc = Ok s' \<and> session s' 4 = Some 8) \<and> remove s 5 = Throw"
proof -
  let ?s = "\<lparr>table = [(4, 7 :: nat)], max_sessions = 3\<rparr>"
  have wf: "wf_sessions ?s" by (simp add: wf_sessions_def)
  have l: "session ?s 4 = Some 7" "session ?s 5 = None" by (simp_all add: session_def)
  show ?thesis
    using store_refines_map [OF wf, of 4 Suc] store_refines_map [OF wf, of 5 Suc] l
    by (auto simp: Let_def split: outcome.splits)
qed

end
