(* ===== verification/Observable.thy ===== *)
theory Observable
  imports Session_Manager
begin

text \<open>
  \<open>src/src/clib/observation_module.hpp\<close>: an observable (a device, the parameter to read
  from its responses, and the latest values), and the module that holds them. The
  values are a \<open>boost::circular_buffer\<close> of capacity 50, whose \<open>push_back\<close> is not code
  of the repository: it is the argument \<open>push_back\<close>, and what its documentation says
  of it is \<open>circular_push\<close>. Time points are nanoseconds since the epoch. A
  measured value is of any type with a zero, standing for \<open>double\<close>.
\<close>

section \<open>Data\<close>

datatype Protocol = ProtocolHTTP | ProtocolHTTPS | ProtocolCOAP | ProtocolCOAPS

type_synonym time_point = int

record 'd observable =
  vals :: "(time_point \<times> 'd) list"
  latest_observation :: time_point
  protocol :: Protocol
  hostname :: bytes
  path :: bytes
  param_location :: bytes
  device_name :: bytes
  param_name :: bytes
  interval :: nat

text \<open>The constructor leaves \<open>interval\<close> uninitialised: it holds whatever was there.\<close>

definition observable_new :: "time_point \<Rightarrow> nat \<Rightarrow> 'd observable" where
  "observable_new now junk =
     \<lparr>vals = [], latest_observation = now, protocol = ProtocolHTTPS, hostname = [], path = [],
      param_location = [], device_name = [], param_name = [], interval = junk\<rparr>"

type_synonym 'd push = "nat \<Rightarrow> (time_point \<times> 'd) list \<Rightarrow> time_point \<times> 'd \<Rightarrow> (time_point \<times> 'd) list"

definition values_capacity :: nat where
  "values_capacity = 50"

section \<open>Operations\<close>

definition clearValues :: "'d observable \<Rightarrow> 'd observable" where
  "clearValues obs = obs\<lparr>vals := []\<rparr>"

definition getValues :: "'d observable \<Rightarrow> (time_point \<times> 'd) list" where
  "getValues obs = vals obs"

definition addValue :: "'d push \<Rightarrow> time_point \<Rightarrow> 'd \<Rightarrow> 'd observable \<Rightarrow> 'd observable" where
  "addValue push_back now v obs = obs\<lparr>vals := push_back values_capacity (vals obs) (now, v)\<rparr>"

definition observation_module :: "'d observable sessions" where
  "observation_module = sessions_new 10000"

section \<open>The circular buffer\<close>

text \<open>
  Documented behaviour of \<open>circular_buffer::push_back\<close>: it appends, and first drops the
  oldest element when the buffer is full.
\<close>

definition circular_push :: "'d push \<Rightarrow> bool" where
  "circular_push push_back \<longleftrightarrow> (\<forall>cap xs x. 0 < cap \<longrightarrow> length xs \<le> cap \<longrightarrow>
     push_back cap xs x = (if length xs = cap then tl xs else xs) @ [x])"

definition ring_push :: "'d push" where
  "ring_push cap xs x = (if length xs = cap then tl xs else xs) @ [x]"

lemma circular_ring_push: "circular_push ring_push"
  by (simp add: circular_push_def ring_push_def)

fun add_values :: "'d push \<Rightarrow> (time_point \<times> 'd) list \<Rightarrow> 'd observable \<Rightarrow> 'd observable" where
  "add_values push_back [] obs = obs"
| "add_values push_back ((t, v) # tvs) obs = add_values push_back tvs (addValue push_back t v obs)"

lemma addValue_keeps_recent:
  assumes "circular_push push_back" and "length (vals obs) \<le> 50"
  shows "vals (addValue push_back t v obs) =
    drop (Suc (length (vals obs)) - 50) (vals obs @ [(t, v)])"
    and "length (vals (addValue push_back t v obs)) \<le> 50"
  using assms by (auto simp: addValue_def circular_push_def values_capacity_def drop_Suc Suc_diff_le)

text \<open>
  However many values are added to an observable, it holds the latest 50 of them (all
  of them while there are no more), in the order in which they were added.
\<close>
lemma values_are_latest:
  assumes "circular_push push_back" and "vals obs = []"
  shows "vals (add_values push_back tvs obs) = drop (length tvs - 50) tvs"
proof -
  have "vals (add_values push_back tvs obs) =
      drop (length (vals obs) + length tvs - 50) (vals obs @ tvs)"
    if "length (vals obs) \<le> 50" for obs :: "'a observable"
    using that
  proof (induction tvs arbitrary: obs)
    case Nil
    then show ?case by simp
  next
    case (Cons tv tvs)
    obtain t v where tv: "tv = (t, v)" by (cases tv)
    have l: "length (vals obs) = 50 \<or> length (vals obs) < 50" using Cons.prems by auto
    have ih: "vals (add_values push_back tvs (addValue push_back t v obs)) =
      drop (length (vals (addValue push_back t v obs)) + length tvs - 50)
        (vals (addValue push_back t v obs) @ tvs)"
      using addValue_keeps_recent(2) [OF assms(1) Cons.prems] by (rule Cons.IH)
    from l show ?case
      unfolding tv add_values.simps ih addValue_keeps_recent(1) [OF assms(1) Cons.prems]
      by (auto simp: drop_Suc Suc_diff_le)
  qed
  from this [of obs] assms(2) show ?thesis by simp
qed

end
