(* ===== verification/Regex_Match.thy ===== *)
theory Regex_Match
  imports Prelude
begin

text \<open>
  \<open>std::regex_match\<close> for the regular expressions of \<open>src/src/http-server.cpp\<close>, with the
  backtracking semantics of ECMAScript expressions: the ways to match a prefix are
  tried in order, a star prefers one more iteration and takes none that consumes
  nothing, and the first way that consumes the whole subject gives the captures.
  The expressions themselves are written as terms of \<open>rx\<close>.
\<close>

section \<open>Expressions and the matcher\<close>

datatype rx =
    Eps
  | Cls "(char \<times> char) list"
  | Dot
  | Seq rx rx
  | Alt rx rx
  | Star rx
  | Group nat rx

definition Opt :: "rx \<Rightarrow> rx" where "Opt r = Alt r Eps"

definition Plus :: "rx \<Rightarrow> rx" where "Plus r = Seq r (Star r)"

fun Lit :: "bytes \<Rightarrow> rx" where
  "Lit [] = Eps"
| "Lit (c # cs) = Seq (Cls [(c, c)]) (Lit cs)"

definition in_cls :: "(char \<times> char) list \<Rightarrow> char \<Rightarrow> bool" where
  "in_cls rs c \<longleftrightarrow> list_ex (\<lambda>(lo, hi). (of_char lo :: nat) \<le> of_char c \<and> (of_char c :: nat) \<le> of_char hi) rs"

text \<open>The dot matches everything but line terminators.\<close>

definition in_dot :: "char \<Rightarrow> bool" where
  "in_dot c \<longleftrightarrow> c \<noteq> LF \<and> c \<noteq> CR"

type_synonym captures = "(nat \<times> bytes) list"

text \<open>All ways to match a prefix, in the order they are tried: the captures and the rest.\<close>

function parses :: "rx \<Rightarrow> bytes \<Rightarrow> (captures \<times> bytes) list" where
  "parses Eps s = [([], s)]"
| "parses (Cls rs) s = (case s of [] \<Rightarrow> [] | c # t \<Rightarrow> if in_cls rs c then [([], t)] else [])"
| "parses Dot s = (case s of [] \<Rightarrow> [] | c # t \<Rightarrow> if in_dot c then [([], t)] else [])"
| "parses (Seq a b) s =
     concat (map (\<lambda>(c1, t). map (\<lambda>(c2, u). (c1 @ c2, u)) (parses b t)) (parses a s))"
| "parses (Alt a b) s = parses a s @ parses b s"
| "parses (Star a) s =
     concat (map (\<lambda>(c1, t). if length t < length s
                            then map (\<lambda>(c2, u). (c1 @ c2, u)) (parses (Star a) t) else [])
                 (parses a s)) @ [([], s)]"
| "parses (Group n a) s = map (\<lambda>(c, t). ((n, take (length s - length t) s) # c, t)) (parses a s)"
  by pat_completeness auto
termination
  by (relation "measures [\<lambda>(r, s). size r, \<lambda>(r, s). length s]") auto

declare parses.simps(6) [simp del]

lemma in_parses_simps [simp]:
  "(c, t) \<in> set (parses Eps s) \<longleftrightarrow> c = [] \<and> t = s"
  "(c, t) \<in> set (parses (Cls rs) s) \<longleftrightarrow> c = [] \<and> (\<exists>x. s = x # t \<and> in_cls rs x)"
  "(c, t) \<in> set (parses Dot s) \<longleftrightarrow> c = [] \<and> (\<exists>x. s = x # t \<and> in_dot x)"
  "(c, t) \<in> set (parses (Alt a b) s) \<longleftrightarrow> (c, t) \<in> set (parses a s) \<or> (c, t) \<in> set (parses b s)"
  by (auto split: list.split)

lemma in_prepend:
  "(c, t) \<in> (\<lambda>(c2, v). (p @ c2, v)) ` A \<longleftrightarrow> (\<exists>c2. (c2, t) \<in> A \<and> c = p @ c2)"
  by force

lemma in_continue:
  "(c, t) \<in> set (concat (map (\<lambda>(c1, u). map (\<lambda>(c2, v). (c1 @ c2, v)) (f u)) xs)) \<longleftrightarrow>
    (\<exists>c1 u c2. (c1, u) \<in> set xs \<and> (c2, t) \<in> set (f u) \<and> c = c1 @ c2)"
proof (induction xs)
  case Nil
  then show ?case by simp
next
  case (Cons x xs)
  obtain p u where x: "x = (p, u)" by (cases x)
  show ?case
    unfolding list.map concat.simps set_append Un_iff Cons x prod.case set_map in_prepend
    by (simp only: list.set insert_iff prod.inject) blast
qed

lemma in_parses_Seq:
  "(c, t) \<in> set (parses (Seq a b) s) \<longleftrightarrow>
    (\<exists>c1 u c2. (c1, u) \<in> set (parses a s) \<and> (c2, t) \<in> set (parses b u) \<and> c = c1 @ c2)"
  unfolding parses.simps by (rule in_continue)

lemma in_parses_Star:
  "(c, t) \<in> set (parses (Star a) s) \<longleftrightarrow> (c = [] \<and> t = s) \<or>
    (\<exists>c1 u c2. (c1, u) \<in> set (parses a s) \<and> length u < length s \<and>
      (c2, t) \<in> set (parses (Star a) u) \<and> c = c1 @ c2)"
proof -
  have "(\<lambda>(c1, t). if length t < length s then map (\<lambda>(c2, u). (c1 @ c2, u)) (parses (Star a) t) else []) =
      (\<lambda>(c1, t). map (\<lambda>(c2, u). (c1 @ c2, u)) (if length t < length s then parses (Star a) t else []))"
    by (auto simp: fun_eq_iff)
  then show ?thesis
    by (subst parses.simps(6)) (simp only: set_append Un_iff in_continue, auto split: if_splits)
qed

lemma in_parses_Group:
  "(c, t) \<in> set (parses (Group n a) s) \<longleftrightarrow>
    (\<exists>c1. (c1, t) \<in> set (parses a s) \<and> c = (n, take (length s - length t) s) # c1)"
  by (force simp: image_iff)

lemmas in_parses = in_parses_simps in_parses_Seq in_parses_Star in_parses_Group

declare parses.simps [simp del]

definition regex_match :: "rx \<Rightarrow> bytes \<Rightarrow> captures option" where
  "regex_match r s = (case filter (\<lambda>(c, t). t = []) (parses r s) of
     [] \<Rightarrow> None | (c, t) # _ \<Rightarrow> Some c)"

text \<open>\<open>smatch[n].str()\<close>: the empty string for a group that took no part.\<close>

definition group :: "captures \<Rightarrow> nat \<Rightarrow> bytes" where
  "group c n = (case map_of c n of None \<Rightarrow> [] | Some s \<Rightarrow> s)"

section \<open>The matcher against the language of an expression\<close>

inductive matches :: "rx \<Rightarrow> bytes \<Rightarrow> bool" where
  m_eps: "matches Eps []"
| m_cls: "in_cls rs c \<Longrightarrow> matches (Cls rs) [c]"
| m_dot: "in_dot c \<Longrightarrow> matches Dot [c]"
| m_seq: "matches a u \<Longrightarrow> matches b v \<Longrightarrow> matches (Seq a b) (u @ v)"
| m_alt1: "matches a u \<Longrightarrow> matches (Alt a b) u"
| m_alt2: "matches b u \<Longrightarrow> matches (Alt a b) u"
| m_star0: "matches (Star a) []"
| m_star: "matches a u \<Longrightarrow> u \<noteq> [] \<Longrightarrow> matches (Star a) v \<Longrightarrow> matches (Star a) (u @ v)"
| m_group: "matches a u \<Longrightarrow> matches (Group n a) u"

inductive_simps matches_simps [simp]:
  "matches Eps s" "matches (Cls rs) s" "matches Dot s" "matches (Seq a b) s"
  "matches (Alt a b) s" "matches (Group n a) s"

inductive_cases matches_StarE: "matches (Star a) s"

lemma parses_sound: "(c, t) \<in> set (parses r s) \<Longrightarrow> \<exists>u. s = u @ t \<and> matches r u"
proof (induction r s arbitrary: c t rule: parses.induct)
  case (4 a b s)
  from "4.prems" obtain c1 t1 c2 where 1: "(c1, t1) \<in> set (parses a s)"
    and 2: "(c2, t) \<in> set (parses b t1)" by (auto simp: in_parses_Seq)
  from "4.IH"(1) [OF 1] obtain u where u: "s = u @ t1" "matches a u" by blast
  from "4.IH"(2) [OF 1 refl 2] obtain v where v: "t1 = v @ t" "matches b v" by blast
  from u v show ?case by (intro exI [of _ "u @ v"]) auto
next
  case (6 a s)
  from "6.prems" consider "c = []" "t = s" | c1 t1 c2 where "(c1, t1) \<in> set (parses a s)"
    "length t1 < length s" "(c2, t) \<in> set (parses (Star a) t1)"
    by (subst (asm) in_parses_Star) blast
  then show ?case
  proof cases
    case 1
    then show ?thesis by (auto intro: matches.m_star0)
  next
    case 2
    from "6.IH"(1) [OF 2(1)] obtain u where u: "s = u @ t1" "matches a u" by blast
    from "6.IH"(2) [OF 2(1) refl 2(2,3)] obtain v where v: "t1 = v @ t" "matches (Star a) v" by blast
    from u 2(2) have "u \<noteq> []" by auto
    with u v show ?thesis by (intro exI [of _ "u @ v"]) (auto intro: matches.m_star)
  qed
next
  case (5 a b s)
  then show ?case by simp blast
qed (auto simp: in_parses_Group)

lemma parses_complete: "matches r u \<Longrightarrow> \<exists>c. (c, t) \<in> set (parses r (u @ t))"
proof (induction arbitrary: t rule: matches.induct)
  case (m_seq a u b v)
  from m_seq.IH(1) [of "v @ t"] m_seq.IH(2) [of t] show ?case
    unfolding in_parses_Seq append_assoc by blast
next
  case (m_star0 a)
  have "([], t) \<in> set (parses (Star a) ([] @ t))" by (subst in_parses_Star) simp
  then show ?case ..
next
  case (m_star a u v)
  from m_star.IH(1) [of "v @ t"] obtain c1 where c1: "(c1, v @ t) \<in> set (parses a (u @ v @ t))"
    by blast
  from m_star.IH(2) [of t] obtain c2 where c2: "(c2, t) \<in> set (parses (Star a) (v @ t))" by blast
  from m_star.hyps have "length (v @ t) < length (u @ v @ t)" by simp
  with c1 c2 have "(c1 @ c2, t) \<in> set (parses (Star a) (u @ v @ t))"
    by (subst in_parses_Star) blast
  then show ?case by auto
next
  case (m_group a u n)
  from m_group.IH [of t] show ?case by (auto simp: in_parses_Group)
qed auto

text \<open>The first way that consumes the whole subject is one of the ways.\<close>

lemma regex_match_SomeD:
  assumes "regex_match r s = Some c"
  shows "(c, []) \<in> set (parses r s)"
proof -
  from assms obtain t rest where f: "filter (\<lambda>(c, t). t = []) (parses r s) = (c, t) # rest"
    by (auto simp: regex_match_def split: list.splits prod.splits)
  have "(c, t) \<in> set (filter (\<lambda>(c, t). t = []) (parses r s))" unfolding f by simp
  then show ?thesis by auto
qed

lemma regex_match_None_iff: "regex_match r s = None \<longleftrightarrow> (\<forall>c. (c, []) \<notin> set (parses r s))"
proof -
  have "regex_match r s = None \<longleftrightarrow> filter (\<lambda>(c, t). t = []) (parses r s) = []"
    by (simp add: regex_match_def split: list.split prod.split)
  then show ?thesis by (auto simp: filter_empty_conv)
qed

lemma regex_match_iff: "regex_match r s \<noteq> None \<longleftrightarrow> matches r s"
  using parses_sound [of _ "[]" r s] parses_complete [of r s "[]"]
  by (auto simp: regex_match_None_iff)

end
