(* ===== verification/Locations.thy ===== *)
theory Locations
  imports Regex_Match
begin

text \<open>
  The regular expressions of \<open>src/src/http-server.cpp\<close>, and what they accept: the location
  of a device is a URL whose scheme, host and path are the three captures; the
  location of a parameter is a dotted path of names; a resource that takes a handle
  ends in a decimal number. The anchors of the expressions are implied by
  \<open>regex_match\<close>, which matches the whole subject.
\<close>

section \<open>The expressions\<close>

definition alnum_dash :: "(char \<times> char) list" where
  "alnum_dash = [(CHR ''A'', CHR ''Z''), (CHR ''a'', CHR ''z''), (CHR ''0'', CHR ''9''), (CHR ''-'', CHR ''-'')]"

definition name_chars :: "(char \<times> char) list" where
  "name_chars = [(CHR ''A'', CHR ''Z''), (CHR ''a'', CHR ''z''), (CHR ''0'', CHR ''9''),
     (CHR ''_'', CHR ''_''), (CHR ''-'', CHR ''-'')]"

definition digit_chars :: "(char \<times> char) list" where
  "digit_chars = [(CHR ''0'', CHR ''9'')]"

definition scheme_rx :: rx where
  "scheme_rx = Alt (Seq (Lit ''http'') (Opt (Lit ''s''))) (Seq (Lit ''coap'') (Opt (Lit ''s'')))"

definition host_rx :: rx where
  "host_rx = Seq (Plus (Seq (Plus (Cls alnum_dash)) (Lit ''.'')))
     (Seq (Plus (Cls alnum_dash)) (Opt (Seq (Lit '':'') (Plus (Cls digit_chars)))))"

definition path_rx :: rx where
  "path_rx = Seq (Lit ''/'') (Star Dot)"

definition device_location_regex :: rx where
  "device_location_regex =
     Seq (Group 1 scheme_rx) (Seq (Lit ''://'') (Seq (Group 2 host_rx) (Group 3 path_rx)))"

definition param_location_regex :: rx where
  "param_location_regex =
     Seq (Star (Seq (Plus (Cls name_chars)) (Lit ''.''))) (Plus (Cls name_chars))"

text \<open>\<open>^prefix([0-9]+)$\<close>\<close>

definition numbered :: "bytes \<Rightarrow> rx" where
  "numbered prefix = Seq (Lit prefix) (Group 1 (Plus (Cls digit_chars)))"

section \<open>Languages\<close>

definition word :: "(char \<times> char) list \<Rightarrow> bytes \<Rightarrow> bool" where
  "word rs w \<longleftrightarrow> w \<noteq> [] \<and> list_all (in_cls rs) w"

fun dotted :: "bytes list \<Rightarrow> bytes" where
  "dotted [] = []"
| "dotted [w] = w"
| "dotted (w # v # ws) = w @ ''.'' @ dotted (v # ws)"

lemma matches_Lit [simp]: "matches (Lit cs) s \<longleftrightarrow> s = cs"
proof (induction cs arbitrary: s)
  case (Cons c cs)
  have "in_cls [(c, c)] d \<longleftrightarrow> d = c" for d
    by (auto simp: in_cls_def of_char_eq_iff dest: antisym)
  with Cons show ?case by (auto simp: Cons_eq_append_conv)
qed simp

declare Lit.simps [simp del]

lemma matches_Opt [simp]: "matches (Opt r) s \<longleftrightarrow> s = [] \<or> matches r s"
  by (auto simp: Opt_def)

lemma star_chars:
  assumes "\<And>u. matches r u \<longleftrightarrow> (\<exists>c. u = [c] \<and> P c)"
  shows "matches (Star r) s \<longleftrightarrow> list_all P s"
proof
  show "matches (Star r) s \<Longrightarrow> list_all P s"
    by (induction "Star r" s rule: matches.induct) (auto simp: assms)
  show "list_all P s \<Longrightarrow> matches (Star r) s"
  proof (induction s)
    case (Cons c s)
    then have "matches r [c]" "matches (Star r) s" by (auto simp: assms)
    then show ?case using matches.m_star [of r "[c]" s] by simp
  qed (rule matches.m_star0)
qed

lemma matches_star_cls [simp]: "matches (Star (Cls rs)) s \<longleftrightarrow> list_all (in_cls rs) s"
  by (rule star_chars) auto

lemma matches_star_dot [simp]: "matches (Star Dot) s \<longleftrightarrow> list_all in_dot s"
  by (rule star_chars) auto

lemma matches_plus_cls [simp]: "matches (Plus (Cls rs)) s \<longleftrightarrow> word rs s"
proof -
  have "matches (Plus (Cls rs)) s \<longleftrightarrow> (\<exists>c t. s = c # t \<and> in_cls rs c \<and> list_all (in_cls rs) t)"
    by (auto simp: Plus_def) (metis append_Cons append_Nil)
  then show ?thesis by (cases s) (auto simp: word_def)
qed

lemma matches_star_words:
  "matches (Star (Seq (Plus (Cls rs)) (Lit ''.''))) s \<longleftrightarrow>
    (\<exists>ws. (\<forall>w \<in> set ws. word rs w) \<and> s = concat (map (\<lambda>w. w @ ''.'') ws))"
proof
  show "matches (Star (Seq (Plus (Cls rs)) (Lit ''.''))) s \<Longrightarrow>
    \<exists>ws. (\<forall>w \<in> set ws. word rs w) \<and> s = concat (map (\<lambda>w. w @ ''.'') ws)"
  proof (induction "Star (Seq (Plus (Cls rs)) (Lit ''.''))" s rule: matches.induct)
    case m_star0
    show ?case by (rule exI [of _ "[]"]) simp
  next
    case (m_star u v)
    then obtain w ws where "word rs w" "u = w @ ''.''" "\<forall>w \<in> set ws. word rs w"
      "v = concat (map (\<lambda>w. w @ ''.'') ws)" by auto
    then show ?case by (intro exI [of _ "w # ws"]) simp
  qed
  assume "\<exists>ws. (\<forall>w \<in> set ws. word rs w) \<and> s = concat (map (\<lambda>w. w @ ''.'') ws)"
  then obtain ws where "\<forall>w \<in> set ws. word rs w" "s = concat (map (\<lambda>w. w @ ''.'') ws)" by blast
  then show "matches (Star (Seq (Plus (Cls rs)) (Lit ''.''))) s"
  proof (induction ws arbitrary: s)
    case Nil
    then show ?case by (simp add: matches.m_star0)
  next
    case (Cons w ws)
    have "matches (Seq (Plus (Cls rs)) (Lit ''.'')) (w @ ''.'')"
      using Cons.prems by (auto intro: matches.m_seq simp del: matches_simps)
    from matches.m_star [OF this _ Cons.IH] Cons.prems show ?case by auto
  qed
qed

lemma dotted_snoc: "dotted (ws @ [w]) = concat (map (\<lambda>w. w @ ''.'') ws) @ w"
proof (induction ws)
  case (Cons v ws)
  then show ?case by (cases ws) auto
qed simp

definition host_ok :: "bytes \<Rightarrow> bool" where
  "host_ok h \<longleftrightarrow> (\<exists>labels port. 2 \<le> length labels \<and> (\<forall>l \<in> set labels. word alnum_dash l) \<and>
     (port = [] \<or> (\<exists>ds. word digit_chars ds \<and> port = '':'' @ ds)) \<and> h = dotted labels @ port)"

definition path_ok :: "bytes \<Rightarrow> bool" where
  "path_ok q \<longleftrightarrow> q \<noteq> [] \<and> hd q = CHR ''/'' \<and> list_all in_dot (tl q)"

definition schemes :: "bytes set" where
  "schemes = {''http'', ''https'', ''coap'', ''coaps''}"

lemma matches_scheme: "matches scheme_rx u \<longleftrightarrow> u \<in> schemes"
  by (auto simp: scheme_rx_def schemes_def)

lemma matches_path: "matches path_rx u \<longleftrightarrow> path_ok u"
  by (cases u) (auto simp: path_rx_def path_ok_def)

lemma ex_two_labels:
  "(\<exists>labels. 2 \<le> length labels \<and> (\<forall>l \<in> set labels. P l) \<and> h = dotted labels) \<longleftrightarrow>
    (\<exists>w ws v. P w \<and> (\<forall>l \<in> set ws. P l) \<and> P v \<and>
      h = (w @ ''.'') @ concat (map (\<lambda>w. w @ ''.'') ws) @ v)"
proof
  assume "\<exists>labels. 2 \<le> length labels \<and> (\<forall>l \<in> set labels. P l) \<and> h = dotted labels"
  then obtain labels where l: "2 \<le> length labels" "\<forall>l \<in> set labels. P l" "h = dotted labels" by blast
  then obtain w rest where 1: "labels = w # rest" "rest \<noteq> []"
    by (cases labels; cases "tl labels") auto
  then obtain ws v where 2: "rest = ws @ [v]" by (cases rest rule: rev_cases) auto
  have "h = (w @ ''.'') @ concat (map (\<lambda>w. w @ ''.'') ws) @ v"
    using l(3) 1 2 dotted_snoc [of "w # ws" v] by simp
  with l(2) 1 2 show "\<exists>w ws v. P w \<and> (\<forall>l \<in> set ws. P l) \<and> P v \<and>
      h = (w @ ''.'') @ concat (map (\<lambda>w. w @ ''.'') ws) @ v"
    by (intro exI [of _ w] exI [of _ ws] exI [of _ v]) auto
next
  assume "\<exists>w ws v. P w \<and> (\<forall>l \<in> set ws. P l) \<and> P v \<and>
      h = (w @ ''.'') @ concat (map (\<lambda>w. w @ ''.'') ws) @ v"
  then obtain w ws v where "P w" "\<forall>l \<in> set ws. P l" "P v"
    "h = (w @ ''.'') @ concat (map (\<lambda>w. w @ ''.'') ws) @ v" by blast
  then show "\<exists>labels. 2 \<le> length labels \<and> (\<forall>l \<in> set labels. P l) \<and> h = dotted labels"
    using dotted_snoc [of "w # ws" v] by (intro exI [of _ "w # ws @ [v]"]) auto
qed

lemma matches_host: "matches host_rx u \<longleftrightarrow> host_ok u"
proof -
  have "matches host_rx u \<longleftrightarrow> (\<exists>h port. u = h @ port \<and>
      (\<exists>w ws v. word alnum_dash w \<and> (\<forall>l \<in> set ws. word alnum_dash l) \<and> word alnum_dash v \<and>
        h = (w @ ''.'') @ concat (map (\<lambda>w. w @ ''.'') ws) @ v) \<and>
      (port = [] \<or> (\<exists>ds. word digit_chars ds \<and> port = '':'' @ ds)))"
    (is "_ \<longleftrightarrow> ?R")
  proof
    assume "matches host_rx u"
    then obtain a b where u0: "u = a @ b"
      and a: "matches (Plus (Seq (Plus (Cls alnum_dash)) (Lit ''.''))) a"
      and b: "matches (Seq (Plus (Cls alnum_dash)) (Opt (Seq (Lit '':'') (Plus (Cls digit_chars))))) b"
      unfolding host_rx_def matches_simps(4) [of "Plus (Seq _ _)"] by blast
    from a obtain a1 x where a1: "a = a1 @ x" "matches (Seq (Plus (Cls alnum_dash)) (Lit ''.'')) a1"
      and x: "matches (Star (Seq (Plus (Cls alnum_dash)) (Lit ''.''))) x"
      unfolding Plus_def [of "Seq _ _"] matches_simps(4) [of "Seq _ _"] by blast
    from a1(2) obtain w where w0: "a1 = w @ ''.''" "word alnum_dash w" by auto
    from b obtain v port where v: "b = v @ port" "word alnum_dash v"
      "port = [] \<or> (\<exists>ds. word digit_chars ds \<and> port = '':'' @ ds)" by auto
    from u0 a1(1) w0 v have w: "word alnum_dash w" "word alnum_dash v"
      "port = [] \<or> (\<exists>ds. word digit_chars ds \<and> port = '':'' @ ds)"
      and u: "u = ((w @ ''.'') @ x) @ (v @ port)" by simp_all
    from x obtain ws where "\<forall>l \<in> set ws. word alnum_dash l" "x = concat (map (\<lambda>w. w @ ''.'') ws)"
      unfolding matches_star_words by blast
    with w u have "word alnum_dash w" "\<forall>l \<in> set ws. word alnum_dash l" "word alnum_dash v"
      "port = [] \<or> (\<exists>ds. word digit_chars ds \<and> port = '':'' @ ds)"
      "u = ((w @ ''.'') @ concat (map (\<lambda>w. w @ ''.'') ws) @ v) @ port" by simp_all
    then show ?R by blast
  next
    assume ?R
    then obtain w ws v port where "word alnum_dash w" "\<forall>l \<in> set ws. word alnum_dash l"
      "word alnum_dash v" "port = [] \<or> (\<exists>ds. word digit_chars ds \<and> port = '':'' @ ds)"
      and u: "u = ((w @ ''.'') @ concat (map (\<lambda>w. w @ ''.'') ws) @ v) @ port" by blast
    then have "matches host_rx (((w @ ''.'') @ concat (map (\<lambda>w. w @ ''.'') ws)) @ (v @ port))"
      unfolding host_rx_def Plus_def [of "Seq _ _"]
      by (intro matches.m_seq) (auto simp: matches_star_words)
    with u show "matches host_rx u" by simp
  qed
  then show ?thesis
    unfolding ex_two_labels [symmetric] host_ok_def by blast
qed

text \<open>An expression without groups captures nothing.\<close>

fun no_group :: "rx \<Rightarrow> bool" where
  "no_group (Group n a) = False"
| "no_group (Seq a b) = (no_group a \<and> no_group b)"
| "no_group (Alt a b) = (no_group a \<and> no_group b)"
| "no_group (Star a) = no_group a"
| "no_group _ = True"

lemma no_group_captures: "(c, t) \<in> set (parses r s) \<Longrightarrow> no_group r \<Longrightarrow> c = []"
proof (induction r s arbitrary: c t rule: parses.induct)
  case (6 a s)
  from "6.prems"(1) consider "c = []" | c1 u c2 where "(c1, u) \<in> set (parses a s)"
    "length u < length s" "(c2, t) \<in> set (parses (Star a) u)" "c = c1 @ c2"
    unfolding in_parses_Star [of c t a s] by blast
  then show ?case
  proof cases
    case 2
    with "6.IH"(1) [OF 2(1)] "6.IH"(2) [OF 2(1) refl 2(2,3)] "6.prems"(2) show ?thesis by simp
  qed
qed (auto simp: in_parses_Seq)

lemma no_group_derived [simp]:
  "no_group (Lit cs)" "no_group (Opt r) = no_group r" "no_group (Plus r) = no_group r"
  by (induction cs) (auto simp: Lit.simps Opt_def Plus_def)

lemma parses_plain:
  assumes "no_group r"
  shows "(c, t) \<in> set (parses r s) \<longleftrightarrow> c = [] \<and> (\<exists>u. s = u @ t \<and> matches r u)"
  using no_group_captures [OF _ assms] parses_sound parses_complete [of r _ t]
  by metis

lemma parses_group_plain:
  assumes "no_group r"
  shows "(c, t) \<in> set (parses (Group n r) s) \<longleftrightarrow> (\<exists>u. c = [(n, u)] \<and> s = u @ t \<and> matches r u)"
  unfolding in_parses_Group parses_plain [OF assms] by auto

lemma no_group_parts [simp]: "no_group scheme_rx" "no_group host_rx" "no_group path_rx"
  by (simp_all add: scheme_rx_def host_rx_def path_rx_def)

lemma device_captures:
  "(c, []) \<in> set (parses device_location_regex s) \<longleftrightarrow>
    (\<exists>p h q. c = [(1, p), (2, h), (3, q)] \<and> s = p @ ''://'' @ h @ q \<and>
      p \<in> schemes \<and> host_ok h \<and> path_ok q)"
proof
  assume "(c, []) \<in> set (parses device_location_regex s)"
  then show "\<exists>p h q. c = [(1, p), (2, h), (3, q)] \<and> s = p @ ''://'' @ h @ q \<and>
      p \<in> schemes \<and> host_ok h \<and> path_ok q"
    unfolding device_location_regex_def in_parses_Seq
    by (auto simp: parses_group_plain parses_plain matches_scheme matches_host matches_path)
next
  assume "\<exists>p h q. c = [(1, p), (2, h), (3, q)] \<and> s = p @ ''://'' @ h @ q \<and>
      p \<in> schemes \<and> host_ok h \<and> path_ok q"
  then obtain p h q where c: "c = [(1, p)] @ [] @ [(2, h)] @ [(3, q)]" and s: "s = p @ ''://'' @ h @ q"
    and ok: "p \<in> schemes" "host_ok h" "path_ok q" by auto
  have "([(1, p)], ''://'' @ h @ q) \<in> set (parses (Group 1 scheme_rx) s)"
    using ok s by (auto simp: parses_group_plain matches_scheme)
  moreover have "([], h @ q) \<in> set (parses (Lit ''://'') (''://'' @ h @ q))"
    by (auto simp: parses_plain)
  moreover have "([(2, h)], q) \<in> set (parses (Group 2 host_rx) (h @ q))"
    using ok by (auto simp: parses_group_plain matches_host)
  moreover have "([(3, q)], []) \<in> set (parses (Group 3 path_rx) q)"
    using ok by (auto simp: parses_group_plain matches_path)
  ultimately show "(c, []) \<in> set (parses device_location_regex s)"
    unfolding device_location_regex_def c in_parses_Seq by blast
qed

lemma schemes_no_colon: "p \<in> schemes \<Longrightarrow> CHR '':'' \<notin> set p"
  by (auto simp: schemes_def)

lemma in_alnum_dash_slash: "in_cls alnum_dash c \<Longrightarrow> c \<noteq> CHR ''/''"
  and in_digit_slash: "in_cls digit_chars c \<Longrightarrow> c \<noteq> CHR ''/''"
  by (auto simp: in_cls_def alnum_dash_def digit_chars_def)

lemma dotted_set: "c \<in> set (dotted ws) \<Longrightarrow> c = CHR ''.'' \<or> (\<exists>w \<in> set ws. c \<in> set w)"
  by (induction ws rule: dotted.induct) auto

lemma host_no_slash: "host_ok h \<Longrightarrow> CHR ''/'' \<notin> set h"
  unfolding host_ok_def word_def list_all_iff
  by (auto dest!: dotted_set) (metis in_alnum_dash_slash in_digit_slash)+

lemma url_parts_unique:
  assumes "p @ ''://'' @ h @ q = p' @ ''://'' @ h' @ q'"
    and "p \<in> schemes" "host_ok h" "path_ok q" "p' \<in> schemes" "host_ok h'" "path_ok q'"
  shows "p = p' \<and> h = h' \<and> q = q'"
proof -
  have split: "takeWhile (\<lambda>c. c \<noteq> x) (u @ x # v) = u" if "x \<notin> set u" for x :: char and u v
    using that by (induction u) auto
  have p: "takeWhile (\<lambda>c. c \<noteq> CHR '':'') (p @ ''://'' @ h @ q) = p"
    "takeWhile (\<lambda>c. c \<noteq> CHR '':'') (p' @ ''://'' @ h' @ q') = p'"
    using schemes_no_colon assms(2,5) by (simp_all add: split)
  with assms(1) have "p = p'" by simp
  with assms(1) have hq: "h @ q = h' @ q'" by simp
  have "q = CHR ''/'' # tl q" "q' = CHR ''/'' # tl q'"
    using assms(4,7) by (cases q; cases q'; auto simp: path_ok_def)+
  then have "takeWhile (\<lambda>c. c \<noteq> CHR ''/'') (h @ q) = h" "takeWhile (\<lambda>c. c \<noteq> CHR ''/'') (h' @ q') = h'"
    using split host_no_slash assms(3,6) by metis+
  with hq have "h = h'" by simp
  with hq \<open>p = p'\<close> show ?thesis by simp
qed

lemma device_match_None_iff:
  "regex_match device_location_regex s = None \<longleftrightarrow>
    \<not> (\<exists>p h q. s = p @ ''://'' @ h @ q \<and> p \<in> schemes \<and> host_ok h \<and> path_ok q)"
  unfolding regex_match_None_iff device_captures by blast

section \<open>Properties\<close>

text \<open>
  C20: The expression for device locations accepts exactly the URLs
  \<open>scheme://host[:port]/path\<close> whose scheme is http, https, coap or coaps, whose host has
  at least two dot-separated labels of letters, digits and dashes, and whose path has
  no line terminator; its three captures are the scheme, the host with its port, and the
  path from its first slash on.
\<close>
theorem device_location_parsed:
  "(\<exists>c. regex_match device_location_regex s = Some c \<and>
      group c 1 = p \<and> group c 2 = h \<and> group c 3 = q) \<longleftrightarrow>
    s = p @ ''://'' @ h @ q \<and> p \<in> schemes \<and> host_ok h \<and> path_ok q"
proof
  assume "\<exists>c. regex_match device_location_regex s = Some c \<and>
      group c 1 = p \<and> group c 2 = h \<and> group c 3 = q"
  then obtain c where c: "regex_match device_location_regex s = Some c"
    and g: "group c 1 = p" "group c 2 = h" "group c 3 = q" by blast
  from regex_match_SomeD [OF c] g show "s = p @ ''://'' @ h @ q \<and> p \<in> schemes \<and> host_ok h \<and> path_ok q"
    unfolding device_captures by (auto simp: group_def)
next
  assume ok: "s = p @ ''://'' @ h @ q \<and> p \<in> schemes \<and> host_ok h \<and> path_ok q"
  then obtain c where c: "regex_match device_location_regex s = Some c"
    using device_match_None_iff [of s] by blast
  from regex_match_SomeD [OF c] obtain p' h' q' where c': "c = [(1, p'), (2, h'), (3, q')]"
    and s: "s = p' @ ''://'' @ h' @ q'" and ok': "p' \<in> schemes" "host_ok h'" "path_ok q'"
    unfolding device_captures by blast
  from url_parts_unique [of p h q p' h' q'] ok s ok' have "p = p' \<and> h = h' \<and> q = q'" by simp
  with c c' show "\<exists>c. regex_match device_location_regex s = Some c \<and>
      group c 1 = p \<and> group c 2 = h \<and> group c 3 = q" by (auto simp: group_def)
qed

text \<open>
  The expression for parameter locations accepts exactly the dotted paths: one or more
  nonempty names of letters, digits, underscores and dashes, with single dots between.
\<close>
lemma param_location_accepted:
  "regex_match param_location_regex s \<noteq> None \<longleftrightarrow>
    (\<exists>names. names \<noteq> [] \<and> (\<forall>w \<in> set names. word name_chars w) \<and> s = dotted names)"
proof -
  have "matches param_location_regex s \<longleftrightarrow> (\<exists>ws w. (\<forall>v \<in> set ws. word name_chars v) \<and>
      word name_chars w \<and> s = dotted (ws @ [w]))"
    unfolding param_location_regex_def matches_simps matches_star_words matches_plus_cls dotted_snoc
    by blast
  also have "\<dots> \<longleftrightarrow> (\<exists>names. names \<noteq> [] \<and> (\<forall>w \<in> set names. word name_chars w) \<and> s = dotted names)"
  proof
    assume "\<exists>names. names \<noteq> [] \<and> (\<forall>w \<in> set names. word name_chars w) \<and> s = dotted names"
    then obtain names where n: "names \<noteq> []" "\<forall>w \<in> set names. word name_chars w" "s = dotted names"
      by blast
    then show "\<exists>ws w. (\<forall>v \<in> set ws. word name_chars v) \<and> word name_chars w \<and> s = dotted (ws @ [w])"
      by (cases names rule: rev_cases) auto
  next
    assume "\<exists>ws w. (\<forall>v \<in> set ws. word name_chars v) \<and> word name_chars w \<and> s = dotted (ws @ [w])"
    then obtain ws w where "\<forall>v \<in> set ws. word name_chars v" "word name_chars w" "s = dotted (ws @ [w])"
      by blast
    then show "\<exists>names. names \<noteq> [] \<and> (\<forall>w \<in> set names. word name_chars w) \<and> s = dotted names"
      by (intro exI [of _ "ws @ [w]"]) auto
  qed
  finally show ?thesis unfolding regex_match_iff .
qed

section \<open>Resources that take a handle\<close>

lemma numbered_captures:
  "(c, []) \<in> set (parses (numbered prefix) s) \<longleftrightarrow>
    (\<exists>d. c = [(1, d)] \<and> s = prefix @ d \<and> word digit_chars d)"
  unfolding numbered_def in_parses_Seq
  by (auto simp: parses_group_plain parses_plain)

lemma numbered_match:
  "regex_match (numbered prefix) s = (if (\<exists>d. s = prefix @ d \<and> word digit_chars d)
     then Some [(1, drop (length prefix) s)] else None)"
proof (cases "regex_match (numbered prefix) s")
  case None
  then have "\<not> (\<exists>d. s = prefix @ d \<and> word digit_chars d)"
    unfolding regex_match_None_iff numbered_captures by blast
  with None show ?thesis by simp
next
  case (Some c)
  from regex_match_SomeD [OF Some] Some show ?thesis unfolding numbered_captures by auto
qed

end
