(* ===== verification/Numbers.thy ===== *)
theory Numbers
  imports Prelude
begin

text \<open>
  The conversions between numbers and text of the standard library that the sources
  call: \<open>strtol\<close>, \<open>std::stoi\<close>, \<open>std::stoul\<close>, \<open>std::stoull\<close> and \<open>std::to_string\<close>, with
  the white space, the sign and the \<open>0x\<close> prefix they accept and the ranges of the
  64-bit and 32-bit types at which they fail.
\<close>

section \<open>Reading\<close>

definition is_space :: "char \<Rightarrow> bool" where
  "is_space c \<longleftrightarrow> c = CHR '' '' \<or> (9 \<le> (of_char c :: nat) \<and> (of_char c :: nat) \<le> 13)"

definition digit_of :: "char \<Rightarrow> nat option" where
  "digit_of c = (let n = of_char c :: nat in
     if 48 \<le> n \<and> n \<le> 57 then Some (n - 48)
     else if 65 \<le> n \<and> n \<le> 90 then Some (n - 55)
     else if 97 \<le> n \<and> n \<le> 122 then Some (n - 87) else None)"

definition digit_in :: "nat \<Rightarrow> char \<Rightarrow> bool" where
  "digit_in base c = (case digit_of c of None \<Rightarrow> False | Some d \<Rightarrow> d < base)"

definition digits_val :: "nat \<Rightarrow> bytes \<Rightarrow> nat" where
  "digits_val base ds = foldl (\<lambda>a c. a * base + (case digit_of c of None \<Rightarrow> 0 | Some d \<Rightarrow> d)) 0 ds"

fun scan_sign :: "bytes \<Rightarrow> bool \<times> bytes" where
  "scan_sign [] = (False, [])"
| "scan_sign (c # s) = (if c = CHR ''-'' then (True, s)
     else if c = CHR ''+'' then (False, s) else (False, c # s))"

definition scan_prefix :: "nat \<Rightarrow> bytes \<Rightarrow> bytes" where
  "scan_prefix base s =
     (case s of z # x # d # t \<Rightarrow>
        if base = 16 \<and> z = CHR ''0'' \<and> (x = CHR ''x'' \<or> x = CHR ''X'') \<and> digit_in 16 d
        then d # t else s
      | _ \<Rightarrow> s)"

text \<open>The sign and the magnitude of the number a text starts with, if it starts with one.\<close>

definition scan_int :: "nat \<Rightarrow> bytes \<Rightarrow> (bool \<times> nat) option" where
  "scan_int base s =
     (let (neg, s2) = scan_sign (dropWhile is_space s);
          ds = takeWhile (digit_in base) (scan_prefix base s2)
      in if ds = [] then None else Some (neg, digits_val base ds))"

definition strtol :: "nat \<Rightarrow> bytes \<Rightarrow> int" where
  "strtol base s =
     (case scan_int base s of
        None \<Rightarrow> 0
      | Some (neg, m) \<Rightarrow> if neg then max (- (2 ^ 63)) (- int m) else min (2 ^ 63 - 1) (int m))"

definition stoi :: "bytes \<Rightarrow> int outcome" where
  "stoi s =
     (case scan_int 10 s of
        None \<Rightarrow> Throw
      | Some (neg, m) \<Rightarrow>
          let v = (if neg then - int m else int m)
          in if v < - (2 ^ 31) \<or> 2 ^ 31 \<le> v then Throw else Ok v)"

text \<open>A minus sign is accepted and negates modulo \<open>2\<^sup>6\<^sup>4\<close>.\<close>

definition stoul :: "nat \<Rightarrow> bytes \<Rightarrow> nat outcome" where
  "stoul base s =
     (case scan_int base s of
        None \<Rightarrow> Throw
      | Some (neg, m) \<Rightarrow>
          if 2 ^ 64 \<le> m then Throw
          else Ok (if neg then (2 ^ 64 - m) mod 2 ^ 64 else m))"

section \<open>Writing\<close>

definition digit_char :: "nat \<Rightarrow> char" where
  "digit_char d = char_of (48 + d)"

fun to_string :: "nat \<Rightarrow> bytes" where
  "to_string n = (if n < 10 then [digit_char n]
     else to_string (n div 10) @ [digit_char (n mod 10)])"

declare to_string.simps [simp del]

section \<open>Reading back what was written\<close>

lemma of_digit_char: "d < 10 \<Longrightarrow> of_char (digit_char d) = 48 + d"
  by (simp add: digit_char_def)

lemma digit_of_digit_char [simp]: "d < 10 \<Longrightarrow> digit_of (digit_char d) = Some d"
  by (simp add: digit_of_def of_digit_char)

lemma is_digit_digit_char [simp]: "d < 10 \<Longrightarrow> is_digit (digit_char d)"
  by (simp add: is_digit_def of_digit_char)

lemma to_string_digits: "\<forall>c \<in> set (to_string n). is_digit c"
proof (induction n rule: to_string.induct)
  case (1 n)
  show ?case by (subst to_string.simps) (use 1 in auto)
qed

lemma to_string_nonempty [simp]: "to_string n \<noteq> []"
  by (subst to_string.simps) simp

lemma digits_val_snoc:
  "digits_val base (ds @ [c]) = digits_val base ds * base + (case digit_of c of None \<Rightarrow> 0 | Some d \<Rightarrow> d)"
  by (simp add: digits_val_def)

lemma digits_val_to_string: "digits_val 10 (to_string n) = n"
proof (induction n rule: to_string.induct)
  case (1 n)
  show ?case
  proof (cases "n < 10")
    case True
    then show ?thesis by (subst to_string.simps) (simp add: digits_val_def)
  next
    case False
    then show ?thesis
      by (subst to_string.simps) (simp add: 1 digits_val_snoc)
  qed
qed

lemma is_digit_facts:
  assumes "is_digit c"
  shows "digit_in 10 c" and "\<not> is_space c" and "c \<noteq> CHR ''-''" and "c \<noteq> CHR ''+''"
    and "c \<noteq> CR" and "c \<noteq> LF" and "c \<noteq> CHR '' ''" and "c \<noteq> CHR '':''"
  using assms by (auto simp: is_digit_def digit_in_def digit_of_def is_space_def)

lemma scan_digits:
  assumes "ds \<noteq> []" and "\<forall>c \<in> set ds. is_digit c" and "rest = [] \<or> \<not> digit_in 10 (hd rest)"
  shows "scan_int 10 (ds @ rest) = Some (False, digits_val 10 ds)"
proof -
  obtain c cs where ds: "ds = c # cs" using assms(1) by (cases ds) auto
  then have c: "is_digit c" using assms(2) by simp
  have "dropWhile is_space (ds @ rest) = ds @ rest"
    using ds is_digit_facts(2) [OF c] by simp
  moreover have "scan_sign (ds @ rest) = (False, ds @ rest)"
    using ds is_digit_facts(3,4) [OF c] by simp
  moreover have "scan_prefix 10 (ds @ rest) = ds @ rest"
    by (simp add: scan_prefix_def split: list.split)
  moreover have "takeWhile (digit_in 10) (ds @ rest) = ds"
  proof -
    have "\<forall>c \<in> set ds. digit_in 10 c" using assms(2) is_digit_facts(1) by blast
    then have "takeWhile (digit_in 10) (ds @ rest) = ds @ takeWhile (digit_in 10) rest"
      by (induction ds) auto
    with assms(3) show ?thesis by (cases rest) auto
  qed
  ultimately show ?thesis using assms(1) by (simp add: scan_int_def)
qed

lemma length_to_string: "0 < k \<Longrightarrow> n < 10 ^ k \<Longrightarrow> length (to_string n) \<le> k"
proof (induction k arbitrary: n)
  case (Suc k)
  show ?case
  proof (cases "n < 10")
    case True
    then show ?thesis by (subst to_string.simps) simp
  next
    case False
    then have "0 < k" using Suc.prems(2) by (cases k) auto
    moreover have "n div 10 < 10 ^ k" using Suc.prems(2) by (simp add: less_mult_imp_div_less mult.commute)
    ultimately show ?thesis using Suc.IH [of "n div 10"] False by (subst to_string.simps) simp
  qed
qed simp

lemma stoul_to_string: "n < 2 ^ 64 \<Longrightarrow> stoul 10 (to_string n) = Ok n"
  using scan_digits [of "to_string n" "[]"] to_string_digits [of n]
  by (simp add: stoul_def digits_val_to_string)

lemma stoul_to_string_rest:
  "n < 2 ^ 64 \<Longrightarrow> \<not> digit_in 10 c \<Longrightarrow> stoul 10 (to_string n @ c # rest) = Ok n"
  using scan_digits [of "to_string n" "c # rest"] to_string_digits [of n]
  by (simp add: stoul_def digits_val_to_string)

lemma stoi_digits:
  assumes "ds \<noteq> []" and "\<forall>c \<in> set ds. is_digit c"
  shows "stoi ds = (if digits_val 10 ds < 2 ^ 31 then Ok (int (digits_val 10 ds)) else Throw)"
proof -
  have "scan_int 10 ds = Some (False, digits_val 10 ds)"
    using scan_digits [OF assms, of "[]"] by simp
  then show ?thesis by (simp add: stoi_def Let_def)
qed

end
