(* ===== verification/Status_Code.thy ===== *)
theory Status_Code
  imports Numbers
begin

text \<open>
  \<open>src/src/http/status_code.hpp\<close>: the enumeration of the HTTP status codes, the table of
  their status lines, and the two conversions. A value of the enumeration is the
  number it stands for: the conversion from text casts any three digits to the
  enumeration, declared or not.
\<close>

section \<open>The enumeration\<close>

type_synonym StatusCode = nat

datatype (plugins only: size code) enumerator =
    unknown
  | information_continue
  | information_switching_protocols
  | information_processing
  | success_ok
  | success_created
  | success_accepted
  | success_non_authoritative_information
  | success_no_content
  | success_reset_content
  | success_partial_content
  | success_multi_status
  | success_already_reported
  | success_im_used
  | redirection_multiple_choices
  | redirection_moved_permanently
  | redirection_found
  | redirection_see_other
  | redirection_not_modified
  | redirection_use_proxy
  | redirection_switch_proxy
  | redirection_temporary_redirect
  | redirection_permanent_redirect
  | client_error_bad_request
  | client_error_unauthorized
  | client_error_payment_required
  | client_error_forbidden
  | client_error_not_found
  | client_error_method_not_allowed
  | client_error_not_acceptable
  | client_error_proxy_authentication_required
  | client_error_request_timeout
  | client_error_conflict
  | client_error_gone
  | client_error_length_required
  | client_error_precondition_failed
  | client_error_payload_too_large
  | client_error_uri_too_long
  | client_error_unsupported_media_type
  | client_error_range_not_satisfiable
  | client_error_expectation_failed
  | client_error_im_a_teapot
  | client_error_misdirection_required
  | client_error_unprocessable_entity
  | client_error_locked
  | client_error_failed_dependency
  | client_error_upgrade_required
  | client_error_precondition_required
  | client_error_too_many_requests
  | client_error_request_header_fields_too_large
  | client_error_unavailable_for_legal_reasons
  | server_error_internal_server_error
  | server_error_not_implemented
  | server_error_bad_gateway
  | server_error_service_unavailable
  | server_error_gateway_timeout
  | server_error_http_version_not_supported
  | server_error_variant_also_negotiates
  | server_error_insufficient_storage
  | server_error_loop_detected
  | server_error_not_extended
  | server_error_network_authentication_required

text \<open>The declaration: an enumerator without a value is one more than the one before.\<close>

definition enumerators :: "(enumerator \<times> nat option) list" where
  "enumerators =
    [(unknown, Some 0),
     (information_continue, Some 100),
     (information_switching_protocols, None),
     (information_processing, None),
     (success_ok, Some 200),
     (success_created, None),
     (success_accepted, None),
     (success_non_authoritative_information, None),
     (success_no_content, None),
     (success_reset_content, None),
     (success_partial_content, None),
     (success_multi_status, None),
     (success_already_reported, None),
     (success_im_used, Some 226),
     (redirection_multiple_choices, Some 300),
     (redirection_moved_permanently, None),
     (redirection_found, None),
     (redirection_see_other, None),
     (redirection_not_modified, None),
     (redirection_use_proxy, None),
     (redirection_switch_proxy, None),
     (redirection_temporary_redirect, None),
     (redirection_permanent_redirect, None),
     (client_error_bad_request, Some 400),
     (client_error_unauthorized, None),
     (client_error_payment_required, None),
     (client_error_forbidden, None),
     (client_error_not_found, None),
     (client_error_method_not_allowed, None),
     (client_error_not_acceptable, None),
     (client_error_proxy_authentication_required, None),
     (client_error_request_timeout, None),
     (client_error_conflict, None),
     (client_error_gone, None),
     (client_error_length_required, None),
     (client_error_precondition_failed, None),
     (client_error_payload_too_large, None),
     (client_error_uri_too_long, None),
     (client_error_unsupported_media_type, None),
     (client_error_range_not_satisfiable, None),
     (client_error_expectation_failed, None),
     (client_error_im_a_teapot, None),
     (client_error_misdirection_required, Some 421),
     (client_error_unprocessable_entity, None),
     (client_error_locked, None),
     (client_error_failed_dependency, None),
     (client_error_upgrade_required, Some 426),
     (client_error_precondition_required, Some 428),
     (client_error_too_many_requests, None),
     (client_error_request_header_fields_too_large, Some 431),
     (client_error_unavailable_for_legal_reasons, Some 451),
     (server_error_internal_server_error, Some 500),
     (server_error_not_implemented, None),
     (server_error_bad_gateway, None),
     (server_error_service_unavailable, None),
     (server_error_gateway_timeout, None),
     (server_error_http_version_not_supported, None),
     (server_error_variant_also_negotiates, None),
     (server_error_insufficient_storage, None),
     (server_error_loop_detected, None),
     (server_error_not_extended, Some 510),
     (server_error_network_authentication_required, None)]"

fun number_enumerators :: "nat \<Rightarrow> (enumerator \<times> nat option) list \<Rightarrow> (enumerator \<times> StatusCode) list" where
  "number_enumerators next [] = []"
| "number_enumerators next ((name, given) # es) =
     (let v = (case given of None \<Rightarrow> next | Some n \<Rightarrow> n)
      in (name, v) # number_enumerators (Suc v) es)"

definition enum_values :: "(enumerator \<times> StatusCode) list" where
  "enum_values = number_enumerators 0 enumerators"

definition StatusCode_of :: "enumerator \<Rightarrow> StatusCode" where
  "StatusCode_of name = (case map_of enum_values name of None \<Rightarrow> 0 | Some v \<Rightarrow> v)"

definition status_code_names :: "(enumerator \<times> bytes) list" where
  "status_code_names =
    [(unknown, ''''),
     (information_continue, ''100 Continue''),
     (information_switching_protocols, ''101 Switching Protocols''),
     (information_processing, ''102 Processing''),
     (success_ok, ''200 OK''),
     (success_created, ''201 Created''),
     (success_accepted, ''202 Accepted''),
     (success_non_authoritative_information, ''203 Non-Authoritative Information''),
     (success_no_content, ''204 No Content''),
     (success_reset_content, ''205 Reset Content''),
     (success_partial_content, ''206 Partial Content''),
     (success_multi_status, ''207 Multi-Status''),
     (success_already_reported, ''208 Already Reported''),
     (success_im_used, ''226 IM Used''),
     (redirection_multiple_choices, ''300 Multiple Choices''),
     (redirection_moved_permanently, ''301 Moved Permanently''),
     (redirection_found, ''302 Found''),
     (redirection_see_other, ''303 See Other''),
     (redirection_not_modified, ''304 Not Modified''),
     (redirection_use_proxy, ''305 Use Proxy''),
     (redirection_switch_proxy, ''306 Switch Proxy''),
     (redirection_temporary_redirect, ''307 Temporary Redirect''),
     (redirection_permanent_redirect, ''308 Permanent Redirect''),
     (client_error_bad_request, ''400 Bad Request''),
     (client_error_unauthorized, ''401 Unauthorized''),
     (client_error_payment_required, ''402 Payment Required''),
     (client_error_forbidden, ''403 Forbidden''),
     (client_error_not_found, ''404 Not Found''),
     (client_error_method_not_allowed, ''405 Method Not Allowed''),
     (client_error_not_acceptable, ''406 Not Acceptable''),
     (client_error_proxy_authentication_required, ''407 Proxy Authentication Required''),
     (client_error_request_timeout, ''408 Request Timeout''),
     (client_error_conflict, ''409 Conflict''),
     (client_error_gone, ''410 Gone''),
     (client_error_length_required, ''411 Length Required''),
     (client_error_precondition_failed, ''412 Precondition Failed''),
     (client_error_payload_too_large, ''413 Payload Too Large''),
     (client_error_uri_too_long, ''414 URI Too Long''),
     (client_error_unsupported_media_type, ''415 Unsupported Media Type''),
     (client_error_range_not_satisfiable, ''416 Range Not Satisfiable''),
     (client_error_expectation_failed, ''417 Expectation Failed''),
     (client_error_im_a_teapot, ''418 I'' @ [CHR 0x27] @ ''m a teapot''),
     (client_error_misdirection_required, ''421 Misdirected Request''),
     (client_error_unprocessable_entity, ''422 Unprocessable Entity''),
     (client_error_locked, ''423 Locked''),
     (client_error_failed_dependency, ''424 Failed Dependency''),
     (client_error_upgrade_required, ''426 Upgrade Required''),
     (client_error_precondition_required, ''428 Precondition Required''),
     (client_error_too_many_requests, ''429 Too Many Requests''),
     (client_error_request_header_fields_too_large, ''431 Request Header Fields Too Large''),
     (client_error_unavailable_for_legal_reasons, ''451 Unavailable For Legal Reasons''),
     (server_error_internal_server_error, ''500 Internal Server Error''),
     (server_error_not_implemented, ''501 Not Implemented''),
     (server_error_bad_gateway, ''502 Bad Gateway''),
     (server_error_service_unavailable, ''503 Service Unavailable''),
     (server_error_gateway_timeout, ''504 Gateway Timeout''),
     (server_error_http_version_not_supported, ''505 HTTP Version Not Supported''),
     (server_error_variant_also_negotiates, ''506 Variant Also Negotiates''),
     (server_error_insufficient_storage, ''507 Insufficient Storage''),
     (server_error_loop_detected, ''508 Loop Detected''),
     (server_error_not_extended, ''510 Not Extended''),
     (server_error_network_authentication_required, ''511 Network Authentication Required'')]"

definition status_code_strings :: "(StatusCode \<times> bytes) list" where
  "status_code_strings = map (\<lambda>(name, text). (StatusCode_of name, text)) status_code_names"

section \<open>The conversions\<close>

definition string_to_status_code :: "(bytes \<times> StatusCode) list" where
  "string_to_status_code = map (\<lambda>(code, text). (take 3 text, code)) status_code_strings"

definition status_code :: "bytes \<Rightarrow> StatusCode" where
  "status_code status_code_string =
     (if length status_code_string < 3 then StatusCode_of unknown
      else
        let number = take 3 status_code_string
        in if \<not> is_digit (number ! 0) \<or> \<not> is_digit (number ! 1) \<or> \<not> is_digit (number ! 2)
           then StatusCode_of unknown
           else (case map_of string_to_status_code number of
                   None \<Rightarrow> nat (strtol 10 number)
                 | Some code \<Rightarrow> code))"

definition status_code_text :: "StatusCode \<Rightarrow> bytes" where
  "status_code_text code = (case map_of status_code_strings code of None \<Rightarrow> [] | Some text \<Rightarrow> text)"

section \<open>Properties\<close>

lemmas enum_eval = StatusCode_of_def enum_values_def enumerators_def

text \<open>Every status line but the empty one starts with the number of its code.\<close>

lemma status_lines_numbered:
  "list_all (\<lambda>(e, t). t = [] \<or> digits_val 10 (take 3 t) = e) status_code_strings"
  by (simp add: status_code_strings_def enum_eval status_code_names_def digits_val_def digit_of_def)

lemma unknown_zero [simp]: "StatusCode_of unknown = 0"
  by (simp add: enum_eval)

lemma take_3_digits:
  assumes "\<not> length s < 3"
  shows "take 3 s = [s ! 0, s ! 1, s ! 2]"
  using assms by (cases s; cases "tl s"; cases "tl (tl s)") (auto simp: numeral_3_eq_3 numeral_2_eq_2)

lemma status_code_eq:
  "status_code s =
    (if 3 \<le> length s \<and> list_all is_digit (take 3 s) then digits_val 10 (take 3 s) else 0)"
proof (cases "3 \<le> length s \<and> list_all is_digit (take 3 s)")
  case False
  then show ?thesis using take_3_digits [of s] by (auto simp: status_code_def Let_def)
next
  case True
  then have t: "take 3 s = [s ! 0, s ! 1, s ! 2]" by (intro take_3_digits) simp
  then have d: "is_digit (s ! 0)" "is_digit (s ! 1)" "is_digit (s ! 2)" using True by auto
  have "status_code s = (case map_of string_to_status_code (take 3 s) of
      None \<Rightarrow> nat (strtol 10 (take 3 s)) | Some code \<Rightarrow> code)"
    using True d unfolding t by (simp add: status_code_def Let_def t del: One_nat_def)
  also have "\<dots> = digits_val 10 (take 3 s)"
  proof (cases "map_of string_to_status_code (take 3 s)")
    case None
    have "scan_int 10 (take 3 s @ []) = Some (False, digits_val 10 (take 3 s))"
      by (rule scan_digits) (use t d in auto)
    moreover have "digits_val 10 (take 3 s) < 1000"
    proof -
      have "(case digit_of c of None \<Rightarrow> 0 | Some n \<Rightarrow> n) < 10" if "is_digit c" for c
        using is_digit_facts(1) [OF that] by (auto simp: digit_in_def split: option.splits)
      from this [OF d(1)] this [OF d(2)] this [OF d(3)] show ?thesis
        unfolding t by (simp add: digits_val_def)
    qed
    ultimately show ?thesis using None by (simp add: strtol_def)
  next
    case (Some code)
    then obtain line where "(code, line) \<in> set status_code_strings" and "take 3 line = take 3 s"
      by (auto simp: string_to_status_code_def dest!: map_of_SomeD)
    then have "digits_val 10 (take 3 line) = code \<or> line = []"
      using status_lines_numbered by (auto simp: list_all_iff)
    with Some \<open>take 3 line = take 3 s\<close> t show ?thesis by auto
  qed
  finally show ?thesis using True by simp
qed

lemma enum_codes:
  "map snd enum_values =
     [0, 100, 101, 102, 200, 201, 202, 203, 204, 205, 206, 207, 208, 226, 300, 301, 302, 303, 304,
      305, 306, 307, 308, 400, 401, 402, 403, 404, 405, 406, 407, 408, 409, 410, 411, 412, 413,
      414, 415, 416, 417, 418, 421, 422, 423, 424, 426, 428, 429, 431, 451, 500, 501, 502, 503,
      504, 505, 506, 507, 508, 510, 511]"
  by (simp add: enum_values_def enumerators_def)

lemma strings_zip: "status_code_strings = zip (map snd enum_values) (map snd status_code_names)"
  by (simp add: status_code_strings_def enum_eval status_code_names_def)

lemma map_of_zip_all:
  "distinct ks \<Longrightarrow> length ks = length vs \<Longrightarrow> map (map_of (zip ks vs)) ks = map Some vs"
  by (rule nth_equalityI) (auto simp: map_of_zip_nth)

lemma status_code_texts: "map status_code_text (map snd enum_values) = map snd status_code_names"
proof -
  have "map (map_of status_code_strings) (map snd enum_values) = map Some (map snd status_code_names)"
    unfolding strings_zip
    by (rule map_of_zip_all, simp only: enum_codes, simp,
        simp add: enum_values_def enumerators_def status_code_names_def)
  moreover have "map status_code_text es =
      map (case_option [] (\<lambda>t. t)) (map (map_of status_code_strings) es)" for es
    by (simp add: status_code_text_def)
  moreover have "map (case_option [] (\<lambda>t. t)) (map Some ts) = ts" for ts :: "bytes list"
    by (induction ts) auto
  ultimately show ?thesis by (simp only:)
qed

text \<open>
  The conversion from text is the decimal value of the first three characters when these
  are digits, for declared and undeclared codes alike, and \<open>unknown\<close> otherwise: the
  table never disagrees with the number.
\<close>
lemma status_code_is_leading_number:
  "status_code s =
    (if 3 \<le> length s \<and> list_all is_digit (take 3 s) then digits_val 10 (take 3 s) else 0)"
  by (rule status_code_eq)

text \<open>
  Every enumerator survives the round trip through its status line.
\<close>
lemma status_code_round_trip:
  "map (\<lambda>(name, code). status_code (status_code_text code)) enum_values = map snd enum_values"
proof -
  have "map (\<lambda>text. if 3 \<le> length text \<and> list_all is_digit (take 3 text)
      then digits_val 10 (take 3 text) else 0) (map snd status_code_names) = map snd enum_values"
    unfolding enum_codes
    by (simp add: status_code_names_def is_digit_def digits_val_def digit_of_def)
  then have "map status_code (map status_code_text (map snd enum_values)) = map snd enum_values"
    unfolding status_code_texts status_code_eq .
  then show ?thesis by (simp add: case_prod_beta comp_def)
qed

end
