(* ===== verification/Percent_Codec.thy ===== *)
theory Percent_Codec
  imports Numbers
begin

text \<open>
  \<open>SimpleWeb::Percent\<close> of \<open>src/src/http/utility.hpp\<close>: percent encoding and decoding of
  byte strings. Decoding hands two characters to \<open>strtol\<close> (theory \<open>Numbers\<close>), so it accepts
  more than encoding produces. What the query strings and the cookie attributes rely on is
  the locale \<open>field_codec\<close>: decoding inverts encoding, and an encoded value holds no
  separator.
\<close>

section \<open>Operations\<close>

definition unreserved :: "char \<Rightarrow> bool" where
  "unreserved chr \<longleftrightarrow> (let n = of_char chr :: nat in
     (48 \<le> n \<and> n \<le> 57) \<or> (65 \<le> n \<and> n \<le> 90) \<or> (97 \<le> n \<and> n \<le> 122) \<or>
     chr = CHR ''-'' \<or> chr = CHR ''.'' \<or> chr = CHR ''_'' \<or> chr = CHR ''~'')"

definition hex_chars :: bytes where
  "hex_chars = ''0123456789ABCDEF''"

definition encode_chr :: "char \<Rightarrow> bytes" where
  "encode_chr chr =
     (if \<not> unreserved chr
      then [CHR ''%'', hex_chars ! ((of_char chr :: nat) div 16), hex_chars ! ((of_char chr :: nat) mod 16)]
      else [chr])"

definition encode :: "bytes \<Rightarrow> bytes" where
  "encode value = concat (map encode_chr value)"

text \<open>The conversion to \<open>char\<close> keeps the low eight bits.\<close>

definition decode_hex :: "char \<Rightarrow> char \<Rightarrow> char" where
  "decode_hex h l = char_of (strtol 16 [h, l] mod 256)"

fun decode :: "bytes \<Rightarrow> bytes" where
  "decode [] = []"
| "decode (chr # rest) =
     (case rest of
        h # l # rest' \<Rightarrow>
          if chr = CHR ''%'' then decode_hex h l # decode rest'
          else (if chr = CHR ''+'' then CHR '' '' else chr) # decode rest
      | _ \<Rightarrow> (if chr = CHR ''+'' then CHR '' '' else chr) # decode rest)"

section \<open>Hexadecimal digits\<close>

lemma of_char_less_256: "(of_char c :: nat) < 256"
  by (rule nat_of_char_less_256)

lemma hex_digit:
  assumes "d < 16"
  shows "digit_of (hex_chars ! d) = Some d" and "\<not> is_space (hex_chars ! d)"
    and "hex_chars ! d \<noteq> CHR ''-''" and "hex_chars ! d \<noteq> CHR ''+''"
    and "unreserved (hex_chars ! d)"
proof -
  have "list_all (\<lambda>d. digit_of (hex_chars ! d) = Some d \<and> \<not> is_space (hex_chars ! d) \<and>
      hex_chars ! d \<noteq> CHR ''-'' \<and> hex_chars ! d \<noteq> CHR ''+'' \<and> unreserved (hex_chars ! d)) [0..<16]"
    by (simp add: upt_rec hex_chars_def digit_of_def is_space_def unreserved_def)
  with assms show "digit_of (hex_chars ! d) = Some d" and "\<not> is_space (hex_chars ! d)"
    and "hex_chars ! d \<noteq> CHR ''-''" and "hex_chars ! d \<noteq> CHR ''+''" and "unreserved (hex_chars ! d)"
    by (simp_all add: list_all_iff)
qed

lemma strtol_hex:
  assumes "a < 16" and "b < 16"
  shows "strtol 16 [hex_chars ! a, hex_chars ! b] = int (a * 16 + b)"
proof -
  note A = hex_digit [OF assms(1)] and B = hex_digit [OF assms(2)]
  have "scan_int 16 [hex_chars ! a, hex_chars ! b] = Some (False, a * 16 + b)"
    using A B assms by (simp add: scan_int_def scan_prefix_def digit_in_def digits_val_def)
  with assms show ?thesis by (simp add: strtol_def)
qed

lemma decode_hex_digits:
  "decode_hex (hex_chars ! ((of_char c :: nat) div 16)) (hex_chars ! ((of_char c :: nat) mod 16)) = c"
proof -
  have lt: "(of_char c :: nat) < 256" by (rule of_char_less_256)
  then have "strtol 16 [hex_chars ! ((of_char c :: nat) div 16), hex_chars ! ((of_char c :: nat) mod 16)]
      = int (of_char c)"
    by (subst strtol_hex) (auto simp: less_mult_imp_div_less)
  moreover have "char_of (int (of_char c) mod 256) = c"
    using lt by (simp add: of_nat_of_char)
  ultimately show ?thesis by (simp add: decode_hex_def)
qed

section \<open>Decoding an encoded text\<close>

lemma decode_plain [simp]:
  "chr \<noteq> CHR ''%'' \<Longrightarrow> decode (chr # rest) = (if chr = CHR ''+'' then CHR '' '' else chr) # decode rest"
  by (simp split: list.split)

lemma decode_escape [simp]: "decode (CHR ''%'' # h # l # rest) = decode_hex h l # decode rest"
  by simp

declare decode.simps(2) [simp del]

lemma unreserved_plain: "unreserved c \<Longrightarrow> c \<noteq> CHR ''%'' \<and> c \<noteq> CHR ''+''"
  by (auto simp: unreserved_def)

lemma decode_encode_chr: "decode (encode_chr c @ rest) = c # decode rest"
proof (cases "unreserved c")
  case True
  with unreserved_plain [OF True] show ?thesis by (simp add: encode_chr_def)
next
  case False
  then show ?thesis by (simp add: encode_chr_def decode_hex_digits)
qed

lemma decode_encode: "decode (encode s) = s"
  by (induction s) (simp_all add: encode_def decode_encode_chr)

lemma encode_alphabet: "c \<in> set (encode s) \<Longrightarrow> unreserved c \<or> c = CHR ''%''"
  using hex_digit(5) [of "(of_char c :: nat) div 16" for c] hex_digit(5) [of "(of_char c :: nat) mod 16" for c]
  by (auto simp: encode_def encode_chr_def less_mult_imp_div_less of_char_less_256 split: if_splits)

lemma encode_Nil_iff [simp]: "encode s = [] \<longleftrightarrow> s = []"
  by (cases s) (auto simp: encode_def encode_chr_def)

lemma encode_length: "length s \<le> length (encode s) \<and> length (encode s) \<le> 3 * length s"
proof (induction s)
  case Nil
  then show ?case by (simp add: encode_def)
next
  case (Cons c s)
  have "1 \<le> length (encode_chr c) \<and> length (encode_chr c) \<le> 3" by (simp add: encode_chr_def)
  with Cons show ?case by (simp add: encode_def)
qed

text \<open>The two functions reserve the least number of characters the result can have.\<close>

definition encode_reserve :: "bytes \<Rightarrow> nat" where
  "encode_reserve value = length value"

definition decode_reserve :: "bytes \<Rightarrow> nat" where
  "decode_reserve value = length value div 3 + length value mod 3"

lemma decode_reserve_Cons: "decode_reserve (c # s) \<le> Suc (decode_reserve s)"
proof -
  have "Suc n div 3 + Suc n mod 3 \<le> Suc (n div 3 + n mod 3)" for n :: nat
    by (simp add: div_Suc mod_Suc)
  then show ?thesis by (simp add: decode_reserve_def)
qed

lemma decode_reserve_escape: "decode_reserve (c # h # l # s) = Suc (decode_reserve s)"
proof -
  have "(n + 3) div 3 + (n + 3) mod 3 = Suc (n div 3 + n mod 3)" for n :: nat by simp
  from this [of "length s"] show ?thesis by (simp add: decode_reserve_def)
qed

lemma decode_length: "decode_reserve s \<le> length (decode s) \<and> length (decode s) \<le> length s"
proof (induction s rule: decode.induct)
  case 1
  then show ?case by (simp add: decode_reserve_def)
next
  case (2 chr rest)
  show ?case
  proof (cases "length rest < 2 \<or> chr \<noteq> CHR ''%''")
    case True
    then have "decode (chr # rest) = (if chr = CHR ''+'' then CHR '' '' else chr) # decode rest"
      by (auto simp: decode.simps(2) [of chr] split: list.split)
    moreover have "decode_reserve rest \<le> length (decode rest) \<and> length (decode rest) \<le> length rest"
      using 2(2-) True by (cases rest; cases "tl rest") (simp_all add: decode_reserve_def)
    ultimately show ?thesis using decode_reserve_Cons [of chr rest] by simp
  next
    case False
    then obtain h l t where "rest = h # l # t" and "chr = CHR ''%''"
      by (cases rest; cases "tl rest") auto
    moreover from this have "decode_reserve t \<le> length (decode t) \<and> length (decode t) \<le> length t"
      using 2 by fastforce
    ultimately show ?thesis by (simp add: decode_reserve_escape)
  qed
qed

section \<open>The interface\<close>

text \<open>
  What a text format relies on to embed values: \<open>enc\<close> is undone by \<open>dec\<close> and never yields
  a separator.
\<close>

locale field_codec =
  fixes enc :: "bytes \<Rightarrow> bytes" and dec :: "bytes \<Rightarrow> bytes" and separator :: "char \<Rightarrow> bool"
  assumes dec_enc: "dec (enc v) = v"
    and enc_clean: "c \<in> set (enc v) \<Longrightarrow> \<not> separator c"
    and enc_nonempty: "v \<noteq> [] \<Longrightarrow> enc v \<noteq> []"
begin

lemma enc_inj: "enc v = enc w \<longleftrightarrow> v = w"
  using dec_enc by metis

lemma decode_fields: "map (\<lambda>(n, e). (n, dec e)) (map (\<lambda>(n, v). (n, enc v)) fields) = fields"
  by (induction fields) (auto simp: dec_enc)

lemma enc_no_separator: "separator c \<Longrightarrow> c \<notin> set (enc v)"
  using enc_clean by blast

lemma enc_takeWhile:
  "separator c \<Longrightarrow> takeWhile (\<lambda>x. x \<noteq> c) (enc v @ c # rest) = enc v"
  using enc_no_separator [of c v] by (subst takeWhile_append2) auto

end

definition field_separator :: "char \<Rightarrow> bool" where
  "field_separator c \<longleftrightarrow> c \<in> set ''&=;,+? ''  \<or> c = CHR 0x22 \<or> c = CR \<or> c = LF"

lemma unreserved_no_separator: "unreserved c \<or> c = CHR ''%'' \<Longrightarrow> \<not> field_separator c"
  by (auto simp: unreserved_def field_separator_def)

interpretation pct: field_codec encode decode field_separator
  by unfold_locales (use unreserved_no_separator [OF encode_alphabet] in \<open>auto simp: decode_encode\<close>)

section \<open>Properties\<close>

text \<open>
  C38: Decoding inverts encoding on every byte string, so encoding is injective, an encoded
  string is at least as long as its source and at most three times as long, and it consists
  of unreserved characters and percent signs.
\<close>
theorem percent_round_trip:
  "decode (encode s) = s \<and> length s \<le> length (encode s) \<and> length (encode s) \<le> 3 * length s \<and>
   list_all (\<lambda>c. unreserved c \<or> c = CHR ''%'') (encode s)"
  using pct.dec_enc encode_length encode_alphabet by (auto simp: list_all_iff)

text \<open>
  Decoding is defined on every byte string, malformed escapes included, never makes it
  longer, and the memory it reserves beforehand is never more than the result takes.
\<close>
lemma decode_reserves_minimum:
  "decode_reserve s \<le> length (decode s) \<and> length (decode s) \<le> length s"
  by (rule decode_length)

end
