(* ===== verification/Query_String.thy ===== *)
theory Query_String
  imports Percent_Codec "HOL-Library.Monad_Syntax"
begin

text \<open>
  \<open>SimpleWeb::QueryString\<close> of \<open>src/src/http/utility.hpp\<close>. A multimap is the list of its
  entries: in the order of its iteration for \<open>create\<close>, in the order of insertion for
  \<open>parse\<close>. Both functions are \<open>noexcept\<close>; \<^term>\<open>None\<close> is the exception of \<open>substr\<close> that would
  end the program. The parser walks the string with three positions; what it computes is
  \<open>query_fields\<close>, the fields of the segments between ampersands.
\<close>

section \<open>Operations\<close>

fun query_create_loop :: "bool \<Rightarrow> headers \<Rightarrow> bytes \<Rightarrow> bytes" where
  "query_create_loop first [] result = result"
| "query_create_loop first (field # fields) result =
     query_create_loop False fields
       (result @ ((if \<not> first then ''&'' else []) @ fst field @ [CHR ''=''] @ encode (snd field)))"

definition query_create :: "headers \<Rightarrow> bytes" where
  "query_create fields = query_create_loop True fields []"

text \<open>
  The loop over the positions \<open>c\<close>; its second argument is what is left of the string from
  \<open>c\<close> on.
\<close>

fun query_loop ::
  "bytes \<Rightarrow> bytes \<Rightarrow> nat \<Rightarrow> nat \<Rightarrow> nat option \<Rightarrow> nat option \<Rightarrow> headers \<Rightarrow>
   (nat \<times> nat option \<times> nat option \<times> headers) option"
where
  "query_loop s [] c name_pos name_end_pos value_pos result =
     Some (name_pos, name_end_pos, value_pos, result)"
| "query_loop s (x # xs) c name_pos name_end_pos value_pos result =
     (if x = CHR ''&'' then do {
        name \<leftarrow> substr s name_pos
                 (size_sub (case name_end_pos of None \<Rightarrow> c | Some e \<Rightarrow> e) name_pos);
        result' \<leftarrow>
          (if name \<noteq> [] then do {
             val \<leftarrow> (case value_pos of None \<Rightarrow> Some [] | Some v \<Rightarrow> substr s v (size_sub c v));
             Some (result @ [(name, decode val)])
           } else Some result);
        query_loop s xs (Suc c) (Suc c) None None result'
      }
      else if x = CHR ''='' then query_loop s xs (Suc c) name_pos (Some c) (Some (Suc c)) result
      else query_loop s xs (Suc c) name_pos name_end_pos value_pos result)"

text \<open>After the loop. A length counted from \<open>npos\<close> takes the rest of the string.\<close>

definition query_last :: "bytes \<Rightarrow> nat \<times> nat option \<times> nat option \<times> headers \<Rightarrow> headers option" where
  "query_last s st = (case st of (name_pos, name_end_pos, value_pos, result) \<Rightarrow>
     if name_pos < length s then do {
       name \<leftarrow> (case name_end_pos of
                  None \<Rightarrow> substr_from s name_pos
                | Some e \<Rightarrow> substr s name_pos (size_sub e name_pos));
       if name \<noteq> [] then do {
         val \<leftarrow> (case value_pos of
                    None \<Rightarrow> Some []
                  | Some v \<Rightarrow> if length s \<le> v then Some [] else substr_from s v);
         Some (result @ [(name, decode val)])
       } else Some result
     } else Some result)"

definition query_parse :: "bytes \<Rightarrow> headers option" where
  "query_parse query_string =
     (if query_string = [] then Some []
      else do {
        st \<leftarrow> query_loop query_string query_string 0 0 None None [];
        query_last query_string st
      })"

section \<open>What a query string means\<close>

text \<open>The segments between ampersands, and the field of a segment: its last equality sign
  separates the name from the value.\<close>

fun segments :: "bytes \<Rightarrow> bytes list" where
  "segments [] = [[]]"
| "segments (x # xs) =
     (if x = CHR ''&'' then [] # segments xs
      else (x # hd (segments xs)) # tl (segments xs))"

definition segment_field :: "bytes \<Rightarrow> (bytes \<times> bytes) option" where
  "segment_field seg =
     (let field = (if CHR ''='' \<in> set seg
         then (rev (tl (dropWhile (\<lambda>c. c \<noteq> CHR ''='') (rev seg))),
               decode (rev (takeWhile (\<lambda>c. c \<noteq> CHR ''='') (rev seg))))
         else (seg, []))
      in if fst field = [] then None else Some field)"

definition query_fields :: "bytes \<Rightarrow> headers" where
  "query_fields s = List.map_filter segment_field (segments s)"

lemma decode_Nil: "decode [] = []"
  by simp

lemma segment_field_plain:
  "CHR ''='' \<notin> set seg \<Longrightarrow> segment_field seg = (if seg = [] then None else Some (seg, []))"
  by (simp add: segment_field_def)

lemma segment_field_value:
  assumes "CHR ''='' \<notin> set b"
  shows "segment_field (a @ CHR ''='' # b) = (if a = [] then None else Some (a, decode b))"
proof -
  have "takeWhile (\<lambda>c. c \<noteq> CHR ''='') (rev b @ CHR ''='' # rev a) = rev b"
    "dropWhile (\<lambda>c. c \<noteq> CHR ''='') (rev b @ CHR ''='' # rev a) = CHR ''='' # rev a"
    using assms by (simp_all add: text_simps)
  then show ?thesis by (simp add: segment_field_def)
qed

lemma segments_nonempty [simp]: "segments s \<noteq> []"
  by (cases s) auto

lemma segments_append:
  "CHR ''&'' \<notin> set seg \<Longrightarrow> segments (seg @ xs) = (seg @ hd (segments xs)) # tl (segments xs)"
  by (induction seg) auto

lemma segments_amp:
  "CHR ''&'' \<notin> set seg \<Longrightarrow> segments (seg @ CHR ''&'' # xs) = seg # segments xs"
  by (simp add: segments_append)

lemma segments_single: "CHR ''&'' \<notin> set seg \<Longrightarrow> segments seg = [seg]"
  using segments_append [of seg "[]"] by simp

section \<open>The positions of the parser\<close>

text \<open>In a segment \<open>seg\<close> that starts at \<open>n\<close>, the positions kept are those around its last
  equality sign.\<close>

definition marks :: "nat \<Rightarrow> bytes \<Rightarrow> nat option \<Rightarrow> nat option \<Rightarrow> bool" where
  "marks n seg ne vp \<longleftrightarrow>
     (CHR ''='' \<notin> set seg \<and> ne = None \<and> vp = None) \<or>
     (\<exists>a b. seg = a @ CHR ''='' # b \<and> CHR ''='' \<notin> set b \<and>
        ne = Some (n + length a) \<and> vp = Some (Suc (n + length a)))"

lemma marks_Nil: "marks n [] None None"
  by (simp add: marks_def)

lemma marks_eq: "marks n (seg @ ''='') (Some (n + length seg)) (Some (Suc (n + length seg)))"
  unfolding marks_def by (intro disjI2 exI [of _ seg] exI [of _ "[]"]) simp

lemma marks_other:
  assumes "marks n seg ne vp" and "x \<noteq> CHR ''=''"
  shows "marks n (seg @ [x]) ne vp"
  using assms(1) unfolding marks_def
proof (elim disjE exE conjE)
  fix a b
  assume "seg = a @ CHR ''='' # b" "CHR ''='' \<notin> set b" "ne = Some (n + length a)"
    "vp = Some (Suc (n + length a))"
  with assms(2) show "(CHR ''='' \<notin> set (seg @ [x]) \<and> ne = None \<and> vp = None) \<or>
      (\<exists>a b. seg @ [x] = a @ CHR ''='' # b \<and> CHR ''='' \<notin> set b \<and>
        ne = Some (n + length a) \<and> vp = Some (Suc (n + length a)))"
    by (intro disjI2 exI [of _ a] exI [of _ "b @ [x]"]) simp
qed (use assms(2) in auto)

lemma query_segment:
  assumes "marks (length pre) seg ne vp"
  shows "do {
      name \<leftarrow> substr (pre @ seg @ rest) (length pre)
               (size_sub (case ne of None \<Rightarrow> length pre + length seg | Some e \<Rightarrow> e) (length pre));
      if name \<noteq> [] then do {
        val \<leftarrow> (case vp of None \<Rightarrow> Some []
                 | Some v \<Rightarrow> substr (pre @ seg @ rest) v (size_sub (length pre + length seg) v));
        Some (result @ [(name, decode val)])
      } else Some result
    } = Some (result @ List.map_filter segment_field [seg])"
  using assms unfolding marks_def
proof (elim disjE exE conjE)
  assume "CHR ''='' \<notin> set seg" "ne = None" "vp = None"
  then show ?thesis
    by (simp add: segment_field_plain substr_def size_sub_def map_filter_simps)
next
  fix a b
  assume "seg = a @ CHR ''='' # b" "CHR ''='' \<notin> set b" "ne = Some (length pre + length a)"
    "vp = Some (Suc (length pre + length a))"
  then show ?thesis
    by (simp add: segment_field_value substr_def size_sub_def map_filter_simps)
qed

lemma query_last_segment:
  assumes "marks (length pre) seg ne vp"
  shows "query_last (pre @ seg) (length pre, ne, vp, result) =
    Some (result @ List.map_filter segment_field [seg])"
  using assms unfolding marks_def
proof (elim disjE exE conjE)
  assume "CHR ''='' \<notin> set seg" "ne = None" "vp = None"
  then show ?thesis
    by (simp add: query_last_def segment_field_plain substr_from_def map_filter_simps)
next
  fix a b
  assume "seg = a @ CHR ''='' # b" "CHR ''='' \<notin> set b" "ne = Some (length pre + length a)"
    "vp = Some (Suc (length pre + length a))"
  then show ?thesis
    by (cases b) (simp_all add: query_last_def segment_field_value substr_def substr_from_def size_sub_def
        map_filter_simps)
qed

lemma query_loop_fields:
  assumes "CHR ''&'' \<notin> set seg" and "marks (length pre) seg ne vp" and "s = pre @ seg @ xs"
  shows "do {
      st \<leftarrow> query_loop s xs (length pre + length seg) (length pre) ne vp result;
      query_last s st
    } = Some (result @ List.map_filter segment_field (segments (seg @ xs)))"
  using assms
proof (induction xs arbitrary: pre seg ne vp result)
  case Nil
  then show ?case by (simp add: query_last_segment segments_single)
next
  case (Cons x xs)
  consider "x = CHR ''&''" | "x = CHR ''=''" | "x \<noteq> CHR ''&''" "x \<noteq> CHR ''=''" by blast
  then show ?case
  proof cases
    case 1
    have "CHR ''&'' \<notin> set []" "marks (length (pre @ seg @ ''&'')) [] None None"
      "s = (pre @ seg @ ''&'') @ [] @ xs" using Cons.prems 1 by (auto intro: marks_Nil)
    note next_segment = Cons.IH [OF this]
    have "query_loop s (x # xs) (length pre + length seg) (length pre) ne vp result =
      do {
        result' \<leftarrow> do {
          name \<leftarrow> substr s (length pre)
            (size_sub (case ne of None \<Rightarrow> length pre + length seg | Some e \<Rightarrow> e) (length pre));
          if name \<noteq> [] then do {
            val \<leftarrow> (case vp of None \<Rightarrow> Some []
                     | Some v \<Rightarrow> substr s v (size_sub (length pre + length seg) v));
            Some (result @ [(name, decode val)])
          } else Some result
        };
        query_loop s xs (Suc (length pre + length seg)) (Suc (length pre + length seg)) None None result'
      }"
      unfolding 1 by (simp only: query_loop.simps bind_assoc refl if_True)
    also have "\<dots> = query_loop s xs (Suc (length pre + length seg)) (Suc (length pre + length seg))
        None None (result @ List.map_filter segment_field [seg])"
      unfolding Cons.prems(3) query_segment [OF Cons.prems(2)] by simp
    finally show ?thesis
      using next_segment [of "result @ List.map_filter segment_field [seg]"] Cons.prems(1) 1
      by (simp add: segments_amp map_filter_simps split: option.splits)
  next
    case 2
    have "CHR ''&'' \<notin> set (seg @ ''='')" "s = pre @ (seg @ ''='') @ xs"
      using Cons.prems 2 by auto
    from Cons.IH [OF this(1) marks_eq this(2), of result] 2 show ?thesis by simp
  next
    case 3
    have "CHR ''&'' \<notin> set (seg @ [x])" "s = pre @ (seg @ [x]) @ xs"
      using Cons.prems 3 by auto
    from Cons.IH [OF this(1) marks_other [OF Cons.prems(2) 3(2)] this(2), of result] 3
    show ?thesis by simp
  qed
qed

lemma query_parse_eq: "query_parse s = Some (query_fields s)"
proof (cases "s = []")
  case True
  then show ?thesis by (simp add: query_parse_def query_fields_def segment_field_plain map_filter_simps)
next
  case False
  with query_loop_fields [of "[]" "[]" None None s s "[]"] show ?thesis
    by (simp add: query_parse_def query_fields_def marks_Nil)
qed

section \<open>Parsing what was created\<close>

lemma segment_field_created:
  assumes "fst field \<noteq> []"
  shows "segment_field (fst field @ CHR ''='' # encode (snd field)) = Some field"
proof -
  have "CHR ''='' \<notin> set (encode (snd field))"
    by (rule pct.enc_no_separator) (simp add: field_separator_def)
  with assms show ?thesis by (simp add: segment_field_value pct.dec_enc)
qed

lemma created_no_amp:
  "CHR ''&'' \<notin> set (fst field) \<Longrightarrow> CHR ''&'' \<notin> set (fst field @ CHR ''='' # encode (snd field))"
  using pct.enc_no_separator [of "CHR ''&''" "snd field"] by (simp add: field_separator_def)

lemma query_create_loop_append:
  "query_create_loop first fields result = result @ query_create_loop first fields []"
proof (induction fields arbitrary: first result)
  case Nil
  then show ?case by simp
next
  case (Cons field fields)
  let ?t = "(if \<not> first then ''&'' else []) @ fst field @ [CHR ''=''] @ encode (snd field)"
  have "query_create_loop first (field # fields) result = (result @ ?t) @ query_create_loop False fields []"
    using Cons.IH [of False "result @ ?t"] by (simp only: query_create_loop.simps)
  moreover have "query_create_loop first (field # fields) [] = ?t @ query_create_loop False fields []"
    using Cons.IH [of False ?t] by (simp only: query_create_loop.simps append_Nil)
  ultimately show ?case by simp
qed

lemma fields_created:
  assumes "\<forall>field \<in> set fields. fst field \<noteq> [] \<and> CHR ''&'' \<notin> set (fst field)"
  shows "query_fields (query_create fields) = fields"
proof -
  have rest: "segments (seg @ query_create_loop False fs []) =
      seg # map (\<lambda>field. fst field @ CHR ''='' # encode (snd field)) fs"
    if "\<forall>field \<in> set fs. CHR ''&'' \<notin> set (fst field)" "CHR ''&'' \<notin> set seg" for fs seg
    using that
  proof (induction fs arbitrary: seg)
    case Nil
    then show ?case by (simp add: segments_single)
  next
    case (Cons f fs)
    then show ?case
      using query_create_loop_append [of False fs "CHR ''&'' # fst f @ CHR ''='' # encode (snd f)"]
        created_no_amp [of f] Cons.IH [of "fst f @ CHR ''='' # encode (snd f)"]
      by (simp add: segments_amp)
  qed
  show ?thesis
  proof (cases fields)
    case Nil
    then show ?thesis by (simp add: query_create_def query_fields_def segment_field_plain map_filter_simps)
  next
    case (Cons f fs)
    have "segments (query_create fields) = map (\<lambda>field. fst field @ CHR ''='' # encode (snd field)) fields"
      using rest [of fs "fst f @ CHR ''='' # encode (snd f)"] assms created_no_amp [of f] Cons
        query_create_loop_append [of False fs "fst f @ CHR ''='' # encode (snd f)"]
      by (simp add: query_create_def)
    moreover have "List.map_filter segment_field (map (\<lambda>field. fst field @ CHR ''='' # encode (snd field)) fs)
        = fs" if "\<forall>field \<in> set fs. fst field \<noteq> []" for fs
      using that by (induction fs) (simp_all add: map_filter_simps segment_field_created)
    ultimately show ?thesis using assms by (simp add: query_fields_def)
  qed
qed

text \<open>Names are not encoded, so one with an ampersand comes back as two fields.\<close>

lemma query_name_not_encoded:
  "query_parse (query_create [(''a&b'', ''1'')]) = Some [(''a'', []), (''b'', ''1'')]"
  by code_simp

section \<open>Properties\<close>

text \<open>
  C39: The parser of query strings never throws, on any input, and yields the fields of the
  segments between ampersands: the name before the last equality sign of the segment, the
  percent-decoded value after it, nothing for a segment without a name.
\<close>
theorem query_parse_is_fields: "query_parse s = Some (query_fields s)"
  by (rule query_parse_eq)

text \<open>
  Parsing a created query string gives back the fields in their order, values of any
  bytes included, provided no name is empty or contains an ampersand.
\<close>
lemma query_round_trip:
  assumes "\<forall>field \<in> set fields. fst field \<noteq> [] \<and> CHR ''&'' \<notin> set (fst field)"
  shows "query_parse (query_create fields) = Some fields"
  using fields_created [OF assms] by (simp add: query_parse_eq)

end
