(* ===== verification/Http_Header.thy ===== *)
theory Http_Header
  imports Percent_Codec "HOL-Library.Word" "HOL-Library.Monad_Syntax"
begin

text \<open>
  Header fields, \<open>src/src/http/utility.hpp\<close>: the comparison and the hash of field names, the
  parser of header lines (\<open>HttpHeader::parse\<close>) and the parser of semicolon-separated
  attributes. A multimap is the list of its entries in the order of insertion. The parsers
  return \<^term>\<open>None\<close> where \<open>substr\<close> throws. The stream is the bytes left to read; the parser of
  header lines also returns what it leaves, where the body starts.
\<close>

unbundle bit_operations_syntax

section \<open>Names\<close>

definition case_insensitive_equal :: "bytes \<Rightarrow> bytes \<Rightarrow> bool" where
  "case_insensitive_equal str1 str2 \<longleftrightarrow>
     length str1 = length str2 \<and> list_all2 (\<lambda>a b. tolower a = tolower b) str1 str2"

text \<open>A \<open>char\<close> is signed and converts to \<open>int\<close>; \<open>std::hash<int>\<close> is the argument \<open>hash\<close>.\<close>

definition schar :: "char \<Rightarrow> int" where
  "schar c = (if (of_char c :: int) < 128 then of_char c else of_char c - 256)"

definition CaseInsensitiveHash :: "(int \<Rightarrow> 64 word) \<Rightarrow> bytes \<Rightarrow> 64 word" where
  "CaseInsensitiveHash hash str =
     foldl (\<lambda>h c. h XOR (hash (schar (tolower c)) + 0x9e3779b9 + push_bit 6 h + drop_bit 2 h)) 0 str"

text \<open>\<open>find\<close> of the multimap: the value of an entry with an equal name.\<close>

fun header_find :: "bytes \<Rightarrow> headers \<Rightarrow> bytes option" where
  "header_find name [] = None"
| "header_find name ((n, v) # header) =
     (if case_insensitive_equal n name then Some v else header_find name header)"

section \<open>Header lines\<close>

function skip_spaces :: "bytes \<Rightarrow> nat \<Rightarrow> nat" where
  "skip_spaces line value_start =
     (if value_start + 1 < length line \<and> line ! value_start = CHR '' ''
      then skip_spaces line (value_start + 1) else value_start)"
  by auto
termination by (relation "measure (\<lambda>(line, v). length line - v)") auto

declare skip_spaces.simps [simp del]

function header_parse :: "bytes \<Rightarrow> (headers \<times> bytes) option" where
  "header_parse stream =
     (case getline stream of
        None \<Rightarrow> Some ([], stream)
      | Some (line, stream') \<Rightarrow>
          (case str_find line CHR '':'' 0 of
             None \<Rightarrow> Some ([], stream')
           | Some param_end \<Rightarrow>
               (let value_start = skip_spaces line (param_end + 1) in
                do {
                  entry \<leftarrow> (if value_start < length line
                    then do {
                      name \<leftarrow> substr line 0 param_end;
                      val \<leftarrow> substr line value_start
                        (size_sub (length line - value_start) (if last line = CR then 1 else 0));
                      Some [(name, val)]
                    } else Some []);
                  (rest, left) \<leftarrow> header_parse stream';
                  Some (entry @ rest, left)
                })))"
  by auto
termination
  by (relation "measure length") (auto dest: getline_shorter)

declare header_parse.simps [simp del]

section \<open>Semicolon-separated attributes\<close>

text \<open>The three positions the parser keeps; \<^term>\<open>None\<close> is \<open>npos\<close>.\<close>

record attr_state =
  name_start_pos :: "nat option"
  name_end_pos :: "nat option"
  value_start_pos :: "nat option"

definition attr_start :: attr_state where
  "attr_start = \<lparr>name_start_pos = None, name_end_pos = None, value_start_pos = None\<rparr>"

definition attr_step ::
  "bytes \<Rightarrow> nat \<Rightarrow> attr_state \<Rightarrow> headers \<Rightarrow> (attr_state \<times> headers) option" where
  "attr_step val c st result =
     (let x = val ! c in
      case name_start_pos st of
        None \<Rightarrow>
          Some (if x \<noteq> CHR '' '' \<and> x \<noteq> CHR '';'' then st\<lparr>name_start_pos := Some c\<rparr> else st, result)
      | Some name_start \<Rightarrow>
          (case name_end_pos st of
             None \<Rightarrow>
               if x = CHR '';'' then do {
                 name \<leftarrow> substr val name_start (size_sub c name_start);
                 Some (st\<lparr>name_start_pos := None\<rparr>, result @ [(name, [])])
               }
               else if x = CHR ''='' then Some (st\<lparr>name_end_pos := Some c\<rparr>, result)
               else Some (st, result)
           | Some name_end \<Rightarrow>
               (case value_start_pos st of
                  None \<Rightarrow>
                    if x = CHR 0x22 \<and> c + 1 < length val
                    then Some (st\<lparr>value_start_pos := Some (c + 1)\<rparr>, result)
                    else Some (st\<lparr>value_start_pos := Some c\<rparr>, result)
                | Some value_start \<Rightarrow>
                    if x = CHR 0x22 \<or> x = CHR '';'' then do {
                      name \<leftarrow> substr val name_start (size_sub name_end name_start);
                      v \<leftarrow> substr val value_start (size_sub c value_start);
                      Some (attr_start, result @ [(name, decode v)])
                    }
                    else Some (st, result))))"

fun attr_loop :: "bytes \<Rightarrow> nat list \<Rightarrow> attr_state \<Rightarrow> headers \<Rightarrow> (attr_state \<times> headers) option" where
  "attr_loop val [] st result = Some (st, result)"
| "attr_loop val (c # cs) st result = do {
     (st', result') \<leftarrow> attr_step val c st result;
     attr_loop val cs st' result'
   }"

definition attr_last :: "bytes \<Rightarrow> attr_state \<Rightarrow> headers \<Rightarrow> headers option" where
  "attr_last val st result =
     (case name_start_pos st of
        None \<Rightarrow> Some result
      | Some name_start \<Rightarrow>
          (case name_end_pos st of
             None \<Rightarrow> do {
               name \<leftarrow> substr_from val name_start;
               Some (result @ [(name, [])])
             }
           | Some name_end \<Rightarrow>
               (case value_start_pos st of
                  None \<Rightarrow> Some result
                | Some value_start \<Rightarrow> do {
                    name \<leftarrow> substr val name_start (size_sub name_end name_start);
                    v \<leftarrow> (if last val = CHR 0x22
                         then substr val value_start (size_sub (length val) 1)
                         else substr_from val value_start);
                    Some (result @ [(name, decode v)])
                  })))"

definition attributes_parse :: "bytes \<Rightarrow> headers option" where
  "attributes_parse val = do {
     (st, result) \<leftarrow> attr_loop val [0..<length val] attr_start [];
     attr_last val st result
   }"

section \<open>Names and hashes\<close>

lemma case_insensitive_equal_map:
  "case_insensitive_equal a b \<longleftrightarrow> map tolower a = map tolower b"
  by (auto simp: case_insensitive_equal_def list_all2_conv_all_nth list_eq_iff_nth_eq)

lemma case_insensitive_equal_refl [simp]: "case_insensitive_equal a a"
  by (simp add: case_insensitive_equal_map)

lemma hash_of_lower:
  "CaseInsensitiveHash hash str =
     foldl (\<lambda>h c. h XOR (hash (schar c) + 0x9e3779b9 + push_bit 6 h + drop_bit 2 h)) 0 (map tolower str)"
  unfolding CaseInsensitiveHash_def foldl_map ..

section \<open>Reading header lines\<close>

definition header_line :: "bytes \<times> bytes \<Rightarrow> bytes" where
  "header_line field = fst field @ '': '' @ snd field @ crlf"

definition field_ok :: "bytes \<times> bytes \<Rightarrow> bool" where
  "field_ok field \<longleftrightarrow>
     CHR '':'' \<notin> set (fst field) \<and> LF \<notin> set (fst field) \<and> LF \<notin> set (snd field) \<and>
     (snd field = [] \<or> hd (snd field) \<noteq> CHR '' '')"

lemma skip_spaces_ge: "value_start \<le> skip_spaces line value_start"
proof (induction line value_start rule: skip_spaces.induct)
  case (1 line v)
  then show ?case by (subst skip_spaces.simps) auto
qed

lemma skip_spaces_le: "value_start \<le> length line \<Longrightarrow> skip_spaces line value_start \<le> length line"
proof (induction line value_start rule: skip_spaces.induct)
  case (1 line v)
  then show ?case by (subst skip_spaces.simps) auto
qed

lemma skip_spaces_one:
  assumes "v = [] \<or> hd v \<noteq> CHR '' ''"
  shows "skip_spaces (n @ CHR '':'' # CHR '' '' # v @ [CR]) (Suc (length n)) = length n + 2"
proof -
  have "skip_spaces (n @ CHR '':'' # CHR '' '' # v @ [CR]) (length n + 2) = length n + 2"
    using assms by (subst skip_spaces.simps) (cases v; simp add: nth_append)
  then show ?thesis by (subst skip_spaces.simps) (simp add: nth_append)
qed

lemma header_parse_line [text_simps]:
  assumes "field_ok field"
  shows "header_parse (header_line field @ rest) =
    map_option (\<lambda>(header, left). (field # header, left)) (header_parse rest)"
proof -
  obtain n v where f: "field = (n, v)" by (cases field)
  let ?line = "n @ CHR '':'' # CHR '' '' # v @ [CR]"
  have "getline (header_line field @ rest) = Some (?line, rest)"
    using assms getline_line [of ?line rest] by (simp add: f header_line_def field_ok_def)
  moreover have "str_find ?line CHR '':'' 0 = Some (length n)"
    using assms by (simp add: f field_ok_def str_find_append)
  moreover have "skip_spaces ?line (Suc (length n)) = length n + 2"
    using assms by (intro skip_spaces_one) (simp add: f field_ok_def)
  ultimately show ?thesis
    by (subst header_parse.simps, cases "header_parse rest")
      (auto simp: f substr_def size_sub_def)
qed

lemma header_parse_blank [text_simps]: "header_parse (crlf @ body) = Some ([], body)"
proof -
  have "getline (crlf @ body) = Some ([CR], body)" using getline_line [of "[CR]" body] by simp
  then show ?thesis by (subst header_parse.simps) (simp add: str_find_def)
qed

lemma header_parse_lines [text_simps]:
  "\<forall>field \<in> set header. field_ok field \<Longrightarrow>
    header_parse (concat (map header_line header) @ crlf @ body) = Some (header, body)"
  using header_parse_blank [of body] by (induction header) (simp_all add: header_parse_line)

lemma header_parse_total:
  "\<exists>header left. header_parse stream = Some (header, left) \<and> (\<exists>used. stream = used @ left) \<and>
    (\<forall>field \<in> set header. CHR '':'' \<notin> set (fst field) \<and> LF \<notin> set (fst field) \<and> LF \<notin> set (snd field))"
proof (induction "length stream" arbitrary: stream rule: less_induct)
  case less
  show ?case
  proof (cases "getline stream")
    case None
    then show ?thesis by (subst header_parse.simps) simp
  next
    case (Some ls)
    then obtain line stream' where g: "getline stream = Some (line, stream')" by (cases ls) auto
    have lf: "LF \<notin> set line" using getline_no_LF [OF g] .
    have used: "\<exists>used. stream = used @ stream'"
    proof -
      have "stream' = drop (Suc (length line)) stream"
        using g by (auto simp: getline_def dropWhile_eq_drop split: if_splits)
      then show ?thesis by (metis append_take_drop_id)
    qed
    show ?thesis
    proof (cases "str_find line CHR '':'' 0")
      case None
      with g used show ?thesis by (subst header_parse.simps) simp
    next
      case (Some pe)
      obtain header left where ih: "header_parse stream' = Some (header, left)"
        "\<exists>used. stream' = used @ left"
        "\<forall>field \<in> set header. CHR '':'' \<notin> set (fst field) \<and> LF \<notin> set (fst field) \<and> LF \<notin> set (snd field)"
        using less [OF getline_shorter [OF g]] by blast
      have pe: "pe < length line" "CHR '':'' \<notin> set (take pe line)"
        using Some by (auto simp: str_find_def find_at_Some_iff)
      have clean: "LF \<notin> set (take k (drop j line))" "LF \<notin> set (take k line)" for j k
        using lf by (auto dest: in_set_takeD in_set_dropD)
      let ?vs = "skip_spaces line (pe + 1)"
      have "\<exists>entry. (if ?vs < length line then do {
            name \<leftarrow> substr line 0 pe;
            val \<leftarrow> substr line ?vs (size_sub (length line - ?vs) (if last line = CR then 1 else 0));
            Some [(name, val)] } else Some []) = Some entry \<and>
          (\<forall>field \<in> set entry. CHR '':'' \<notin> set (fst field) \<and> LF \<notin> set (fst field) \<and> LF \<notin> set (snd field))"
        using pe clean by (auto simp: substr_def)
      then obtain entry where e: "(if ?vs < length line then do {
            name \<leftarrow> substr line 0 pe;
            val \<leftarrow> substr line ?vs (size_sub (length line - ?vs) (if last line = CR then 1 else 0));
            Some [(name, val)] } else Some []) = Some entry"
        "\<forall>field \<in> set entry. CHR '':'' \<notin> set (fst field) \<and> LF \<notin> set (fst field) \<and> LF \<notin> set (snd field)"
        by (elim exE conjE that)
      have "header_parse stream = Some (entry @ header, left)"
        by (subst header_parse.simps) (simp only: g Some option.case prod.case Let_def e(1) ih(1) Option.bind.bind_lunit)
      moreover have "\<exists>used. stream = used @ left"
        using used ih(2) by (elim exE) (simp add: append_assoc [symmetric] del: append_assoc)
      ultimately show ?thesis using e(2) ih(3) by auto
    qed
  qed
qed

section \<open>Reading attributes\<close>

text \<open>Every position the parser keeps lies inside the string, so no \<open>substr\<close> throws.\<close>

definition attr_inv :: "bytes \<Rightarrow> attr_state \<Rightarrow> bool" where
  "attr_inv val st \<longleftrightarrow>
     (\<forall>p. name_start_pos st = Some p \<longrightarrow> p \<le> length val) \<and>
     (\<forall>p. value_start_pos st = Some p \<longrightarrow> p \<le> length val)"

lemma attr_step_total:
  assumes "attr_inv val st" and "c < length val"
  shows "\<exists>st' result'. attr_step val c st result = Some (st', result') \<and> attr_inv val st'"
  using assms by (auto simp: attr_step_def attr_inv_def attr_start_def Let_def substr_def split: option.splits)

lemma attr_loop_total:
  "attr_inv val st \<Longrightarrow> \<forall>c \<in> set cs. c < length val \<Longrightarrow>
    \<exists>st' result'. attr_loop val cs st result = Some (st', result') \<and> attr_inv val st'"
proof (induction cs arbitrary: st result)
  case Nil
  then show ?case by simp
next
  case (Cons c cs)
  then obtain st' result' where "attr_step val c st result = Some (st', result')" "attr_inv val st'"
    using attr_step_total [of val st c result] by auto
  with Cons show ?case by simp
qed

lemma attr_last_total: "attr_inv val st \<Longrightarrow> \<exists>result'. attr_last val st result = Some result'"
  by (auto simp: attr_last_def attr_inv_def substr_def substr_from_def split: option.splits)

lemma attributes_parse_total: "\<exists>result. attributes_parse val = Some result"
proof -
  obtain st result where "attr_loop val [0..<length val] attr_start [] = Some (st, result)" "attr_inv val st"
    using attr_loop_total [of val attr_start "[0..<length val]" "[]"]
    by (auto simp: attr_inv_def attr_start_def)
  with attr_last_total [of val st result] show ?thesis by (auto simp: attributes_parse_def)
qed

lemma attr_loop_append:
  "attr_loop val (xs @ ys) st result =
     do { (st', result') \<leftarrow> attr_loop val xs st result; attr_loop val ys st' result' }"
  by (induction xs arbitrary: st result) (auto simp: case_prod_unfold)

lemma attr_loop_idle:
  "\<forall>c \<in> set cs. attr_step val c st result = Some (st, result) \<Longrightarrow>
    attr_loop val cs st result = Some (st, result)"
  by (induction cs) auto

text \<open>One attribute: from the start of its name to the end of its value.\<close>

definition attribute :: "bytes \<times> bytes \<Rightarrow> bytes" where
  "attribute field = fst field @ CHR ''='' # encode (snd field)"

definition attr_ok :: "bytes \<times> bytes \<Rightarrow> bool" where
  "attr_ok field \<longleftrightarrow> fst field \<noteq> [] \<and> hd (fst field) \<noteq> CHR '' '' \<and>
     CHR '';'' \<notin> set (fst field) \<and> CHR ''='' \<notin> set (fst field) \<and> snd field \<noteq> []"

definition in_value :: "nat \<Rightarrow> bytes \<Rightarrow> attr_state" where
  "in_value n name = \<lparr>name_start_pos = Some n, name_end_pos = Some (n + length name),
     value_start_pos = Some (Suc (n + length name))\<rparr>"

lemma attr_loop_name:
  assumes "name \<noteq> []" and "hd name \<noteq> CHR '' ''" and "CHR '';'' \<notin> set name" and "CHR ''='' \<notin> set name"
    and "val = pre @ name @ post"
  shows "attr_loop val [length pre..<length pre + length name] attr_start result =
    Some (attr_start\<lparr>name_start_pos := Some (length pre)\<rparr>, result)"
proof -
  obtain x xs where n: "name = x # xs" using assms(1) by (cases name) auto
  let ?st = "attr_start\<lparr>name_start_pos := Some (length pre)\<rparr>"
  have "attr_step val c ?st result = Some (?st, result)"
    if "c \<in> set [Suc (length pre)..<length pre + length name]" for c
  proof -
    have "val ! c \<in> set name"
      using that assms(5) by (auto simp: nth_append)
    then have "val ! c \<noteq> CHR '';''" "val ! c \<noteq> CHR ''=''" using assms(3,4) by metis+
    then show ?thesis by (simp add: attr_step_def attr_start_def Let_def)
  qed
  then have "attr_loop val [Suc (length pre)..<length pre + length name] ?st result = Some (?st, result)"
    by (intro attr_loop_idle) blast
  moreover have "attr_step val (length pre) attr_start result = Some (?st, result)"
    using assms(2,3,5) n by (auto simp: attr_step_def attr_start_def Let_def nth_append)
  moreover have "[length pre..<length pre + length name] =
      length pre # [Suc (length pre)..<length pre + length name]"
    by (rule upt_conv_Cons) (use n in simp)
  ultimately show ?thesis by simp
qed

lemma attr_loop_value:
  assumes "v \<noteq> []" and "CHR '';'' \<notin> set v" and "CHR 0x22 \<notin> set v"
    and "val = pre @ name @ CHR ''='' # v @ post"
  shows "attr_loop val [length pre + length name..<length pre + length name + Suc (length v)]
      (attr_start\<lparr>name_start_pos := Some (length pre)\<rparr>) result = Some (in_value (length pre) name, result)"
proof -
  obtain y ys where v: "v = y # ys" using assms(1) by (cases v) auto
  let ?k = "length pre + length name"
  have eq: "val ! ?k = CHR ''=''" using assms(4) by (simp add: nth_append)
  have "attr_step val c (in_value (length pre) name) result = Some (in_value (length pre) name, result)"
    if "c \<in> set [?k + 2..<?k + Suc (length v)]" for c
  proof -
    let ?j = "c - Suc ?k"
    have c: "c = length (pre @ name @ ''='') + ?j" and j: "?j < length v" using that by auto
    have "val ! c = (v @ post) ! ?j"
      unfolding assms(4) using nth_append_length_plus [of "pre @ name @ ''=''" "v @ post" ?j] c
      by (simp del: nth_append_length_plus)
    with j have "val ! c \<in> set v" by (simp add: nth_append)
    then have "val ! c \<noteq> CHR '';''" "val ! c \<noteq> CHR 0x22" using assms(2,3) by metis+
    then show ?thesis by (simp add: attr_step_def in_value_def Let_def)
  qed
  then have "attr_loop val [?k + 2..<?k + Suc (length v)] (in_value (length pre) name) result =
      Some (in_value (length pre) name, result)"
    by (intro attr_loop_idle) blast
  moreover have "attr_step val ?k (attr_start\<lparr>name_start_pos := Some (length pre)\<rparr>) result =
      Some (attr_start\<lparr>name_start_pos := Some (length pre), name_end_pos := Some ?k\<rparr>, result)"
    using eq by (simp add: attr_step_def attr_start_def Let_def)
  moreover have "attr_step val (Suc ?k)
      (attr_start\<lparr>name_start_pos := Some (length pre), name_end_pos := Some ?k\<rparr>) result =
      Some (in_value (length pre) name, result)"
    using v assms(3,4) by (auto simp: attr_step_def attr_start_def in_value_def Let_def nth_append)
  moreover have "[?k..<?k + Suc (length v)] = ?k # Suc ?k # [?k + 2..<?k + Suc (length v)]"
    using v by (simp add: upt_conv_Cons del: upt_Suc)
  ultimately show ?thesis by simp
qed

lemma attr_value_clean: "CHR '';'' \<notin> set (encode v)" "CHR 0x22 \<notin> set (encode v)"
  by (rule pct.enc_no_separator, simp add: field_separator_def)+

lemma attr_loop_attribute:
  assumes "attr_ok field" and "val = pre @ attribute field @ post"
  shows "attr_loop val [length pre..<length pre + length (attribute field)] attr_start result =
    Some (in_value (length pre) (fst field), result)"
proof -
  let ?n = "fst field" and ?v = "encode (snd field)"
  have "[length pre..<length pre + length (attribute field)] = [length pre..<length pre + length ?n] @
      [length pre + length ?n..<length pre + length ?n + Suc (length ?v)]"
    using upt_add_eq_append [of "length pre" "length pre + length ?n" "Suc (length ?v)"]
    by (simp add: attribute_def add.assoc del: upt_Suc)
  moreover have "attr_loop val [length pre..<length pre + length ?n] attr_start result =
      Some (attr_start\<lparr>name_start_pos := Some (length pre)\<rparr>, result)"
    by (rule attr_loop_name) (use assms in \<open>auto simp: attr_ok_def attribute_def\<close>)
  moreover have "attr_loop val [length pre + length ?n..<length pre + length ?n + Suc (length ?v)]
      (attr_start\<lparr>name_start_pos := Some (length pre)\<rparr>) result = Some (in_value (length pre) ?n, result)"
    by (rule attr_loop_value) (use assms attr_value_clean in \<open>auto simp: attr_ok_def attribute_def\<close>)
  ultimately show ?thesis
    by (simp only: attr_loop_append Option.bind.bind_lunit prod.case)
qed

text \<open>The attributes of a header field as a server writes them.\<close>

fun attributes_text :: "headers \<Rightarrow> bytes" where
  "attributes_text [] = []"
| "attributes_text [field] = attribute field"
| "attributes_text (field # attrs) = attribute field @ ''; '' @ attributes_text attrs"

lemma attr_loop_end:
  assumes "attr_ok field" and "val = pre @ attribute field"
  shows "attr_last val (in_value (length pre) (fst field)) result = Some (result @ [field])"
proof -
  have "last (encode (snd field)) \<in> set (encode (snd field))"
    using assms(1) by (intro last_in_set) (simp add: attr_ok_def)
  then have "last val \<noteq> CHR 0x22"
    using assms attr_value_clean(2) [of "snd field"] by (metis attribute_def attr_ok_def append_Cons
        append_is_Nil_conv encode_Nil_iff last_ConsR last_appendR list.distinct(1))
  with assms(2) show ?thesis
    by (simp add: attr_last_def in_value_def attribute_def substr_def substr_from_def size_sub_def pct.dec_enc)
qed

lemma attr_loop_next:
  assumes "attr_ok field" and "val = pre @ attribute field @ ''; '' @ post"
  shows "attr_loop val [length pre..<length pre + length (attribute field) + 2] attr_start result =
    Some (attr_start, result @ [field])"
proof -
  let ?k = "length pre + length (attribute field)"
  have nth: "val ! ?k = CHR '';''" "val ! Suc ?k = CHR '' ''"
    using assms(2) by (simp_all add: nth_append)
  have len: "Suc (length pre + length (fst field)) \<le> length val" "length pre \<le> length val"
    using assms(2) by (simp_all add: attribute_def)
  have dr: "take (length (fst field)) (drop (length pre) val) = fst field"
      "drop (Suc (length pre + length (fst field))) val = encode (snd field) @ ''; '' @ post"
    using assms(2) by (simp_all add: attribute_def)
  have "attr_step val ?k (in_value (length pre) (fst field)) result = Some (attr_start, result @ [field])"
    using nth(1) len dr
    by (simp add: attr_step_def in_value_def Let_def substr_def size_sub_def attribute_def pct.dec_enc)
  moreover have "attr_step val (Suc ?k) attr_start r = Some (attr_start, r)" for r
    using nth(2) by (simp add: attr_step_def attr_start_def Let_def)
  moreover have "[length pre..<?k + 2] = [length pre..<?k] @ [?k, Suc ?k]" by simp
  ultimately show ?thesis
    using attr_loop_attribute [OF assms] by (simp add: attr_loop_append)
qed

lemma attributes_parse_from:
  assumes "\<forall>field \<in> set attrs. attr_ok field" and "val = pre @ attributes_text attrs"
  shows "do { (st, result') \<leftarrow> attr_loop val [length pre..<length val] attr_start result;
      attr_last val st result' } = Some (result @ attrs)"
  using assms
proof (induction attrs arbitrary: pre result rule: attributes_text.induct)
  case 1
  then show ?case by (simp add: attr_last_def attr_start_def)
next
  case (2 field)
  then have "attr_ok field" and "val = pre @ attribute field" by simp_all
  with attr_loop_attribute [of field val pre "[]" result] attr_loop_end [of field val pre result]
  show ?case by simp
next
  case (3 field f fs)
  let ?pre = "pre @ attribute field @ ''; ''"
  have "val = ?pre @ attributes_text (f # fs)" using 3(3) by simp
  then have le: "length ?pre \<le> length val" by simp
  have "[length pre..<length val] = [length pre..<length ?pre] @ [length ?pre..<length val]"
    using le by (metis le_add1 length_append upt_add_eq_append le_iff_add)
  moreover have "attr_loop val [length pre..<length ?pre] attr_start result = Some (attr_start, result @ [field])"
    using attr_loop_next [of field val pre "attributes_text (f # fs)" result] 3(2,3) by simp
  moreover have "do { (st, result') \<leftarrow> attr_loop val [length ?pre..<length val] attr_start (result @ [field]);
      attr_last val st result' } = Some ((result @ [field]) @ f # fs)"
    by (rule 3(1)) (use 3(2) \<open>val = ?pre @ attributes_text (f # fs)\<close> in auto)
  ultimately show ?case
    by (simp only: attr_loop_append Option.bind.bind_lunit prod.case append_assoc append_Cons append_Nil)
qed

lemma attributes_parse_text:
  "\<forall>field \<in> set attrs. attr_ok field \<Longrightarrow> attributes_parse (attributes_text attrs) = Some attrs"
  using attributes_parse_from [of attrs "attributes_text attrs" "[]" "[]"]
  by (simp add: attributes_parse_def)

text \<open>An attribute with an empty value swallows what follows it.\<close>

lemma attributes_empty_value:
  "attributes_parse ''a=; b=c'' = Some [(''a'', ''; b=c'')]"
  by code_simp

section \<open>Properties\<close>

text \<open>
  Field names that are equal without regard to case hash to the same value, whatever the
  hash of the characters, as the unordered multimap requires.
\<close>
lemma hash_respects_equality:
  assumes "case_insensitive_equal a b"
  shows "CaseInsensitiveHash hash a = CaseInsensitiveHash hash b"
  using assms unfolding case_insensitive_equal_map hash_of_lower by simp

text \<open>
  The parser of header lines never throws, on any stream; what it leaves is a suffix of
  the stream, and no parsed name contains a colon or a line end.
\<close>
lemma header_parse_safe:
  "\<exists>header left. header_parse stream = Some (header, left) \<and> (\<exists>used. stream = used @ left) \<and>
    list_all (\<lambda>(name, val). CHR '':'' \<notin> set name \<and> LF \<notin> set name \<and> LF \<notin> set val) header"
  using header_parse_total [of stream] by (simp add: list_all_iff case_prod_beta)

text \<open>
  Written header lines are read back in order, and exactly the body is left, for names
  without colons and values that do not start with a space.
\<close>
lemma header_round_trip:
  assumes "\<forall>field \<in> set header. field_ok field"
  shows "header_parse (concat (map header_line header) @ crlf @ body) = Some (header, body)"
  by (rule header_parse_lines [OF assms])

text \<open>
  The parser of semicolon-separated attributes never throws, on any input.
\<close>
lemma attributes_parse_safe: "\<exists>result. attributes_parse val = Some result"
  by (rule attributes_parse_total)

text \<open>
  Attributes written with percent-encoded, nonempty values are read back in order.
\<close>
lemma attributes_round_trip:
  assumes "\<forall>field \<in> set attrs. attr_ok field"
  shows "attributes_parse (attributes_text attrs) = Some attrs"
  by (rule attributes_parse_text [OF assms])

end
