(* ===== verification/Http_Message.thy ===== *)
theory Http_Message
  imports Http_Header
begin

text \<open>
  \<open>RequestMessage::parse\<close> and \<open>ResponseMessage::parse\<close> of \<open>src/src/http/utility.hpp\<close>. The
  out-parameters are a record: it comes in with the values the caller has and goes out with
  those the parser has assigned, also when it returns false. Both functions are
  \<open>noexcept\<close>; \<^term>\<open>None\<close> is an exception of \<open>substr\<close> or \<open>compare\<close>, which would end the
  program. The last component of a result is what is left of the stream.
\<close>

section \<open>Data\<close>

record request_message =
  req_method :: bytes
  req_path :: bytes
  req_query :: bytes
  req_version :: bytes
  req_header :: headers

record response_message =
  res_version :: bytes
  res_status :: bytes
  res_header :: headers

section \<open>Requests\<close>

text \<open>
  The loop over the request target: every question mark that is not the last character of
  the line moves \<open>query_start\<close>; the first space ends the target.
\<close>

fun uri_scan :: "bytes \<Rightarrow> nat \<Rightarrow> bytes \<Rightarrow> nat option \<Rightarrow> nat option \<times> nat option" where
  "uri_scan line i [] query_start = (query_start, None)"
| "uri_scan line i (x # xs) query_start =
     (if x = CHR ''?'' \<and> i + 1 < length line then uri_scan line (i + 1) xs (Some (i + 1))
      else if x = CHR '' '' then (query_start, Some i)
      else uri_scan line (i + 1) xs query_start)"

definition request_target ::
  "bytes \<Rightarrow> nat \<Rightarrow> nat option \<Rightarrow> nat \<Rightarrow> request_message \<Rightarrow> request_message option" where
  "request_target line method_end query_start target_end m =
     (case query_start of
        Some q \<Rightarrow> do {
          path \<leftarrow> substr line (method_end + 1) (size_sub (size_sub q method_end) 2);
          query \<leftarrow> substr line q (size_sub target_end q);
          Some (m\<lparr>req_path := path, req_query := query\<rparr>)
        }
      | None \<Rightarrow> do {
          path \<leftarrow> substr line (method_end + 1) (size_sub (size_sub target_end method_end) 1);
          Some (m\<lparr>req_path := path\<rparr>)
        })"

definition request_parse :: "bytes \<Rightarrow> request_message \<Rightarrow> (bool \<times> request_message \<times> bytes) option" where
  "request_parse stream m0 =
     (case getline stream of
        None \<Rightarrow> Some (False, m0, stream)
      | Some (line, stream') \<Rightarrow>
        (case str_find line CHR '' '' 0 of
           None \<Rightarrow> Some (False, m0, stream')
         | Some method_end \<Rightarrow> do {
             meth \<leftarrow> substr line 0 method_end;
             let m1 = m0\<lparr>req_method := meth\<rparr>;
             case uri_scan line (method_end + 1) (drop (method_end + 1) line) None of
               (_, None) \<Rightarrow> Some (False, m1, stream')
             | (query_start, Some target_end) \<Rightarrow> do {
                 m2 \<leftarrow> request_target line method_end query_start target_end m1;
                 case str_find line CHR ''/'' (target_end + 1) of
                   None \<Rightarrow> Some (False, m2, stream')
                 | Some protocol_end \<Rightarrow> do {
                     proto \<leftarrow> substr line (target_end + 1) (size_sub (size_sub protocol_end target_end) 1);
                     if proto \<noteq> ''HTTP'' then Some (False, m2, stream')
                     else do {
                       version \<leftarrow> substr line (protocol_end + 1)
                                   (size_sub (size_sub (length line) protocol_end) 2);
                       (header, left) \<leftarrow> header_parse stream';
                       Some (True, m2\<lparr>req_version := version, req_header := header\<rparr>, left)
                     }
                   }
               }
           }))"

section \<open>Responses\<close>

definition response_parse :: "bytes \<Rightarrow> response_message \<Rightarrow> (bool \<times> response_message \<times> bytes) option" where
  "response_parse stream m0 =
     (case getline stream of
        None \<Rightarrow> Some (False, m0, stream)
      | Some (line, stream') \<Rightarrow>
        (case str_find line CHR '' '' 0 of
           None \<Rightarrow> Some (False, m0, stream')
         | Some version_end \<Rightarrow>
             if 5 < length line then do {
               version \<leftarrow> substr line 5 (size_sub version_end 5);
               let m1 = m0\<lparr>res_version := version\<rparr>;
               if version_end + 1 < length line then do {
                 status \<leftarrow> substr line (version_end + 1)
                   (size_sub (size_sub (length line) (version_end + 1)) (if last line = CR then 1 else 0));
                 (header, left) \<leftarrow> header_parse stream';
                 Some (True, m1\<lparr>res_status := status, res_header := header\<rparr>, left)
               }
               else Some (False, m1, stream')
             }
             else Some (False, m0, stream')))"

section \<open>The request target\<close>

lemma uri_scan_bounds:
  assumes "uri_scan line i xs q0 = (q, Some e)" and "i + length xs = length line"
    and "\<And>k. q0 = Some k \<Longrightarrow> k \<le> length line"
  shows "e < length line \<and> (\<forall>k. q = Some k \<longrightarrow> k \<le> length line)"
  using assms
proof (induction xs arbitrary: i q0)
  case Nil
  then show ?case by simp
next
  case (Cons x xs)
  show ?case
  proof (cases "x = CHR ''?'' \<and> i + 1 < length line")
    case True
    then show ?thesis using Cons.IH [of "i + 1" "Some (i + 1)"] Cons.prems by simp
  next
    case False
    then show ?thesis using Cons.IH [of "i + 1" q0] Cons.prems by (auto split: if_splits)
  qed
qed

lemma uri_scan_path:
  "CHR '' '' \<notin> set p \<Longrightarrow> CHR ''?'' \<notin> set p \<Longrightarrow>
    uri_scan line i (p @ CHR '' '' # rest) q0 = (q0, Some (i + length p))"
  by (induction p arbitrary: i) auto

lemma uri_scan_query:
  "CHR '' '' \<notin> set p \<Longrightarrow> CHR '' '' \<notin> set q \<Longrightarrow> CHR ''?'' \<notin> set q \<Longrightarrow>
    i + length (p @ CHR ''?'' # q @ CHR '' '' # rest) \<le> length line \<Longrightarrow>
    uri_scan line i (p @ CHR ''?'' # q @ CHR '' '' # rest) q0 =
      (Some (i + length p + 1), Some (i + length p + 1 + length q))"
proof (induction p arbitrary: i q0)
  case Nil
  then show ?case by (simp add: uri_scan_path)
next
  case (Cons x p)
  have "i + 1 + length (p @ CHR ''?'' # q @ CHR '' '' # rest) \<le> length line" using Cons.prems(4) by simp
  with Cons show ?case by auto
qed

section \<open>No exception\<close>

lemma request_target_total:
  assumes "method_end < length line" and "\<And>k. q = Some k \<Longrightarrow> k \<le> length line"
  shows "\<exists>m'. request_target line method_end q e m = Some m'"
  using assms by (auto simp: request_target_def substr_def split: option.split)

lemma request_parse_total: "\<exists>ok m left. request_parse stream m0 = Some (ok, m, left)"
proof (cases "getline stream")
  case None
  then show ?thesis by (auto simp: request_parse_def)
next
  case (Some ls)
  then obtain line stream' where g: "getline stream = Some (line, stream')" by (cases ls) auto
  show ?thesis
  proof (cases "str_find line CHR '' '' 0")
    case None
    with g show ?thesis by (auto simp: request_parse_def)
  next
    case (Some me)
    then have me: "me < length line" using str_find_less by blast
    obtain q e where u: "uri_scan line (me + 1) (drop (me + 1) line) None = (q, e)" by fastforce
    show ?thesis
    proof (cases e)
      case None
      with g Some me u show ?thesis by (auto simp: request_parse_def substr_def)
    next
      case e: (Some e')
      have b: "e' < length line" "\<And>k. q = Some k \<Longrightarrow> k \<le> length line"
        using uri_scan_bounds [of line "me + 1" "drop (me + 1) line" None q e'] u e me by auto
      obtain m2 where m2: "request_target line me q e' (m0\<lparr>req_method := take me line\<rparr>) = Some m2"
        using request_target_total [OF me b(2)] by blast
      show ?thesis
      proof (cases "str_find line CHR ''/'' (e' + 1)")
        case None
        with g Some me u e m2 show ?thesis by (auto simp: request_parse_def substr_def)
      next
        case pe: (Some pe)
        then have "pe < length line" using str_find_less by blast
        moreover obtain header left where "header_parse stream' = Some (header, left)"
          using header_parse_total [of stream'] by blast
        ultimately show ?thesis using g Some me u e m2 pe b(1)
          by (auto simp: request_parse_def substr_def)
      qed
    qed
  qed
qed

lemma response_parse_total: "\<exists>ok m left. response_parse stream m0 = Some (ok, m, left)"
proof (cases "getline stream")
  case None
  then show ?thesis by (auto simp: response_parse_def)
next
  case (Some ls)
  then obtain line stream' where g: "getline stream = Some (line, stream')" by (cases ls) auto
  show ?thesis
  proof (cases "str_find line CHR '' '' 0")
    case None
    with g show ?thesis by (auto simp: response_parse_def)
  next
    case (Some ve)
    obtain header left where "header_parse stream' = Some (header, left)"
      using header_parse_total [of stream'] by blast
    with g Some show ?thesis by (auto simp: response_parse_def substr_def Let_def)
  qed
qed

section \<open>Reading what was written\<close>

definition request_text :: "bytes \<Rightarrow> bytes \<Rightarrow> bytes \<Rightarrow> headers \<Rightarrow> bytes" where
  "request_text meth target version header =
     meth @ '' '' @ target @ '' HTTP/'' @ version @ crlf @ concat (map header_line header) @ crlf"

definition response_text :: "bytes \<Rightarrow> bytes \<Rightarrow> headers \<Rightarrow> bytes" where
  "response_text version status header =
     ''HTTP/'' @ version @ '' '' @ status @ crlf @ concat (map header_line header) @ crlf"

text \<open>A target is a path, or a path and a query with a question mark between.\<close>

definition target_text :: "bytes \<Rightarrow> bytes option \<Rightarrow> bytes" where
  "target_text path query = path @ (case query of None \<Rightarrow> [] | Some q \<Rightarrow> CHR ''?'' # q)"

definition target_ok :: "bytes \<Rightarrow> bytes option \<Rightarrow> bool" where
  "target_ok path query \<longleftrightarrow> CHR '' '' \<notin> set path \<and> LF \<notin> set path \<and>
     (case query of None \<Rightarrow> CHR ''?'' \<notin> set path
      | Some q \<Rightarrow> CHR '' '' \<notin> set q \<and> CHR ''?'' \<notin> set q \<and> LF \<notin> set q)"

lemma request_parse_text:
  assumes "CHR '' '' \<notin> set meth" and "LF \<notin> set meth" and "target_ok path query" and "LF \<notin> set version"
    and "\<forall>field \<in> set header. field_ok field"
  shows "request_parse (request_text meth (target_text path query) version header @ body) m0 =
    Some (True, \<lparr>req_method = meth, req_path = path,
                 req_query = (case query of None \<Rightarrow> req_query m0 | Some q \<Rightarrow> q),
                 req_version = version, req_header = header, \<dots> = request_message.more m0\<rparr>, body)"
proof -
  define line where "line = meth @ CHR '' '' # target_text path query @ '' HTTP/'' @ version @ [CR]"
  define te where "te = length meth + 1 + length (target_text path query)"
  define q where "q = (case query of None \<Rightarrow> None | Some _ \<Rightarrow> Some (length meth + 1 + length path + 1))"
  have "LF \<notin> set line"
    using assms(2-4) by (auto simp: line_def target_text_def target_ok_def split: option.splits)
  then have g: "getline (request_text meth (target_text path query) version header @ body) =
      Some (line, concat (map header_line header) @ crlf @ body)"
    using getline_line [of line] by (simp add: request_text_def line_def)
  have f: "str_find line CHR '' '' 0 = Some (length meth)"
    unfolding line_def using assms(1) by (rule str_find_append)
  have u: "uri_scan line (length meth + 1) (drop (length meth + 1) line) None = (q, Some te)"
  proof (cases query)
    case None
    then show ?thesis
      using assms(3) uri_scan_path [of path line "length meth + 1" "''HTTP/'' @ version @ [CR]" None]
      by (simp add: q_def te_def target_text_def target_ok_def) (simp add: line_def target_text_def)
  next
    case (Some qs)
    then show ?thesis
      using assms(3) uri_scan_query [of path qs "length meth + 1" "''HTTP/'' @ version @ [CR]" line None]
      by (simp add: q_def te_def target_text_def target_ok_def) (simp add: line_def target_text_def)
  qed
  have t: "request_target line (length meth) q te m = Some (m\<lparr>req_path := path,
      req_query := (case query of None \<Rightarrow> req_query m | Some s \<Rightarrow> s)\<rparr>)" for m
    by (cases query)
      (simp_all add: line_def q_def te_def request_target_def target_text_def substr_def size_sub_def)
  have p: "str_find line CHR ''/'' (te + 1) = Some (te + 5)"
    by (simp add: line_def te_def str_find_def)
  have m: "substr line 0 (length meth) = Some meth" by (simp add: line_def substr_def)
  have h: "substr line (te + 1) (size_sub (size_sub (te + 5) te) 1) = Some ''HTTP''"
    by (simp add: line_def te_def substr_def size_sub_def)
  have v: "substr line (te + 5 + 1) (size_sub (size_sub (length line) (te + 5)) 2) = Some version"
  proof -
    have "size_sub (size_sub (length line) (te + 5)) 2 = length version"
      by (simp add: line_def te_def size_sub_def)
    then show ?thesis
      using substr_middle [of "te + 5 + 1" "meth @ CHR '' '' # target_text path query @ '' HTTP/''"
          "length version" version "[CR]"] by (simp add: line_def te_def)
  qed
  show ?thesis
    unfolding request_parse_def g option.case prod.case f m u t p h v Option.bind.bind_lunit Let_def
      header_parse_lines [OF assms(5)] by (simp split: option.split)
qed

lemma response_parse_text:
  assumes "CHR '' '' \<notin> set version" and "LF \<notin> set version" and "LF \<notin> set status"
    and "\<forall>field \<in> set header. field_ok field"
  shows "response_parse (response_text version status header @ body) m0 =
    Some (True, \<lparr>res_version = version, res_status = status, res_header = header,
                 \<dots> = response_message.more m0\<rparr>, body)"
proof -
  define line where "line = (''HTTP/'' @ version) @ CHR '' '' # status @ [CR]"
  have "LF \<notin> set line" using assms(2,3) by (simp add: line_def)
  then have g: "getline (response_text version status header @ body) =
      Some (line, concat (map header_line header) @ crlf @ body)"
    using getline_line [of line] by (simp add: response_text_def line_def)
  have f: "str_find line CHR '' '' 0 = Some (length version + 5)"
    unfolding line_def using assms(1) by (subst str_find_append) simp_all
  have v: "substr line 5 (size_sub (length version + 5) 5) = Some version"
    by (simp add: line_def substr_def size_sub_def)
  have st: "substr line (length version + 5 + 1) (size_sub (size_sub (length line) (length version + 5 + 1))
      (if last line = CR then 1 else 0)) = Some status"
  proof -
    have "size_sub (size_sub (length line) (length version + 5 + 1)) (if last line = CR then 1 else 0) =
        length status"
      by (simp add: line_def size_sub_def)
    then show ?thesis
      using substr_middle [of "length version + 5 + 1" "''HTTP/'' @ version @ '' ''" "length status" status "[CR]"]
      by (simp add: line_def)
  qed
  have l: "(5 < length line) = True" "(length version + 5 + 1 < length line) = True"
    by (simp_all add: line_def)
  show ?thesis
    unfolding response_parse_def g option.case prod.case f v st l if_True Option.bind.bind_lunit Let_def
      header_parse_lines [OF assms(4)] by simp
qed

section \<open>Properties\<close>

text \<open>
  Neither parser throws, on any stream: every input ends in true or false.
\<close>
lemma message_parsers_safe:
  "(\<exists>ok m left. request_parse stream m1 = Some (ok, m, left)) \<and>
   (\<exists>ok m left. response_parse stream m2 = Some (ok, m, left))"
  using request_parse_total response_parse_total by blast

text \<open>
  A request written as method, target, version and header lines is read back part by
  part and exactly its body is left; the question mark that separates path and query is
  the last one of the target.
\<close>
lemma request_round_trip:
  assumes "CHR '' '' \<notin> set meth" and "LF \<notin> set meth" and "target_ok path query" and "LF \<notin> set version"
    and "\<forall>field \<in> set header. field_ok field"
  shows "request_parse (request_text meth (target_text path query) version header @ body) m0 =
    Some (True, \<lparr>req_method = meth, req_path = path,
                 req_query = (case query of None \<Rightarrow> req_query m0 | Some q \<Rightarrow> q),
                 req_version = version, req_header = header, \<dots> = request_message.more m0\<rparr>, body)"
  by (rule request_parse_text [OF assms])

text \<open>
  A response written as version, status and header lines is read back part by part and
  exactly its body is left.
\<close>
lemma response_round_trip:
  assumes "CHR '' '' \<notin> set version" and "LF \<notin> set version" and "LF \<notin> set status"
    and "\<forall>field \<in> set header. field_ok field"
  shows "response_parse (response_text version status header @ body) m0 =
    Some (True, \<lparr>res_version = version, res_status = status, res_header = header,
                 \<dots> = response_message.more m0\<rparr>, body)"
  by (rule response_parse_text [OF assms])

end
