(* ===== verification/Server_Response.thy ===== *)
theory Server_Response
  imports Http_Message Status_Code Numbers
begin

text \<open>
  \<open>ServerBase::Response\<close> of \<open>src/src/http/server_http.hpp\<close>: what the \<open>write\<close> functions put
  into the stream buffer, and the queue of buffers being sent. The writers append to the
  buffer, which goes to the socket when the response is destroyed or by \<open>send\<close>. At most one
  asynchronous write is under way, for the first buffer of the queue; its completion starts
  the next one, and an error calls all callbacks that wait.
\<close>

section \<open>Writing\<close>

record response =
  streambuf :: bytes
  close_connection_after_response :: bool

definition response_new :: response where
  "response_new = \<lparr>streambuf = [], close_connection_after_response = False\<rparr>"

definition put :: "bytes \<Rightarrow> response \<Rightarrow> response" where
  "put s r = r\<lparr>streambuf := streambuf r @ s\<rparr>"

fun write_fields :: "headers \<Rightarrow> bool \<Rightarrow> bool \<Rightarrow> response \<Rightarrow> bool \<times> bool \<times> response" where
  "write_fields [] content_length_written chunked_transfer_encoding r =
     (content_length_written, chunked_transfer_encoding, r)"
| "write_fields (field # header) content_length_written chunked_transfer_encoding r =
     (let is_length = (\<not> content_length_written \<and> case_insensitive_equal (fst field) ''content-length'');
          is_chunked = (\<not> is_length \<and> \<not> chunked_transfer_encoding \<and>
            case_insensitive_equal (fst field) ''transfer-encoding'' \<and>
            case_insensitive_equal (snd field) ''chunked'')
      in write_fields header (content_length_written \<or> is_length)
           (chunked_transfer_encoding \<or> is_chunked)
           (put (fst field @ '': '' @ snd field @ crlf) r))"

definition write_header :: "headers \<Rightarrow> nat \<Rightarrow> response \<Rightarrow> response" where
  "write_header header sz r =
     (let (content_length_written, chunked_transfer_encoding, r') = write_fields header False False r
      in if \<not> content_length_written \<and> \<not> chunked_transfer_encoding \<and>
            \<not> close_connection_after_response r'
         then put (''Content-Length: '' @ to_string sz @ crlf @ crlf) r'
         else put crlf r')"

definition write_status_line :: "StatusCode \<Rightarrow> response \<Rightarrow> response" where
  "write_status_line code r = put (''HTTP/1.1 '' @ status_code_text code @ crlf) r"

text \<open>The overloads of \<open>write\<close>: status and header; status, content and header; content and
  header; header only. The \<open>std::istream\<close> overloads write the content of the stream.\<close>

definition write_status :: "StatusCode \<Rightarrow> headers \<Rightarrow> response \<Rightarrow> response" where
  "write_status code header r = write_header header 0 (write_status_line code r)"

definition write_content :: "StatusCode \<Rightarrow> bytes \<Rightarrow> headers \<Rightarrow> response \<Rightarrow> response" where
  "write_content code content header r =
     (let r' = write_header header (length content) (write_status_line code r)
      in if content \<noteq> [] then put content r' else r')"

definition write_success :: "bytes \<Rightarrow> headers \<Rightarrow> response \<Rightarrow> response" where
  "write_success content header r = write_content (StatusCode_of success_ok) content header r"

definition write_header_only :: "headers \<Rightarrow> response \<Rightarrow> response" where
  "write_header_only header r = write_content (StatusCode_of success_ok) [] header r"

section \<open>Sending\<close>

text \<open>
  A callback is a value; a missing one is \<^term>\<open>None\<close>. \<open>in_flight\<close> counts the writes under
  way, \<open>wire\<close> lists the buffers given to the socket so far.
\<close>

record 'cb send_state =
  send_queue :: "(bytes \<times> 'cb option) list"
  in_flight :: nat
  wire :: "bytes list"

definition send_idle :: "'cb send_state" where
  "send_idle = \<lparr>send_queue = [], in_flight = 0, wire = []\<rparr>"

definition send_from_queue :: "'cb send_state \<Rightarrow> 'cb send_state outcome" where
  "send_from_queue s =
     (case send_queue s of
        [] \<Rightarrow> Undefined
      | (buf, cb) # q \<Rightarrow> Ok (s\<lparr>in_flight := Suc (in_flight s), wire := wire s @ [buf]\<rparr>))"

definition send :: "bytes \<Rightarrow> 'cb option \<Rightarrow> 'cb send_state \<Rightarrow> 'cb send_state outcome" where
  "send buf callback s =
     (let s' = s\<lparr>send_queue := send_queue s @ [(buf, callback)]\<rparr>
      in if length (send_queue s') = 1 then send_from_queue s' else Ok s')"

text \<open>
  The completion handler, when its scope is still alive: the callbacks to call, in order,
  after the lock is released.
\<close>

definition send_completed :: "bool \<Rightarrow> 'cb send_state \<Rightarrow> ('cb list \<times> 'cb send_state) outcome" where
  "send_completed failed s0 =
     (let s = s0\<lparr>in_flight := in_flight s0 - 1\<rparr> in
      if \<not> failed then
        (case send_queue s of
           [] \<Rightarrow> Undefined
         | (buf, callback) # q \<Rightarrow>
             (let s' = s\<lparr>send_queue := q\<rparr>; cbs = (case callback of None \<Rightarrow> [] | Some c \<Rightarrow> [c])
              in if 0 < length q
                 then (case send_from_queue s' of
                         Ok s'' \<Rightarrow> Ok (cbs, s'') | Throw \<Rightarrow> Throw | Undefined \<Rightarrow> Undefined)
                 else Ok (cbs, s')))
      else Ok (List.map_filter snd (send_queue s), s\<lparr>send_queue := []\<rparr>))"

section \<open>What is written\<close>

lemma put_simps [simp]:
  "streambuf (put s r) = streambuf r @ s"
  "close_connection_after_response (put s r) = close_connection_after_response r"
  by (simp_all add: put_def)

definition has_length :: "headers \<Rightarrow> bool" where
  "has_length header \<longleftrightarrow> (\<exists>field \<in> set header. case_insensitive_equal (fst field) ''content-length'')"

definition has_chunked :: "headers \<Rightarrow> bool" where
  "has_chunked header \<longleftrightarrow> (\<exists>field \<in> set header. case_insensitive_equal (fst field) ''transfer-encoding'' \<and>
     case_insensitive_equal (snd field) ''chunked'')"

lemma names_differ:
  "case_insensitive_equal n ''content-length'' \<Longrightarrow> \<not> case_insensitive_equal n ''transfer-encoding''"
  by (auto simp: case_insensitive_equal_def)

lemma write_fields_eq:
  "write_fields header l c r =
     (l \<or> has_length header, c \<or> has_chunked header, put (concat (map header_line header)) r)"
proof (induction header arbitrary: l c r)
  case Nil
  then show ?case by (simp add: has_length_def has_chunked_def put_def)
next
  case (Cons field header)
  then show ?case
    using names_differ [of "fst field"]
    by (auto simp: Let_def has_length_def has_chunked_def header_line_def put_def)
qed

definition framing :: "headers \<Rightarrow> nat \<Rightarrow> bool \<Rightarrow> headers" where
  "framing header sz close =
     (if has_length header \<or> has_chunked header \<or> close then header
      else header @ [(''Content-Length'', to_string sz)])"

lemma write_header_eq:
  "write_header header sz r =
     put (concat (map header_line (framing header sz (close_connection_after_response r))) @ crlf) r"
  by (auto simp: write_header_def write_fields_eq framing_def header_line_def put_def)

lemma write_content_eq:
  "streambuf (write_content code content header r) =
     streambuf r @ response_text ''1.1'' (status_code_text code)
       (framing header (length content) (close_connection_after_response r)) @ content"
  by (simp add: write_content_def write_header_eq write_status_line_def response_text_def Let_def)

lemma write_status_content: "write_status code header r = write_content code [] header r"
  by (simp add: write_status_def write_content_def Let_def)

lemma status_lines_clean: "list_all (\<lambda>(e, t). LF \<notin> set t) status_code_strings"
  by (simp add: status_code_strings_def status_code_names_def)

lemma status_code_text_clean: "LF \<notin> set (status_code_text code)"
proof (cases "map_of status_code_strings code")
  case None
  then show ?thesis by (simp add: status_code_text_def)
next
  case (Some line)
  from map_of_SomeD [OF this] status_lines_clean have "LF \<notin> set line" by (auto simp: list_all_iff)
  with Some show ?thesis by (simp add: status_code_text_def)
qed

lemma to_string_clean: "LF \<notin> set (to_string n)" "CHR '' '' \<notin> set (to_string n)"
  using to_string_digits [of n] is_digit_facts(6,7) by blast+

lemma to_string_field_ok: "CHR '':'' \<notin> set name \<Longrightarrow> LF \<notin> set name \<Longrightarrow> field_ok (name, to_string n)"
  unfolding field_ok_def fst_conv snd_conv
  using to_string_clean [of n] by (metis hd_in_set to_string_nonempty)

lemma framing_ok:
  "\<forall>field \<in> set header. field_ok field \<Longrightarrow> \<forall>field \<in> set (framing header n close). field_ok field"
  using to_string_field_ok [of "''Content-Length''" n] by (auto simp: framing_def)

lemma response_parse_written:
  assumes "\<forall>field \<in> set header. field_ok field"
  shows "response_parse (streambuf (write_content code content header response_new)) m0 =
    Some (True, \<lparr>res_version = ''1.1'', res_status = status_code_text code,
                 res_header = framing header (length content) False,
                 \<dots> = response_message.more m0\<rparr>, content)"
  unfolding write_content_eq response_new_def response.simps append_Nil
  by (rule response_parse_text) (use framing_ok [OF assms] status_code_text_clean in auto)

section \<open>What is sent\<close>

text \<open>At most one write is under way, for the first buffer of the queue.\<close>

definition wf_send :: "'cb send_state \<Rightarrow> bool" where
  "wf_send s \<longleftrightarrow> in_flight s = (if send_queue s = [] then 0 else 1)"

text \<open>The buffers accepted so far: those given to the socket and those waiting.\<close>

definition accepted :: "'cb send_state \<Rightarrow> bytes list" where
  "accepted s = wire s @ map fst (tl (send_queue s))"

datatype 'cb send_event = Send bytes "'cb option" | Completed bool

text \<open>
  A run of events: sends, and completions of the write that is under way. The result holds
  the callbacks called, in order.
\<close>

fun send_run :: "'cb send_event list \<Rightarrow> 'cb send_state \<Rightarrow> 'cb list \<Rightarrow> ('cb list \<times> 'cb send_state) outcome" where
  "send_run [] s cbs = Ok (cbs, s)"
| "send_run (Send buf callback # es) s cbs =
     (case send buf callback s of
        Ok s' \<Rightarrow> send_run es s' cbs | Throw \<Rightarrow> Throw | Undefined \<Rightarrow> Undefined)"
| "send_run (Completed failed # es) s cbs =
     (if in_flight s = 0 then send_run es s cbs
      else (case send_completed failed s of
              Ok (called, s') \<Rightarrow> send_run es s' (cbs @ called)
            | Throw \<Rightarrow> Throw | Undefined \<Rightarrow> Undefined))"

fun sent :: "'cb send_event list \<Rightarrow> (bytes \<times> 'cb option) list" where
  "sent [] = []"
| "sent (Send buf callback # es) = (buf, callback) # sent es"
| "sent (Completed failed # es) = sent es"

lemma send_ok [inv_intros]:
  assumes "wf_send s"
  shows "\<exists>s'. send buf callback s = Ok s' \<and> wf_send s' \<and>
    send_queue s' = send_queue s @ [(buf, callback)] \<and> accepted s' = accepted s @ [buf]"
  using assms
  by (cases "send_queue s") (auto simp: send_def send_from_queue_def wf_send_def accepted_def Let_def)

lemma send_completed_ok [inv_intros]:
  assumes "wf_send s" and "in_flight s \<noteq> 0"
  shows "\<exists>called s'. send_completed failed s = Ok (called, s') \<and> wf_send s' \<and>
    (\<not> failed \<longrightarrow> accepted s' = accepted s \<and> send_queue s' = tl (send_queue s) \<and>
       called = List.map_filter snd [hd (send_queue s)]) \<and>
    (failed \<longrightarrow> send_queue s' = [] \<and> wire s' = wire s \<and> called = List.map_filter snd (send_queue s))"
proof -
  obtain buf cb q where q: "send_queue s = (buf, cb) # q"
    using assms by (cases "send_queue s") (auto simp: wf_send_def)
  then have f: "in_flight s = Suc 0" using assms(1) by (simp add: wf_send_def)
  show ?thesis
  proof (cases failed)
    case True
    then show ?thesis using f by (simp add: send_completed_def wf_send_def Let_def)
  next
    case False
    then show ?thesis using f q
      by (cases q; cases cb)
        (simp_all add: send_completed_def send_from_queue_def wf_send_def accepted_def Let_def
          map_filter_simps split_beta)
  qed
qed

lemma send_run_ok:
  "wf_send s \<Longrightarrow> \<exists>called s'. send_run es s cbs = Ok (called, s') \<and> wf_send s' \<and>
    (Completed True \<notin> set es \<longrightarrow>
      accepted s' = accepted s @ map fst (sent es) \<and>
      called @ List.map_filter snd (send_queue s') =
        cbs @ List.map_filter snd (send_queue s @ sent es))"
proof (induction es arbitrary: s cbs)
  case Nil
  then show ?case by simp
next
  case (Cons e es)
  show ?case
  proof (cases e)
    case (Send buf callback)
    with send_ok [OF Cons.prems, of buf callback] obtain s1 where
      s1: "send buf callback s = Ok s1" "wf_send s1" "send_queue s1 = send_queue s @ [(buf, callback)]"
        "accepted s1 = accepted s @ [buf]" by blast
    from Cons.IH [OF s1(2), of cbs] show ?thesis
      using s1 Send by auto
  next
    case (Completed failed)
    show ?thesis
    proof (cases "in_flight s = 0")
      case True
      with Cons.IH [OF Cons.prems, of cbs] Completed show ?thesis by auto
    next
      case False
      obtain called s1 where c: "send_completed failed s = Ok (called, s1)" "wf_send s1"
        "\<not> failed \<longrightarrow> accepted s1 = accepted s \<and> send_queue s1 = tl (send_queue s) \<and>
           called = List.map_filter snd [hd (send_queue s)]"
        using send_completed_ok [OF Cons.prems False, of failed] by blast
      have "send_queue s \<noteq> []" using False Cons.prems by (auto simp: wf_send_def)
      then obtain x q where "send_queue s = x # q" by (cases "send_queue s") auto
      with Cons.IH [OF c(2), of "cbs @ called"] c Completed False show ?thesis
        by (cases failed) (auto simp: map_filter_simps split: option.splits)
    qed
  qed
qed

section \<open>Properties\<close>

text \<open>
  What a handler writes with a status, a content and well-formed header fields is read
  back by the client's parser: version 1.1, the status line of the code, the fields, and
  exactly the content as the body. Unless the handler frames the body itself, the last
  field is a Content-Length that converts back to the length of the content.
\<close>
lemma response_written_is_parsed:
  assumes "\<forall>field \<in> set header. field_ok field" and "length content < 2 ^ 64"
  shows "response_parse (streambuf (write_content code content header response_new)) m0 =
      Some (True, \<lparr>res_version = ''1.1'', res_status = status_code_text code,
                   res_header = framing header (length content) False,
                   \<dots> = response_message.more m0\<rparr>, content) \<and>
    (\<not> has_length header \<and> \<not> has_chunked header \<longrightarrow>
      (\<exists>n. last (framing header (length content) False) = (''Content-Length'', n) \<and>
           stoul 10 n = Ok (length content)))"
  using response_parse_written [OF assms(1)] stoul_to_string [OF assms(2)]
  by (simp add: framing_def)

text \<open>
  C37: However sends and completions interleave, the queue never breaks: at most one write
  is under way, and while no write has failed the buffers reach the socket in the order
  in which they were sent, and each callback is called once, in that order, when its
  buffer has been written.
\<close>
theorem send_queue_in_order:
  "\<exists>called s. send_run es send_idle [] = Ok (called, s) \<and> wf_send s \<and>
    (Completed True \<in> set es \<or>
      (wire s @ map fst (tl (send_queue s)) = map fst (sent es) \<and>
       called @ List.map_filter snd (send_queue s) = List.map_filter snd (sent es)))"
proof -
  have "wf_send (send_idle :: 'a send_state)" by (simp add: wf_send_def send_idle_def)
  from send_run_ok [OF this, of es "[]"] show ?thesis
    by (auto simp: send_idle_def accepted_def)
qed

end
