(* ===== verification/Gateway.thy ===== *)
theory Gateway
  imports Signal Observable Locations Numbers Server_Response
begin

text \<open>
  The gateway of \<open>src/src/http-server.cpp\<close>: the handlers of its resources, the callback that
  measures an observable, and the timer thread of \<open>src/src/clib/global_timer.hpp\<close> that emits
  it. The state is what the program keeps in its singletons: the observables with the
  position of the handle generator, the signal of the timer, whose callbacks are closures
  over a handle and therefore are handles, the static map from handles to slots, and the
  world outside (clock and network). Every handler and every callback holds the lock of the
  observables while it works, so they are atomic here.

  What is not code of the repository is the record \<open>env\<close>: the JSON property trees, the
  double parser and the circular buffer of Boost, the random generator, the clock and the
  outcome of an HTTP request.
\<close>

section \<open>The environment\<close>

text \<open>
  \<open>fetch https host path\<close> is a request with its event loop: nothing when an exception leaves
  it, and otherwise the contents of the response in the calls of the callback without an
  error. \<open>freed_word\<close> is what reading the captured handle gives once the closure that
  holds it has been deleted. \<open>left_first\<close>: C++14 leaves open whether the left operand of an
  assignment is evaluated before the right one.
\<close>

record ('w, 'p, 'd) env =
  clock :: "'w \<Rightarrow> time_point \<times> 'w"
  fetch :: "bool \<Rightarrow> bytes \<Rightarrow> bytes \<Rightarrow> 'w \<Rightarrow> bytes list option \<times> 'w"
  keygen :: generator
  push_back :: "'d push"
  read_json :: "bytes \<Rightarrow> 'p option"
  write_json :: "'p \<Rightarrow> bytes option"
  get_string :: "'p \<Rightarrow> bytes \<Rightarrow> bytes option"
  get_size :: "'p \<Rightarrow> bytes \<Rightarrow> nat option"
  get_double :: "'p \<Rightarrow> bytes \<Rightarrow> 'd option"
  empty_tree :: 'p
  put_string :: "bytes \<Rightarrow> bytes \<Rightarrow> 'p \<Rightarrow> 'p"
  put_int :: "bytes \<Rightarrow> int \<Rightarrow> 'p \<Rightarrow> 'p"
  put_double :: "bytes \<Rightarrow> 'd \<Rightarrow> 'p \<Rightarrow> 'p"
  push_child :: "'p \<Rightarrow> 'p \<Rightarrow> 'p"
  add_child :: "bytes \<Rightarrow> 'p \<Rightarrow> 'p \<Rightarrow> 'p"
  time_text :: "time_point \<Rightarrow> bytes"
  zero_value :: 'd
  junk_interval :: nat
  freed_word :: "'w \<Rightarrow> nat"
  left_first :: bool

section \<open>The state\<close>

record ('w, 'd) gateway =
  observables :: "'d observable sessions"
  draws :: nat
  timer :: "nat signal"
  observable_callbacks :: "nat \<Rightarrow> slot_handle option"
  world :: 'w

definition gateway_start :: "'w \<Rightarrow> ('w, 'd) gateway" where
  "gateway_start w = \<lparr>observables = observation_module, draws = 0,
     timer = signal_buffer default_max_callbacks, observable_callbacks = Map.empty, world = w\<rparr>"

text \<open>How a handler ends: by returning or by an exception, with what it wrote; or outside
  defined behaviour.\<close>

datatype ('w, 'd) handled = Replied response "('w, 'd) gateway" | Thrown response "('w, 'd) gateway" | Broken

section \<open>Replies\<close>

definition bad_input_format :: bytes where
  "bad_input_format = ''Bad format, json is expected''"
definition bad_input_members :: bytes where
  "bad_input_members = ''Bad format, members are missing''"
definition bad_input_interval :: bytes where
  "bad_input_interval = ''Bad interval in seconds, use int''"
definition bad_observable_handle :: bytes where
  "bad_observable_handle = ''Bad handle, no observable found''"
definition bad_input_param_location :: bytes where
  "bad_input_param_location = ''Bad param location, use: path.to.param''"
definition bad_input_device_location :: bytes where
  "bad_input_device_location = ''Bad URL, use: proto://address[:port]/[path]''"

definition bad_request :: "bytes \<Rightarrow> response" where
  "bad_request message = write_content (StatusCode_of client_error_bad_request) message [] response_new"

definition not_found :: response where
  "not_found = write_content (StatusCode_of client_error_not_found) bad_observable_handle [] response_new"

text \<open>\<open>write_json\<close> may throw, before anything is written to the response.\<close>

definition send_json_response :: "('w, 'p, 'd) env \<Rightarrow> 'p \<Rightarrow> response \<Rightarrow> response option" where
  "send_json_response env root response =
     (case write_json env root of
        None \<Rightarrow> None
      | Some reply \<Rightarrow> Some (put (''HTTP/1.1 200 OK'' @ crlf @ ''Content-Length: '' @
            to_string (length reply) @ crlf @ crlf @ reply) response))"

text \<open>Its two uses: outside a \<open>try\<close>, and in one whose handler replies that there is no such
  observable.\<close>

definition answer :: "('w, 'p, 'd) env \<Rightarrow> 'p \<Rightarrow> ('w, 'd) gateway \<Rightarrow> ('w, 'd) handled" where
  "answer env root st =
     (case send_json_response env root response_new of
        None \<Rightarrow> Thrown response_new st | Some response \<Rightarrow> Replied response st)"

definition try_answer :: "('w, 'p, 'd) env \<Rightarrow> 'p \<Rightarrow> ('w, 'd) gateway \<Rightarrow> ('w, 'd) handled" where
  "try_answer env root st =
     (case send_json_response env root response_new of
        None \<Rightarrow> Replied not_found st | Some response \<Rightarrow> Replied response st)"

definition result_success :: "('w, 'p, 'd) env \<Rightarrow> 'p" where
  "result_success env = put_string env ''result'' ''success'' (empty_tree env)"

definition observable2json :: "('w, 'p, 'd) env \<Rightarrow> 'd observable \<Rightarrow> nat \<Rightarrow> 'p" where
  "observable2json env obs handle =
     (let root = put_int env ''handle'' (int handle)
            (put_string env ''param'' (param_name obs)
              (put_string env ''name'' (device_name obs) (empty_tree env)));
          values = foldl (\<lambda>values entry.
            let cell = put_double env ''value'' (snd entry)
                  (put_string env ''date'' (time_text env (fst entry)) (empty_tree env))
            in push_child env cell values) (empty_tree env) (getValues obs)
      in add_child env ''values'' values root)"

section \<open>Measuring\<close>

text \<open>The property tree of a response; \<^term>\<open>None\<close> when the client throws. Every call of the
  callback without an error parses what it gets; parsing that fails leaves the tree as it is.\<close>

definition response2json ::
  "('w, 'p, 'd) env \<Rightarrow> bool \<Rightarrow> bytes \<Rightarrow> bytes \<Rightarrow> 'w \<Rightarrow> 'p option \<times> 'w" where
  "response2json env https device_location device_path w =
     (case fetch env https device_location device_path w of
        (None, w') \<Rightarrow> (None, w')
      | (Some contents, w') \<Rightarrow>
          (Some (foldl (\<lambda>root content. case read_json env content of None \<Rightarrow> root | Some root' \<Rightarrow> root')
             (empty_tree env) contents), w'))"

definition http_response2json ::
  "('w, 'p, 'd) env \<Rightarrow> bytes \<Rightarrow> bytes \<Rightarrow> 'w \<Rightarrow> 'p option \<times> 'w" where
  "http_response2json env = response2json env False"

definition https_response2json ::
  "('w, 'p, 'd) env \<Rightarrow> bytes \<Rightarrow> bytes \<Rightarrow> 'w \<Rightarrow> 'p option \<times> 'w" where
  "https_response2json env = response2json env True"

text \<open>\<open>duration_cast<seconds>\<close> truncates towards zero; comparing the count with a \<open>size_t\<close>
  converts it to an unsigned value.\<close>

definition seconds_of :: "int \<Rightarrow> int" where
  "seconds_of d = (if 0 \<le> d then d div 10 ^ 9 else - (- d div 10 ^ 9))"

definition as_unsigned :: "int \<Rightarrow> nat" where
  "as_unsigned i = nat (i mod 2 ^ 64)"

definition measured_value :: "('w, 'p, 'd) env \<Rightarrow> 'd observable \<Rightarrow> 'w \<Rightarrow> 'd \<times> 'w" where
  "measured_value env obs w =
     (let value_of = (\<lambda>(root, w'). (case root of
            None \<Rightarrow> zero_value env
          | Some root \<Rightarrow> (case get_double env root (param_location obs) of
                            None \<Rightarrow> zero_value env | Some v \<Rightarrow> v), w'))
      in case protocol obs of
           ProtocolHTTP \<Rightarrow> value_of (http_response2json env (hostname obs) (path obs) w)
         | ProtocolHTTPS \<Rightarrow> value_of (https_response2json env (hostname obs) (path obs) w)
         | _ \<Rightarrow> (zero_value env, w))"

definition observe :: "('w, 'p, 'd) env \<Rightarrow> 'd observable \<Rightarrow> 'w \<Rightarrow> 'd observable \<times> 'w" where
  "observe env obs w0 =
     (let (now, w) = clock env w0; secs = seconds_of (now - latest_observation obs)
      in if interval obs \<le> as_unsigned secs
         then let (v, w) = measured_value env obs w;
                  (added, w) = clock env w;
                  obs = addValue (push_back env) added v obs;
                  (done_at, w) = clock env w
              in (obs\<lparr>latest_observation := done_at\<rparr>, w)
         else (obs, w))"

text \<open>
  The callback in cell \<open>p\<close>, a closure over \<open>handle\<close>. When the observable is gone it disconnects
  the slot the map holds for its handle, null if the map holds none, and erases that entry;
  if the slot was its own, the handle it erases is read from freed memory.
\<close>

definition timer_callback ::
  "('w, 'p, 'd) env \<Rightarrow> nat \<Rightarrow> nat \<Rightarrow> ('w, 'd) gateway \<Rightarrow> ('w, 'd) gateway outcome" where
  "timer_callback env p handle st =
     (case get (observables st) handle of
        Ok obs \<Rightarrow>
          (let (obs', w) = observe env obs (world st)
           in case modify (observables st) handle (\<lambda>_. obs') of
                Ok table' \<Rightarrow> Ok (st\<lparr>observables := table', world := w\<rparr>)
              | Throw \<Rightarrow> Throw | Undefined \<Rightarrow> Undefined)
      | Throw \<Rightarrow>
          (let entry = (case observable_callbacks st handle of None \<Rightarrow> None | Some h \<Rightarrow> h);
               callbacks = (observable_callbacks st)(handle \<mapsto> entry)
           in case disconnect (timer st) entry of
                Ok timer' \<Rightarrow>
                  (let key = (if entry = Some p then freed_word env (world st) else handle)
                   in Ok (st\<lparr>timer := timer', observable_callbacks := callbacks(key := None)\<rparr>))
              | Throw \<Rightarrow> Throw | Undefined \<Rightarrow> Undefined)
      | Undefined \<Rightarrow> Undefined)"

definition tick :: "('w, 'p, 'd) env \<Rightarrow> ('w, 'd) gateway \<Rightarrow> ('w, 'd) gateway outcome" where
  "tick env st = emit timer (timer_callback env) st"

text \<open>One round of the timer thread, which never sleeps: it emits once a second has passed
  since \<open>basis\<close>. An exception that leaves \<open>emit\<close> ends the program.\<close>

definition execute_round ::
  "('w, 'p, 'd) env \<Rightarrow> time_point \<times> ('w, 'd) gateway \<Rightarrow> (time_point \<times> ('w, 'd) gateway) outcome" where
  "execute_round env bst =
     (case bst of (basis, st) \<Rightarrow>
        let (now, w) = clock env (world st); st = st\<lparr>world := w\<rparr>
        in if 1 \<le> seconds_of (now - basis)
           then (case tick env st of
                   Ok st \<Rightarrow> (let (basis, w) = clock env (world st) in Ok (basis, st\<lparr>world := w\<rparr>))
                 | Throw \<Rightarrow> Throw | Undefined \<Rightarrow> Undefined)
           else Ok (basis, st))"

section \<open>Resources\<close>

definition get_uptime ::
  "('w, 'p, 'd) env \<Rightarrow> time_point \<Rightarrow> ('w, 'd) gateway \<Rightarrow> ('w, 'd) handled" where
  "get_uptime env start_time st =
     (let (now, w) = clock env (world st);
          root = put_int env ''uptime'' (seconds_of (now - start_time)) (empty_tree env)
      in answer env root (st\<lparr>world := w\<rparr>))"

definition protocol_of :: "bytes \<Rightarrow> Protocol" where
  "protocol_of scheme =
     (if scheme = ''http'' then ProtocolHTTP
      else if scheme = ''coap'' then ProtocolCOAP
      else if scheme = ''https'' then ProtocolHTTPS
      else if scheme = ''coaps'' then ProtocolCOAPS
      else ProtocolHTTPS)"

text \<open>The first part of \<open>add-new-observable\<close>: the message of a bad request, or the members
  of the observable to create, as the update of a new one.\<close>

definition dispatch_add ::
  "('w, 'p, 'd) env \<Rightarrow> bytes \<Rightarrow> bytes + ('d observable \<Rightarrow> 'd observable)" where
  "dispatch_add env content =
     (case read_json env content of
        None \<Rightarrow> Inl bad_input_format
      | Some root \<Rightarrow>
     (case get_string env root ''device-location'' of
        None \<Rightarrow> Inl bad_input_members
      | Some device_location \<Rightarrow>
     (case regex_match device_location_regex device_location of
        None \<Rightarrow> Inl bad_input_device_location
      | Some details \<Rightarrow>
     (case get_string env root ''param-location'' of
        None \<Rightarrow> Inl bad_input_members
      | Some location \<Rightarrow>
      if regex_match param_location_regex location = None then Inl bad_input_param_location
      else
     (case get_string env root ''device-name'' of
        None \<Rightarrow> Inl bad_input_members
      | Some device \<Rightarrow>
     (case get_string env root ''param-name'' of
        None \<Rightarrow> Inl bad_input_members
      | Some param \<Rightarrow>
     (case get_size env root ''interval'' of
        None \<Rightarrow> Inl bad_input_interval
      | Some seconds \<Rightarrow>
          Inr (\<lambda>obs. obs\<lparr>param_location := location, device_name := device, param_name := param,
                 interval := seconds, protocol := protocol_of (group details 1),
                 hostname := group details 2, path := group details 3\<rparr>))))))))"

definition add_new_observable ::
  "('w, 'p, 'd) env \<Rightarrow> bytes \<Rightarrow> ('w, 'd) gateway \<Rightarrow> ('w, 'd) handled option" where
  "add_new_observable env content st =
     (case dispatch_add env content of
        Inl message \<Rightarrow> Some (Replied (bad_request message) st)
      | Inr members \<Rightarrow>
     (let (now, w) = clock env (world st) in
      case create (keygen env) (observables st) (draws st) (observable_new now (junk_interval env)) of
        None \<Rightarrow> None
      | Some Throw \<Rightarrow> Some (Thrown response_new st)
      | Some Undefined \<Rightarrow> Some Broken
      | Some (Ok (handle, k, table0)) \<Rightarrow>
     (case modify table0 handle members of
        Throw \<Rightarrow> Some (Thrown response_new (st\<lparr>observables := table0, draws := k, world := w\<rparr>))
      | Undefined \<Rightarrow> Some Broken
      | Ok table' \<Rightarrow>
     (let st' = st\<lparr>observables := table', draws := k, world := w\<rparr> in
      case connect (timer st') handle of
        Throw \<Rightarrow>
          Some (Thrown response_new
            (if left_first env \<and> observable_callbacks st' handle = None
             then st'\<lparr>observable_callbacks := (observable_callbacks st')(handle \<mapsto> None)\<rparr> else st'))
      | Undefined \<Rightarrow> Some Broken
      | Ok (slot_handle, timer') \<Rightarrow>
          Some (answer env (put_int env ''handle'' (int handle) (result_success env))
            (st'\<lparr>timer := timer',
                 observable_callbacks := (observable_callbacks st')(handle \<mapsto> slot_handle)\<rparr>))))))"

text \<open>The handle in the path is converted outside every \<open>try\<close>.\<close>

definition with_handle ::
  "captures \<Rightarrow> ('w, 'd) gateway \<Rightarrow> (nat \<Rightarrow> ('w, 'd) handled) \<Rightarrow> ('w, 'd) handled" where
  "with_handle path_match st body =
     (case stoi (group path_match 1) of
        Ok v \<Rightarrow> body (as_unsigned v)
      | Throw \<Rightarrow> Thrown response_new st
      | Undefined \<Rightarrow> Broken)"

definition dispatch_update :: "('w, 'p, 'd) env \<Rightarrow> bytes \<Rightarrow> bytes + (bytes \<times> bytes \<times> bytes)" where
  "dispatch_update env content =
     (case read_json env content of
        None \<Rightarrow> Inl bad_input_format
      | Some root \<Rightarrow>
     (case get_string env root ''param-location'' of
        None \<Rightarrow> Inl bad_input_members
      | Some location \<Rightarrow>
      if regex_match param_location_regex location = None then Inl bad_input_param_location
      else
     (case get_string env root ''device-name'' of
        None \<Rightarrow> Inl bad_input_members
      | Some device \<Rightarrow>
     (case get_string env root ''param-name'' of
        None \<Rightarrow> Inl bad_input_members
      | Some param \<Rightarrow> Inr (location, device, param)))))"

definition relocate :: "bytes \<Rightarrow> 'd observable \<Rightarrow> 'd observable" where
  "relocate location obs =
     (if param_location obs \<noteq> location then clearValues (obs\<lparr>param_location := location\<rparr>) else obs)"

definition update_observable ::
  "('w, 'p, 'd) env \<Rightarrow> captures \<Rightarrow> bytes \<Rightarrow> ('w, 'd) gateway \<Rightarrow> ('w, 'd) handled" where
  "update_observable env path_match content st =
     with_handle path_match st (\<lambda>handle.
       case dispatch_update env content of
         Inl message \<Rightarrow> Replied (bad_request message) st
       | Inr (location, device, param) \<Rightarrow>
      (case modify (observables st) handle
              (\<lambda>obs. (relocate location obs)\<lparr>device_name := device, param_name := param\<rparr>) of
         Throw \<Rightarrow> Replied not_found st
       | Undefined \<Rightarrow> Broken
       | Ok table' \<Rightarrow>
           try_answer env (result_success env) (st\<lparr>observables := table'\<rparr>)))"

definition remove_observable ::
  "('w, 'p, 'd) env \<Rightarrow> captures \<Rightarrow> ('w, 'd) gateway \<Rightarrow> ('w, 'd) handled" where
  "remove_observable env path_match st =
     with_handle path_match st (\<lambda>handle.
       case remove (observables st) handle of
         Throw \<Rightarrow> Replied not_found st
       | Undefined \<Rightarrow> Broken
       | Ok table' \<Rightarrow>
           try_answer env (result_success env) (st\<lparr>observables := table'\<rparr>))"

text \<open>\<open>observe-once\<close> answers only the two HTTP schemes.\<close>

definition observe_once ::
  "('w, 'p, 'd) env \<Rightarrow> bytes \<Rightarrow> ('w, 'd) gateway \<Rightarrow> ('w, 'd) handled" where
  "observe_once env content st =
     (case read_json env content of
        None \<Rightarrow> Replied (bad_request bad_input_format) st
      | Some root \<Rightarrow>
     (case get_string env root ''device-location'' of
        None \<Rightarrow> Replied (bad_request bad_input_members) st
      | Some device_location \<Rightarrow>
     (case regex_match device_location_regex device_location of
        None \<Rightarrow> Replied (bad_request bad_input_device_location) st
      | Some details \<Rightarrow>
     (let forward = (\<lambda>(root, w).
            case root of
              None \<Rightarrow> Thrown response_new (st\<lparr>world := w\<rparr>)
            | Some root \<Rightarrow> answer env root (st\<lparr>world := w\<rparr>))
      in if group details 1 = ''http''
         then forward (http_response2json env (group details 2) (group details 3) (world st))
         else if group details 1 = ''https''
         then forward (https_response2json env (group details 2) (group details 3) (world st))
         else Replied response_new st))))"

definition get_iotdata_all ::
  "('w, 'p, 'd) env \<Rightarrow> ('w, 'd) gateway \<Rightarrow> ('w, 'd) handled" where
  "get_iotdata_all env st =
     (let children = foldl (\<lambda>children entry.
            push_child env (observable2json env (fst entry) (snd entry)) children)
            (empty_tree env) (collect (observables st))
      in answer env (add_child env ''observables'' children (empty_tree env)) st)"

definition get_iotdata ::
  "('w, 'p, 'd) env \<Rightarrow> captures \<Rightarrow> ('w, 'd) gateway \<Rightarrow> ('w, 'd) handled" where
  "get_iotdata env path_match st =
     with_handle path_match st (\<lambda>handle.
       case get (observables st) handle of
         Throw \<Rightarrow> Replied not_found st
       | Undefined \<Rightarrow> Broken
       | Ok obs \<Rightarrow> try_answer env (observable2json env obs handle) st)"

end
