(* ===== verification/Gateway_Invariants.thy ===== *)
theory Gateway_Invariants
  imports Gateway
begin

text \<open>
  The invariant that ties the components of the gateway together. A callback of the timer
  finds its own slot under its handle in \<open>observable_callbacks\<close>, so that it can disconnect
  itself when its observable has been removed. Requests keep the invariant as long as
  \<open>create\<close> draws no handle that a callback of a removed observable still holds, and under it
  no tick ends the program. The contracts of the signal and of the session store are used
  through the interpretations \<open>sig\<close> and \<open>ses\<close>.
\<close>

section \<open>Requests\<close>

datatype request =
    Add bytes | Update captures bytes | Remove captures | Observe_once bytes
  | Get_uptime time_point | Get_iotdata_all | Get_iotdata captures

definition handle_request ::
  "('w, 'p, 'd) env \<Rightarrow> request \<Rightarrow> ('w, 'd) gateway \<Rightarrow> ('w, 'd) handled option" where
  "handle_request env req st =
     (case req of
        Add content \<Rightarrow> add_new_observable env content st
      | Update path_match content \<Rightarrow> Some (update_observable env path_match content st)
      | Remove path_match \<Rightarrow> Some (remove_observable env path_match st)
      | Observe_once content \<Rightarrow> Some (observe_once env content st)
      | Get_uptime start_time \<Rightarrow> Some (get_uptime env start_time st)
      | Get_iotdata_all \<Rightarrow> Some (get_iotdata_all env st)
      | Get_iotdata path_match \<Rightarrow> Some (get_iotdata env path_match st))"

fun result_state :: "('w, 'd) handled \<Rightarrow> ('w, 'd) gateway option" where
  "result_state (Replied _ st) = Some st"
| "result_state (Thrown _ st) = Some st"
| "result_state Broken = None"

section \<open>The invariant\<close>

definition registered :: "('w, 'd) gateway \<Rightarrow> nat \<Rightarrow> bool" where
  "registered st h \<longleftrightarrow> (\<exists>p. slot (timer st) (Some p) = Some h)"

definition observed :: "('w, 'd) gateway \<Rightarrow> nat \<Rightarrow> 'd observable option" where
  "observed st = session (observables st)"

definition gateway_ok :: "('w, 'd) gateway \<Rightarrow> bool" where
  "gateway_ok st \<longleftrightarrow> wf_signal (timer st) \<and> wf_sessions (observables st) \<and>
     max_sessions (observables st) = 10000 \<and>
     (\<forall>p h. slot (timer st) (Some p) = Some h \<longrightarrow>
        observable_callbacks st h = Some (Some p) \<and> h \<le> 10000)"

text \<open>What the invariant needs of the environment: the generator stays in its range, and
  reading a freed handle gives no handle (freed memory holds addresses).\<close>

definition env_ok :: "('w, 'p, 'd) env \<Rightarrow> bool" where
  "env_ok env \<longleftrightarrow> (\<forall>n k. keygen env n k \<le> n) \<and> (\<forall>w. 10000 < freed_word env w)"

text \<open>The handles a step adds are not those of callbacks that are still connected.\<close>

definition no_reuse :: "('w, 'd) gateway \<Rightarrow> ('w, 'd) gateway \<Rightarrow> bool" where
  "no_reuse st st' \<longleftrightarrow> (\<forall>h. observed st h = None \<and> observed st' h \<noteq> None \<longrightarrow> \<not> registered st h)"

lemma gateway_okD:
  assumes "gateway_ok st"
  shows "wf_signal (timer st)" and "wf_sessions (observables st)"
    and "max_sessions (observables st) = 10000"
    and "slot (timer st) (Some p) = Some h \<Longrightarrow> observable_callbacks st h = Some (Some p)"
    and "slot (timer st) (Some p) = Some h \<Longrightarrow> h \<le> 10000"
  using assms by (simp_all add: gateway_ok_def)

lemma registered_slot_unique:
  assumes "gateway_ok st" and "slot (timer st) (Some p) = Some h" and "slot (timer st) (Some q) = Some h"
  shows "p = q"
  using gateway_okD(4) [OF assms(1,2)] gateway_okD(4) [OF assms(1,3)] by simp

lemma gateway_ok_start: "gateway_ok (gateway_start w)"
  by (simp add: gateway_ok_def gateway_start_def wf_signal_buffer observation_module_def)
    (simp add: sessions_new_def)

lemma gateway_ok_observables:
  assumes "gateway_ok st" and "wf_sessions t" and "max_sessions t = max_sessions (observables st)"
  shows "gateway_ok (st\<lparr>observables := t, draws := k, world := w\<rparr>)"
    and "gateway_ok (st\<lparr>observables := t\<rparr>)" and "gateway_ok (st\<lparr>world := w\<rparr>)"
  using assms by (simp_all add: gateway_ok_def)

section \<open>Requests keep the invariant\<close>

lemma answer_state [simp]:
  "result_state (answer env root st) = Some st" "result_state (try_answer env root st) = Some st"
  by (simp_all add: answer_def try_answer_def split: option.split)

definition keeps :: "('w, 'd) gateway \<Rightarrow> ('w, 'd) handled \<Rightarrow> bool" where
  "keeps st r \<longleftrightarrow> (\<exists>st'. result_state r = Some st' \<and> (no_reuse st st' \<longrightarrow> gateway_ok st'))"

lemma keeps_same [inv_intros]: "gateway_ok st \<Longrightarrow> result_state r = Some st \<Longrightarrow> keeps st r"
  by (simp add: keeps_def)

lemma keeps_with_handle [inv_intros]:
  assumes "gateway_ok st" and "\<And>handle. keeps st (body handle)"
  shows "keeps st (with_handle path_match st body)"
proof (cases "stoi (group path_match 1)")
  case Undefined
  then show ?thesis by (simp add: stoi_def Let_def split: option.splits prod.splits if_splits)
qed (use assms in \<open>simp_all add: with_handle_def keeps_def\<close>)

lemma keeps_table [inv_intros]:
  assumes "gateway_ok st" and "result_state r = Some (st\<lparr>observables := t\<rparr>)"
    and "wf_sessions t" and "max_sessions t = max_sessions (observables st)"
  shows "keeps st r"
  using gateway_ok_observables(2) [OF assms(1,3,4)] assms(2) by (simp add: keeps_def)

lemma update_keeps [inv_intros]:
  assumes "gateway_ok st"
  shows "keeps st (update_observable env path_match content st)"
  unfolding update_observable_def
proof (rule keeps_with_handle [OF assms], goal_cases)
  case (1 handle)
  show ?case
  proof (cases "dispatch_update env content")
    case (Inl message)
    then show ?thesis by (simp add: keeps_same [OF assms])
  next
    case (Inr m)
    obtain location device param where m: "m = (location, device, param)" by (cases m) auto
    let ?f = "\<lambda>obs. (relocate location obs)\<lparr>device_name := device, param_name := param\<rparr>"
    show ?thesis
    proof (cases "session (observables st) handle")
      case None
      have "modify (observables st) handle ?f = Throw"
        by (rule ses.upd_dead [OF gateway_okD(2) [OF assms] None])
      with Inr m show ?thesis by (simp add: keeps_same [OF assms])
    next
      case (Some obs)
      obtain t where t: "modify (observables st) handle ?f = Ok t" "wf_sessions t"
        "max_sessions t = max_sessions (observables st)"
        using ses.upd_live [OF gateway_okD(2) [OF assms] Some, of ?f] by (elim exE conjE that)
      show ?thesis
        by (rule keeps_table [OF assms _ t(2,3)]) (simp add: Inr m t(1))
    qed
  qed
qed

lemma remove_keeps [inv_intros]:
  assumes "gateway_ok st"
  shows "keeps st (remove_observable env path_match st)"
  unfolding remove_observable_def
proof (rule keeps_with_handle [OF assms], goal_cases)
  case (1 handle)
  show ?case
  proof (cases "session (observables st) handle")
    case None
    have "remove (observables st) handle = Throw"
      by (rule ses.del_dead [OF gateway_okD(2) [OF assms] None])
    then show ?thesis by (simp add: keeps_same [OF assms])
  next
    case (Some obs)
    obtain t where t: "remove (observables st) handle = Ok t" "wf_sessions t"
      "max_sessions t = max_sessions (observables st)"
      using ses.del_live [OF gateway_okD(2) [OF assms] Some] by (elim exE conjE that)
    show ?thesis by (rule keeps_table [OF assms _ t(2,3)]) (simp add: t(1))
  qed
qed

lemma get_iotdata_keeps [inv_intros]:
  assumes "gateway_ok st"
  shows "keeps st (get_iotdata env path_match st)"
  unfolding get_iotdata_def
  by (rule keeps_with_handle [OF assms])
    (auto simp: get_session intro!: keeps_same [OF assms] split: option.split)

lemma keeps_world:
  assumes "gateway_ok st" and "result_state r = Some (st\<lparr>world := w\<rparr>)"
  shows "keeps st r"
  using gateway_ok_observables(3) [OF assms(1), of "observables st" w] assms
  by (simp add: keeps_def gateway_okD)

lemma get_uptime_keeps [inv_intros]: "gateway_ok st \<Longrightarrow> keeps st (get_uptime env start_time st)"
  by (rule keeps_world [where w = "snd (clock env (world st))"])
    (simp_all add: get_uptime_def case_prod_beta Let_def)

lemma get_iotdata_all_keeps [inv_intros]: "gateway_ok st \<Longrightarrow> keeps st (get_iotdata_all env st)"
  by (rule keeps_same) (simp_all add: get_iotdata_all_def Let_def)

lemma observe_once_keeps [inv_intros]:
  assumes "gateway_ok st"
  shows "keeps st (observe_once env content st)"
proof -
  have "keeps st (case r of (root, w) \<Rightarrow> case root of
      None \<Rightarrow> Thrown response_new (st\<lparr>world := w\<rparr>) | Some root \<Rightarrow> answer env root (st\<lparr>world := w\<rparr>))" for r
    by (cases r) (auto intro!: keeps_world [OF assms] split: option.split)
  then show ?thesis
    by (auto simp: observe_once_def Let_def intro!: keeps_same [OF assms] split: option.split)
qed

lemma created_handle:
  assumes "env_ok env" and "wf_sessions s" and "create (keygen env) s k v = Some (Ok (h, k', s'))"
  shows "h \<le> max_sessions s"
proof -
  have "draw_free (keygen env) (max_sessions s) (table s) k = Some (h, k')"
    using assms(3) by (auto simp: create_def split: if_splits)
  from draw_free_fresh [OF this] assms(1) show ?thesis by (simp add: env_ok_def)
qed

lemma connected_ok:
  assumes ok: "gateway_ok st" and h: "h \<le> 10000" and n: "\<not> registered st h"
    and c: "connect (timer st) h = Ok (sl, tm)"
  shows "gateway_ok (st\<lparr>timer := tm, observable_callbacks := (observable_callbacks st)(h \<mapsto> sl)\<rparr>)"
proof -
  note s = sig.conn_ok [OF gateway_okD(1) [OF ok] c]
  then have "slot tm sl = Some h" by simp
  then obtain p where p: "sl = Some p" by (cases sl) auto
  have "slot (timer st) (Some q) = Some g \<Longrightarrow> g \<noteq> h" for q g
    using n by (auto simp: registered_def)
  then show ?thesis using s ok h p by (auto simp: gateway_ok_def split: if_splits)
qed

text \<open>The outcomes of \<open>add-new-observable\<close>: nothing has changed, or an observable was created
  and its callback connected, or created and not connected.\<close>

lemma add_cases:
  fixes st :: "('w, 'd) gateway"
  assumes ok: "gateway_ok st" and r: "add_new_observable env content st = Some r"
  obtains (same) "result_state r = Some st"
    | (connected) h v t k w sl tm where "env_ok env \<Longrightarrow> h \<le> 10000" and "wf_sessions t"
      and "max_sessions t = max_sessions (observables st)" and "observed st h = None" and "session t = (observed st)(h \<mapsto> v)"
      and "connect (timer st) h = Ok (sl, tm)" and "result_state r = Some (st\<lparr>observables := t, draws := k, world := w,
        timer := tm, observable_callbacks := (observable_callbacks st)(h \<mapsto> sl)\<rparr>)"
    | (orphan) h v t k w cbs where "wf_sessions t" and "max_sessions t = max_sessions (observables st)"
      and "observed st h = None" and "session t = (observed st)(h \<mapsto> v)"
      and "\<And>g x. observable_callbacks st g = Some x \<Longrightarrow> cbs g = Some x"
      and "result_state r = Some (st\<lparr>observables := t, draws := k, world := w, observable_callbacks := cbs\<rparr>)"
proof (cases "dispatch_add env content")
  case (Inl message)
  with r show thesis by (intro same) (auto simp: add_new_observable_def)
next
  case (Inr members)
  note wf = gateway_okD(2) [OF ok]
  obtain now w where clk: "clock env (world st) = (now, w)" by fastforce
  let ?o = "observable_new now (junk_interval env)"
  show thesis
  proof (cases "count (observables st) < max_sessions (observables st)")
    case False
    then have "create (keygen env) (observables st) (draws st) ?o = Some Throw"
      by (intro ses.mk_full [OF wf]) simp
    with r Inr clk show thesis by (intro same) (auto simp: add_new_observable_def)
  next
    case True
    from ses.mk_room [OF wf this, of "keygen env" "draws st" ?o] r Inr clk
    obtain h k t0 where c: "create (keygen env) (observables st) (draws st) ?o = Some (Ok (h, k, t0))"
      by (auto simp: add_new_observable_def)
    note t0 = ses.mk_ok [OF wf c]
    have "session t0 h = Some ?o" using t0 by simp
    with t0 obtain t where t: "modify t0 h members = Ok t" "wf_sessions t"
      "session t = (session t0)(h \<mapsto> members ?o)" "max_sessions t = max_sessions t0"
      using ses.upd_live [of t0 h ?o members] by (elim conjE) blast
    have h: "env_ok env \<Longrightarrow> h \<le> 10000" using created_handle [OF _ wf c] gateway_okD(3) [OF ok] by simp
    have new: "max_sessions t = max_sessions (observables st)" "observed st h = None" "session t = (observed st)(h \<mapsto> members ?o)"
      using t0 t(3,4) by (simp_all add: observed_def)
    show thesis
    proof (cases "connect (timer st) h")
      case (Ok sm)
      obtain sl tm where sm: "sm = (sl, tm)" by (cases sm)
      show thesis
        by (rule connected [OF h t(2) new Ok [unfolded sm]])
          (use r Inr clk c t(1) Ok sm in \<open>auto simp: add_new_observable_def Let_def\<close>)
    next
      case Throw
      show thesis
        by (rule orphan [OF t(2) new, of "if left_first env \<and> observable_callbacks st h = None
            then (observable_callbacks st)(h \<mapsto> None) else observable_callbacks st"])
          (use r Inr clk c t(1) Throw in \<open>auto simp: add_new_observable_def Let_def split: if_splits\<close>)
    next
      case Undefined
      with sig.conn_defined [OF gateway_okD(1) [OF ok], of h] show thesis by simp
    qed
  qed
qed

lemma add_keeps [inv_intros]:
  fixes st :: "('w, 'd) gateway"
  assumes ok: "gateway_ok st" and env: "env_ok env" and r: "add_new_observable env content st = Some r"
  shows "keeps st r"
  using ok r
proof (cases rule: add_cases)
  case same
  then show ?thesis by (rule keeps_same [OF ok])
next
  case (connected h v t k w sl tm)
  let ?st = "st\<lparr>observables := t, draws := k, world := w\<rparr>"
  have "gateway_ok ?st" by (rule gateway_ok_observables(1) [OF ok connected(2,3)])
  moreover have "\<not> registered ?st h" if "no_reuse st st'" and "observables st' = t" for st' :: "('w, 'd) gateway"
    using that connected(4,5) by (auto simp: no_reuse_def observed_def registered_def)
  ultimately show ?thesis
    using connected_ok [of ?st h sl tm] connected(1) [OF env] connected(6,7) by (auto simp: keeps_def)
next
  case (orphan h v t k w cbs)
  have "gateway_ok (st\<lparr>observables := t, draws := k, world := w, observable_callbacks := cbs\<rparr>)"
    using gateway_ok_observables(1) [OF ok orphan(1,2), where k = k and w = w] gateway_okD(4) [OF ok] orphan(5)
    by (auto simp: gateway_ok_def)
  then show ?thesis using orphan(6) by (auto simp: keeps_def)
qed

section \<open>Ticks keep the invariant\<close>

text \<open>The fate of a registered handle in one call of its callback.\<close>

definition measured ::
  "('w, 'p, 'd) env \<Rightarrow> ('w, 'd) gateway \<Rightarrow> ('w, 'd) gateway \<Rightarrow> nat \<Rightarrow> nat \<Rightarrow> bool" where
  "measured env st st' p h \<longleftrightarrow>
     (case observed st h of
        None \<Rightarrow> observed st' h = None \<and> slot (timer st') (Some p) = None
      | Some obs \<Rightarrow> (\<exists>w. observed st' h = Some (fst (observe env obs w))) \<and>
          slot (timer st') (Some p) = Some h)"

text \<open>A call touches neither the other slots nor the other observables.\<close>

definition frame :: "('w, 'd) gateway \<Rightarrow> ('w, 'd) gateway \<Rightarrow> nat set \<Rightarrow> nat set \<Rightarrow> bool" where
  "frame st st' ps hs \<longleftrightarrow>
     (\<forall>q. q \<notin> ps \<longrightarrow> slot (timer st') (Some q) = slot (timer st) (Some q)) \<and>
     (\<forall>g. g \<notin> hs \<longrightarrow> observed st' g = observed st g) \<and>
     length (cells (timer st')) = length (cells (timer st))"

lemma cells_nonempty: "wf_signal s \<Longrightarrow> 0 < length (cells s)"
proof -
  assume "wf_signal s"
  then obtain fl where "fl \<noteq> []" and "chain (cells s) fl" by (auto simp: wf_signal_def free_list_def)
  then have "hd fl < length (cells s)" using chain_bound hd_in_set by blast
  then show ?thesis by linarith
qed

lemma callback_observed:
  assumes ok: "gateway_ok st" and sl: "slot (timer st) (Some p) = Some h" and obs: "observed st h = Some obs"
  shows "\<exists>st'. timer_callback env p h st = Ok st' \<and> gateway_ok st' \<and>
    measured env st st' p h \<and> frame st st' {p} {h}"
proof -
  have s: "session (observables st) h = Some obs" using obs by (simp add: observed_def)
  then have g: "get (observables st) h = Ok obs" by (simp add: get_session)
  obtain obs' w where o: "observe env obs (world st) = (obs', w)" by fastforce
  obtain t where t: "modify (observables st) h (\<lambda>_. obs') = Ok t" "wf_sessions t"
    "session t = (session (observables st))(h \<mapsto> obs')" "max_sessions t = max_sessions (observables st)"
    using ses.upd_live [OF gateway_okD(2) [OF ok] s, of "\<lambda>_. obs'"] by (elim exE conjE that)
  let ?st' = "st\<lparr>observables := t, world := w\<rparr>"
  have "timer_callback env p h st = Ok ?st'" by (simp add: timer_callback_def g o t(1))
  moreover have "gateway_ok ?st'" using ok t(2,4) by (simp add: gateway_ok_def)
  moreover have "measured env st ?st' p h"
    using obs t(3) sl o by (auto simp: measured_def observed_def intro!: exI [of _ "world st"])
  moreover have "frame st ?st' {p} {h}" using t(3) by (simp add: frame_def observed_def)
  ultimately show ?thesis by blast
qed

lemma callback_removed:
  assumes ok: "gateway_ok st" and env: "env_ok env"
    and sl: "slot (timer st) (Some p) = Some h" and gone: "observed st h = None"
  shows "\<exists>st'. timer_callback env p h st = Ok st' \<and> gateway_ok st' \<and>
    measured env st st' p h \<and> frame st st' {p} {h}"
proof -
  note wf = gateway_okD(1) [OF ok]
  have "get (observables st) h = Throw" using gone by (simp add: get_session observed_def)
  moreover have e: "observable_callbacks st h = Some (Some p)" by (rule gateway_okD(4) [OF ok sl])
  moreover obtain tm where tm: "disconnect (timer st) (Some p) = Ok tm"
    using sig.disc_live [OF wf sl] by (elim exE conjE that)
  ultimately have c: "timer_callback env p h st = Ok (st\<lparr>timer := tm,
      observable_callbacks := ((observable_callbacks st)(h \<mapsto> Some p))(freed_word env (world st) := None)\<rparr>)"
      (is "_ = Ok ?st'")
    by (simp add: timer_callback_def)
  note d = sig.disc_ok [OF wf tm]
  have "slot tm (Some q) = Some g \<Longrightarrow> slot (timer st) (Some q) = Some g" for q g
    using d by (auto split: if_splits)
  then have "gateway_ok ?st'"
    using ok d env e by (auto simp: gateway_ok_def env_ok_def) (metis leD)+
  moreover have "measured env st ?st' p h" using gone d by (simp add: measured_def observed_def)
  moreover have "frame st ?st' {p} {h}"
  proof -
    have "length (cells tm) - 1 = length (cells (timer st)) - 1" "0 < length (cells tm)"
      using d cells_nonempty [of tm] by (simp_all add: upper_limit_def)
    then have "length (cells tm) = length (cells (timer st))" using cells_nonempty [OF wf] by linarith
    then show ?thesis using d by (simp add: frame_def observed_def)
  qed
  ultimately show ?thesis using c by blast
qed

lemma callback_ok:
  assumes "gateway_ok st" and "env_ok env" and "slot (timer st) (Some p) = Some h"
  shows "\<exists>st'. timer_callback env p h st = Ok st' \<and> gateway_ok st' \<and>
    measured env st st' p h \<and> frame st st' {p} {h}"
  using callback_observed [OF assms(1,3)] callback_removed [OF assms] by (cases "observed st h") auto

lemma callbacks_ok:
  assumes "env_ok env" and "gateway_ok st" and "distinct (map fst xs)"
    and "\<forall>(p, h) \<in> set xs. slot (timer st) (Some p) = Some h"
  shows "\<exists>st'. run_each (timer_callback env) xs st = Ok st' \<and> gateway_ok st' \<and>
    (\<forall>(p, h) \<in> set xs. measured env st st' p h) \<and> frame st st' (fst ` set xs) (snd ` set xs)"
  using assms(2-)
proof (induction xs arbitrary: st)
  case Nil
  then show ?case by (simp add: frame_def)
next
  case (Cons x xs)
  obtain p h where x: "x = (p, h)" by (cases x)
  have sl: "slot (timer st) (Some p) = Some h" using Cons.prems x by simp
  obtain st1 where 1: "timer_callback env p h st = Ok st1" "gateway_ok st1"
    "measured env st st1 p h" "frame st st1 {p} {h}"
    using callback_ok [OF Cons.prems(1) assms(1) sl] by blast
  have p: "p \<notin> fst ` set xs" using Cons.prems(2) x by simp
  have rest: "slot (timer st) (Some q) = Some g \<and> q \<noteq> p \<and> g \<noteq> h" if "(q, g) \<in> set xs" for q g
  proof -
    have "slot (timer st) (Some q) = Some g" using Cons.prems(3) that by auto
    moreover have "q \<noteq> p" using p that by force
    ultimately show ?thesis using registered_slot_unique [OF Cons.prems(1) _ sl] by blast
  qed
  have "\<forall>(q, g) \<in> set xs. slot (timer st1) (Some q) = Some g"
    using rest 1(4) by (auto simp: frame_def)
  then obtain st' where 2: "run_each (timer_callback env) xs st1 = Ok st'" "gateway_ok st'"
    "\<forall>(p, h) \<in> set xs. measured env st1 st' p h" "frame st1 st' (fst ` set xs) (snd ` set xs)"
    using Cons.IH [OF 1(2)] Cons.prems(2) by auto
  have h: "h \<notin> snd ` set xs" using rest by force
  have "measured env st st' p h"
    using 1(3) 2(4) p h by (auto simp: measured_def frame_def split: option.splits)
  moreover have "measured env st st' q g" if "(q, g) \<in> set xs" for q g
  proof -
    have "observed st1 g = observed st g" using 1(4) rest [OF that] by (simp add: frame_def)
    moreover have "measured env st1 st' q g" using 2(3) that by blast
    ultimately show ?thesis by (simp add: measured_def)
  qed
  moreover have "frame st st' (fst ` set (x # xs)) (snd ` set (x # xs))"
    using 1(4) 2(4) x by (simp add: frame_def)
  ultimately show ?case using 1(1) 2(1,2) x by auto
qed

lemma distinct_connected: "distinct (map fst (connected s))"
proof -
  have "distinct ps \<Longrightarrow> distinct (map fst (connected_on s ps)) \<and> fst ` set (connected_on s ps) \<subseteq> set ps" for ps
    by (induction ps) (auto split: option.splits)
  then show ?thesis by (simp add: connected_eq)
qed

lemma tick_run_each:
  assumes "gateway_ok st" and "env_ok env"
  shows "tick env st = run_each (timer_callback env) (connected (timer st)) st"
  unfolding tick_def
proof (rule emit_run_each [where P = gateway_ok])
  fix p h and s s' :: "('a, 'b) gateway"
  assume "gateway_ok s" "slot (timer s) (Some p) = Some h" "timer_callback env p h s = Ok s'"
  with callback_ok [OF _ assms(2), of s p h] show "gateway_ok s' \<and>
      (\<forall>q. q \<noteq> p \<longrightarrow> slot (timer s') (Some q) = slot (timer s) (Some q)) \<and>
      length (cells (timer s')) = length (cells (timer s))"
    by (auto simp: frame_def)
qed (use assms gateway_okD(1) in auto)

lemma tick_ok:
  assumes "gateway_ok st" and "env_ok env"
  shows "\<exists>st'. tick env st = Ok st' \<and> gateway_ok st' \<and>
    (\<forall>p h. slot (timer st) (Some p) = Some h \<longrightarrow> measured env st st' p h) \<and>
    (\<forall>q. slot (timer st) (Some q) = None \<longrightarrow> slot (timer st') (Some q) = None) \<and>
    (\<forall>h. \<not> registered st h \<longrightarrow> observed st' h = observed st h)"
proof -
  let ?xs = "connected (timer st)"
  have "\<forall>(p, h) \<in> set ?xs. slot (timer st) (Some p) = Some h" using set_connected by fast
  from callbacks_ok [OF assms(2,1) distinct_connected this] obtain st' where
    r: "run_each (timer_callback env) ?xs st = Ok st'" "gateway_ok st'"
    "\<forall>(p, h) \<in> set ?xs. measured env st st' p h" "frame st st' (fst ` set ?xs) (snd ` set ?xs)" by blast
  have "measured env st st' p h" if "slot (timer st) (Some p) = Some h" for p h
    using r(3) that set_connected [of p h "timer st"] by blast
  moreover have "slot (timer st') (Some q) = None" if "slot (timer st) (Some q) = None" for q
  proof -
    have "q \<notin> fst ` set ?xs" using that set_connected [of q _ "timer st"] by force
    with r(4) that show ?thesis by (simp add: frame_def)
  qed
  moreover have "observed st' h = observed st h" if "\<not> registered st h" for h
  proof -
    have "h \<notin> snd ` set ?xs" using that set_connected [of _ h "timer st"] by (force simp: registered_def)
    with r(4) show ?thesis by (simp add: frame_def)
  qed
  ultimately show ?thesis using r(1,2) tick_run_each [OF assms] by auto
qed

end
