(* ===== verification/Gateway_Properties.thy ===== *)
theory Gateway_Properties
  imports Gateway_Invariants
begin

text \<open>
  What the gateway guarantees: from its start, along any sequence of requests and ticks in
  which \<open>create\<close> draws no handle that a connected callback still holds, every tick returns;
  a tick measures every registered observable exactly once and retires the callbacks of the
  removed ones. And where it does not: a handle drawn again too early ends the program, and
  an observable created when the timer is full is never measured.
\<close>

section \<open>Reachable states\<close>

inductive reachable :: "('w, 'p, 'd) env \<Rightarrow> 'w \<Rightarrow> ('w, 'd) gateway \<Rightarrow> bool" for env w where
  start: "reachable env w (gateway_start w)"
| request: "reachable env w st \<Longrightarrow> handle_request env req st = Some r \<Longrightarrow>
    result_state r = Some st' \<Longrightarrow> no_reuse st st' \<Longrightarrow> reachable env w st'"
| ticked: "reachable env w st \<Longrightarrow> tick env st = Ok st' \<Longrightarrow> reachable env w st'"

inductive_cases reachableE: "reachable env w st"

lemma request_keeps:
  assumes "gateway_ok st" and "env_ok env" and "handle_request env req st = Some r"
  shows "keeps st r"
  using assms(3) add_keeps [OF assms(1,2)]
  by (cases req) (auto simp: handle_request_def intro: update_keeps [OF assms(1)]
      remove_keeps [OF assms(1)] get_iotdata_keeps [OF assms(1)] get_uptime_keeps [OF assms(1)]
      get_iotdata_all_keeps [OF assms(1)] observe_once_keeps [OF assms(1)])

lemma reachable_ok:
  assumes "reachable env w st" and "env_ok env"
  shows "gateway_ok st"
  using assms(1)
proof induction
  case start
  show ?case by (rule gateway_ok_start)
next
  case (request st req r st')
  from request_keeps [OF request.IH assms(2) request.hyps(2)] request.hyps(3,4)
  show ?case by (auto simp: keeps_def)
next
  case (ticked st st')
  from tick_ok [OF ticked.IH assms(2)] ticked.hyps(2) show ?case by auto
qed

section \<open>Adding\<close>

lemma create_fresh:
  assumes ok: "gateway_ok st" and room: "count (observables st) < 10000" and fair: "fair (keygen env) 10000"
  obtains h k t where "create (keygen env) (observables st) (draws st) v = Some (Ok (h, k, t))"
proof -
  note wf = gateway_okD(2) [OF ok] and m = gateway_okD(3) [OF ok]
  obtain h where "h \<le> 10000" and free: "map_of (table (observables st)) h = None"
    using free_handle_exists [of "table (observables st)" 10000] room by (auto simp: count_def)
  then obtain j where "draws st \<le> j" and "keygen env 10000 j = h"
    using fair unfolding fair_def by blast
  then obtain h' k' where "draw_free (keygen env) 10000 (table (observables st)) (draws st) = Some (h', k')"
    using draw_free_ends free by blast
  then have "create (keygen env) (observables st) (draws st) v \<noteq> None"
    using room m by (simp add: create_def count_def)
  then show ?thesis
    using that ses.mk_room [OF wf, of "keygen env" "draws st" v] room m by auto
qed

lemma add_steps:
  assumes ok: "gateway_ok st" and d: "dispatch_add env content = Inr members"
    and c: "create (keygen env) (observables st) (draws st)
      (observable_new (fst (clock env (world st))) (junk_interval env)) = Some (Ok (h, k, t0))"
  obtains t where "wf_sessions t" and "observed st h = None"
    and "session t = (observed st)(h \<mapsto> members (observable_new (fst (clock env (world st))) (junk_interval env)))"
    and "count t = Suc (count (observables st))"
    and "add_new_observable env content st =
     (let st' = st\<lparr>observables := t, draws := k, world := snd (clock env (world st))\<rparr> in
      case connect (timer st') h of
        Throw \<Rightarrow>
          Some (Thrown response_new
            (if left_first env \<and> observable_callbacks st' h = None
             then st'\<lparr>observable_callbacks := (observable_callbacks st')(h \<mapsto> None)\<rparr> else st'))
      | Undefined \<Rightarrow> Some Broken
      | Ok (slot_handle, timer') \<Rightarrow>
          Some (answer env (put_int env ''handle'' (int h) (result_success env))
            (st'\<lparr>timer := timer',
                 observable_callbacks := (observable_callbacks st')(h \<mapsto> slot_handle)\<rparr>)))"
proof -
  let ?o = "observable_new (fst (clock env (world st))) (junk_interval env)"
  note t0 = ses.mk_ok [OF gateway_okD(2) [OF ok] c]
  have "session t0 h = Some ?o" using t0 by simp
  with t0 obtain t where t: "modify t0 h members = Ok t" "wf_sessions t"
    "session t = (session t0)(h \<mapsto> members ?o)" "count t = count t0"
    using ses.upd_live [of t0 h ?o members] by (elim conjE) blast
  obtain now w where clk: "clock env (world st) = (now, w)" by fastforce
  show ?thesis
  proof (rule that [of t])
    show "wf_sessions t" "observed st h = None" "session t = (observed st)(h \<mapsto> members ?o)"
      "count t = Suc (count (observables st))" using t t0 by (simp_all add: observed_def)
  qed (unfold add_new_observable_def d sum.case clk prod.case Let_def fst_conv snd_conv
      c [unfolded clk fst_conv] option.case outcome.case t(1), rule refl)
qed

section \<open>Measuring\<close>

lemma observe_due:
  assumes "circular_push (push_back env)" and "length (vals obs) \<le> 50" and "clock env w = (now, w1)"
    and due: "interval obs \<le> as_unsigned (seconds_of (now - latest_observation obs))"
  shows "\<exists>t. vals (fst (observe env obs w)) =
    drop (Suc (length (vals obs)) - 50) (vals obs @ [(t, fst (measured_value env obs w1))])"
proof -
  obtain v w2 where v: "measured_value env obs w1 = (v, w2)" by fastforce
  obtain t w3 where t: "clock env w2 = (t, w3)" by fastforce
  obtain l w4 where l: "clock env w3 = (l, w4)" by fastforce
  have "vals (fst (observe env obs w)) = vals (addValue (push_back env) t v obs)"
    using due by (simp add: observe_def assms(3) v t l)
  then show ?thesis using addValue_keeps_recent(1) [OF assms(1,2)] v by auto
qed

section \<open>Handles in paths\<close>

lemma as_unsigned_nat: "n < 2 ^ 64 \<Longrightarrow> as_unsigned (int n) = n"
  by (simp add: as_unsigned_def nat_mod_as_int [symmetric] nat_mod_distrib)

lemma with_handle_digits:
  assumes "ds \<noteq> []" and "\<forall>c \<in> set ds. is_digit c" and "group path_match 1 = ds"
  shows "with_handle path_match st body =
    (if digits_val 10 ds < 2 ^ 31 then body (digits_val 10 ds) else Thrown response_new st)"
  using stoi_digits [OF assms(1,2)] as_unsigned_nat [of "digits_val 10 ds"]
  by (simp add: with_handle_def assms(3) [simplified])

lemma with_handle_number:
  "h < 2 ^ 31 \<Longrightarrow> with_handle [(1, to_string h)] st body = body h"
  using with_handle_digits [of "to_string h" "[(1, to_string h)]" st body] to_string_digits [of h]
  by (simp add: digits_val_to_string group_def)

text \<open>
  A request to remove an observable by a decimal handle below \<open>2\<^sup>3\<^sup>1\<close> removes it, and only
  it, if there is one, and is answered not found otherwise; a larger handle is answered by
  an exception and an empty response. Callbacks stay connected until the next tick.
\<close>
lemma remove_observable_outcome:
  assumes "gateway_ok st" and "ds \<noteq> []" and "\<forall>c \<in> set ds. is_digit c" and "group path_match 1 = ds"
  shows "let h = digits_val 10 ds in
    if 2 ^ 31 \<le> h then remove_observable env path_match st = Thrown response_new st
    else if observed st h = None then remove_observable env path_match st = Replied not_found st
    else \<exists>st'. remove_observable env path_match st = try_answer env (result_success env) st' \<and>
      observed st' = (observed st)(h := None) \<and> timer st' = timer st"
proof -
  let ?h = "digits_val 10 ds"
  note wf = gateway_okD(2) [OF assms(1)]
  show ?thesis
  proof (cases "session (observables st) ?h")
    case None
    with ses.del_dead [OF wf None] show ?thesis
      by (simp add: remove_observable_def with_handle_digits [OF assms(2-4)] observed_def Let_def)
  next
    case (Some obs)
    obtain t where t: "remove (observables st) ?h = Ok t" "session t = (session (observables st))(?h := None)"
      using ses.del_live [OF wf Some] by (elim exE conjE that)
    let ?st' = "st\<lparr>observables := t\<rparr>"
    have obs: "observed st ?h \<noteq> None" using Some by (simp add: observed_def)
    have A: "observed ?st' = (observed st)(?h := None)" using t(2) by (simp add: observed_def)
    have B: "timer ?st' = timer st" by simp
    have C: "\<not> 2 ^ 31 \<le> ?h \<Longrightarrow> remove_observable env path_match st = try_answer env (result_success env) ?st'"
      unfolding remove_observable_def with_handle_digits [OF assms(2-4)] t(1) by simp
    have D: "2 ^ 31 \<le> ?h \<Longrightarrow> remove_observable env path_match st = Thrown response_new st"
      unfolding remove_observable_def with_handle_digits [OF assms(2-4)] by simp
    show ?thesis
    proof (cases "2 ^ 31 \<le> ?h")
      case True
      with D show ?thesis by (simp only: Let_def if_True)
    next
      case False
      with A B C [OF False] obs show ?thesis by (simp only: Let_def if_False) blast
    qed
  qed
qed

section \<open>A callback whose slot is gone\<close>

lemma callback_throws:
  assumes "wf_signal (timer st)" and "observed st h = None"
    and "slot (timer st) (case observable_callbacks st h of None \<Rightarrow> None | Some e \<Rightarrow> e) = None"
  shows "timer_callback env p h st = Throw"
proof -
  have "get (observables st) h = Throw" using assms(2) by (simp add: get_session observed_def)
  moreover have "disconnect (timer st) (case observable_callbacks st h of None \<Rightarrow> None | Some e \<Rightarrow> e) = Throw"
    by (rule sig.disc_dead [OF assms(1,3)])
  ultimately show ?thesis by (simp add: timer_callback_def Let_def)
qed

lemma callback_of_other_slot:
  assumes wf: "wf_signal (timer st)" and gone: "observed st h = None"
    and e: "observable_callbacks st h = Some (Some q)" and q: "slot (timer st) (Some q) = Some g" and "p \<noteq> q"
  obtains tm where "timer_callback env p h st =
      Ok (st\<lparr>timer := tm, observable_callbacks := (observable_callbacks st)(h := None)\<rparr>)" and "wf_signal tm"
proof -
  have "get (observables st) h = Throw" using gone by (simp add: get_session observed_def)
  moreover obtain tm where tm: "disconnect (timer st) (Some q) = Ok tm" "wf_signal tm"
    using sig.disc_live [OF wf q] by (elim exE conjE that)
  ultimately have "timer_callback env p h st =
      Ok (st\<lparr>timer := tm, observable_callbacks := (observable_callbacks st)(h := None)\<rparr>)"
    using e assms(5) by (simp add: timer_callback_def Let_def)
  with tm(2) show ?thesis by (rule that [rotated])
qed

section \<open>One tick\<close>

lemma tick_fates:
  assumes "gateway_ok st" and "env_ok env"
  shows "\<exists>st'. tick env st = Ok st' \<and> gateway_ok st' \<and>
    (\<forall>h. if registered st h
         then (case observed st h of
                 None \<Rightarrow> observed st' h = None \<and> \<not> registered st' h
               | Some obs \<Rightarrow> (\<exists>w. observed st' h = Some (fst (observe env obs w))) \<and> registered st' h)
         else observed st' h = observed st h \<and> \<not> registered st' h)"
proof -
  obtain st' where t: "tick env st = Ok st'" "gateway_ok st'"
    "\<forall>p h. slot (timer st) (Some p) = Some h \<longrightarrow> measured env st st' p h"
    "\<forall>q. slot (timer st) (Some q) = None \<longrightarrow> slot (timer st') (Some q) = None"
    "\<forall>h. \<not> registered st h \<longrightarrow> observed st' h = observed st h"
    using tick_ok [OF assms] by blast
  have kept_slot: "slot (timer st) (Some q) = Some h" if "slot (timer st') (Some q) = Some h" for q h
  proof (cases "slot (timer st) (Some q)")
    case None
    with t(4) that show ?thesis by simp
  next
    case (Some g)
    then have "measured env st st' q g" using t(3) by blast
    with that Some show ?thesis by (auto simp: measured_def split: option.splits)
  qed
  have "if registered st h
         then (case observed st h of
                 None \<Rightarrow> observed st' h = None \<and> \<not> registered st' h
               | Some obs \<Rightarrow> (\<exists>w. observed st' h = Some (fst (observe env obs w))) \<and> registered st' h)
         else observed st' h = observed st h \<and> \<not> registered st' h" for h
  proof (cases "registered st h")
    case False
    then show ?thesis using t(5) kept_slot by (auto simp: registered_def)
  next
    case True
    then obtain p where p: "slot (timer st) (Some p) = Some h" by (auto simp: registered_def)
    then have m: "measured env st st' p h" using t(3) by blast
    show ?thesis
    proof (cases "observed st h")
      case None
      have "\<not> registered st' h"
      proof
        assume "registered st' h"
        then obtain q where q: "slot (timer st') (Some q) = Some h" by (auto simp: registered_def)
        from registered_slot_unique [OF assms(1) p kept_slot [OF q]] m None q
        show False by (simp add: measured_def)
      qed
      then show ?thesis using m True None by (simp add: measured_def)
    next
      case (Some obs)
      then show ?thesis using m True by (auto simp: measured_def registered_def)
    qed
  qed
  then show ?thesis using t(1,2) by blast
qed

section \<open>A concrete environment\<close>

text \<open>
  For the concrete runs: a property tree is the list of its strings, every location and name
  is well formed, the clock moves ten seconds at each reading, requests fail, the generator
  counts modulo \<open>m + 1\<close>.
\<close>

definition demo_string :: "bytes \<Rightarrow> bytes option" where
  "demo_string key = (if key = ''device-location'' then Some ''http://a.b/c'' else Some ''x'')"

definition demo_env :: "nat \<Rightarrow> (int, bytes list, nat) env" where
  "demo_env m = \<lparr>clock = (\<lambda>w. (w, w + 10 ^ 10)), fetch = (\<lambda>https host path w. (None, w)),
     keygen = (\<lambda>n k. min n (k mod Suc m)), push_back = ring_push,
     read_json = (\<lambda>s. Some []), write_json = (\<lambda>tree. Some (concat tree)),
     get_string = (\<lambda>tree key. demo_string key), get_size = (\<lambda>tree key. Some 1),
     get_double = (\<lambda>tree key. None), empty_tree = [],
     put_string = (\<lambda>key s tree. tree @ [key, s]), put_int = (\<lambda>key i tree. tree @ [key]),
     put_double = (\<lambda>key v tree. tree @ [key]), push_child = (\<lambda>c tree. tree @ c),
     add_child = (\<lambda>key c tree. tree @ [key] @ c), time_text = (\<lambda>t. []), zero_value = 0,
     junk_interval = 0, freed_word = (\<lambda>w. 20000), left_first = False\<rparr>"

lemma demo_env_ok: "env_ok (demo_env m)"
  by (simp add: env_ok_def demo_env_def)

lemma demo_env_fair: "fair (keygen (demo_env 10000)) 10000"
proof -
  have "keygen (demo_env 10000) 10000 = round_robin 10000"
  proof (rule ext)
    fix k :: nat
    have "k mod Suc 10000 \<le> 10000" using mod_less_divisor [of "Suc 10000" k] by linarith
    then show "keygen (demo_env 10000) 10000 k = round_robin 10000 k"
      unfolding demo_env_def round_robin_def env.simps by (rule min_absorb2)
  qed
  with fair_round_robin [of 10000] show ?thesis by (simp add: fair_def)
qed

lemma demo_dispatch: obtains m where "dispatch_add (demo_env k) [] = Inr m"
proof -
  have "\<not> isl (dispatch_add (demo_env k) [])" by code_simp
  with that show ?thesis by (cases "dispatch_add (demo_env k) []") auto
qed

section \<open>Properties\<close>





text \<open>
  A measurement of an observable whose interval has passed adds exactly one value, the
  one requested from the device or zero when the request fails, to its fifty latest; before
  that the observable is left alone.
\<close>
lemma observe_adds_one_value:
  assumes "circular_push (push_back env)" and "length (vals obs) \<le> 50" and "clock env w = (now, w1)"
  shows "if interval obs \<le> as_unsigned (seconds_of (now - latest_observation obs))
    then \<exists>t. vals (fst (observe env obs w)) =
      drop (Suc (length (vals obs)) - 50) (vals obs @ [(t, fst (measured_value env obs w1))])
    else fst (observe env obs w) = obs"
  using observe_due [OF assms] by (simp add: observe_def assms(3))

text \<open>
  The number of seconds since the last observation is compared as an unsigned value, so
  a clock set back by a second or more makes every observable due at once, whatever its
  interval up to \<open>2\<^sup>6\<^sup>3\<close>.
\<close>
lemma clock_set_back_is_due:
  assumes "now + 10 ^ 9 \<le> latest_observation obs" and "latest_observation obs - now < 2 ^ 63"
    and "interval obs \<le> 2 ^ 63"
  shows "interval obs \<le> as_unsigned (seconds_of (now - latest_observation obs))"
proof -
  define k where "k = (latest_observation obs - now) div 10 ^ 9"
  have k: "1 \<le> k" "k < 2 ^ 63" using assms(1,2) by (simp_all add: k_def)
  have "seconds_of (now - latest_observation obs) = - k"
    using assms(1) by (simp add: seconds_of_def k_def)
  moreover have "- k mod 2 ^ 64 = 2 ^ 64 - k"
    using k by (simp add: zmod_zminus1_eq_if)
  ultimately show ?thesis using k assms(3) by (simp add: as_unsigned_def)
qed

text \<open>
  A valid request to add an observable is accepted while there is room for it and for
  its callback: the reply is a success with a handle that was free, the observable with the
  members of the request is stored under it, and its callback is connected.
\<close>
lemma accepted_is_registered:
  assumes "gateway_ok st" and "fair (keygen env) 10000" and "dispatch_add env content = Inr members"
    and "count (observables st) < 10000" and "size_of (timer st) < upper_limit (timer st)"
  shows "\<exists>h st'. add_new_observable env content st =
      Some (answer env (put_int env ''handle'' (int h) (result_success env)) st') \<and>
    observed st h = None \<and> registered st' h \<and>
    observed st' = (observed st)(h \<mapsto> members (observable_new (fst (clock env (world st))) (junk_interval env)))"
proof -
  let ?o = "observable_new (fst (clock env (world st))) (junk_interval env)"
  obtain h k t0 where c: "create (keygen env) (observables st) (draws st) ?o = Some (Ok (h, k, t0))"
    by (rule create_fresh [OF assms(1,4,2)])
  obtain t where t: "observed st h = None" "session t = (observed st)(h \<mapsto> members ?o)"
    and add: "add_new_observable env content st =
     (let st' = st\<lparr>observables := t, draws := k, world := snd (clock env (world st))\<rparr> in
      case connect (timer st') h of
        Throw \<Rightarrow>
          Some (Thrown response_new
            (if left_first env \<and> observable_callbacks st' h = None
             then st'\<lparr>observable_callbacks := (observable_callbacks st')(h \<mapsto> None)\<rparr> else st'))
      | Undefined \<Rightarrow> Some Broken
      | Ok (slot_handle, timer') \<Rightarrow>
          Some (answer env (put_int env ''handle'' (int h) (result_success env))
            (st'\<lparr>timer := timer',
                 observable_callbacks := (observable_callbacks st')(h \<mapsto> slot_handle)\<rparr>)))"
    by (rule add_steps [OF assms(1,3) c])
  note wf = gateway_okD(1) [OF assms(1)]
  obtain sl tm where conn: "connect (timer st) h = Ok (sl, tm)"
    using sig.conn_room [OF wf assms(5), of h] by (elim exE that)
  have sl: "slot tm sl = Some h" using sig.conn_ok [OF wf conn] by simp
  then obtain p where p: "sl = Some p" by (cases sl) auto
  define st' where "st' = st\<lparr>observables := t, draws := k, world := snd (clock env (world st)), timer := tm,
    observable_callbacks := (observable_callbacks st)(h \<mapsto> sl)\<rparr>"
  have "add_new_observable env content st =
      Some (answer env (put_int env ''handle'' (int h) (result_success env)) st')"
    unfolding add by (simp add: Let_def conn st'_def)
  moreover have "registered st' h" using sl p unfolding registered_def st'_def by auto
  moreover have "observed st' = (observed st)(h \<mapsto> members ?o)"
    using t(2) by (simp add: st'_def observed_def)
  ultimately show ?thesis using t(1) by blast
qed

text \<open>
  C13: When the timer has no free slot, a valid request is answered by an exception and an
  empty response, but the observable it created stays, without a callback: no tick will
  measure it. The timer has a thousand slots, the table ten thousand.
\<close>
theorem full_timer_leaves_orphan:
  assumes "gateway_ok st" and "fair (keygen env) 10000" and "dispatch_add env content = Inr members"
    and "count (observables st) < 10000" and "size_of (timer st) = upper_limit (timer st)"
  shows "\<exists>h st'. add_new_observable env content st = Some (Thrown response_new st') \<and>
    observed st h = None \<and> observed st' h \<noteq> None \<and> timer st' = timer st"
proof -
  let ?o = "observable_new (fst (clock env (world st))) (junk_interval env)"
  obtain h k t0 where c: "create (keygen env) (observables st) (draws st) ?o = Some (Ok (h, k, t0))"
    by (rule create_fresh [OF assms(1,4,2)])
  obtain t where t: "observed st h = None" "session t = (observed st)(h \<mapsto> members ?o)"
    and add: "add_new_observable env content st =
     (let st' = st\<lparr>observables := t, draws := k, world := snd (clock env (world st))\<rparr> in
      case connect (timer st') h of
        Throw \<Rightarrow>
          Some (Thrown response_new
            (if left_first env \<and> observable_callbacks st' h = None
             then st'\<lparr>observable_callbacks := (observable_callbacks st')(h \<mapsto> None)\<rparr> else st'))
      | Undefined \<Rightarrow> Some Broken
      | Ok (slot_handle, timer') \<Rightarrow>
          Some (answer env (put_int env ''handle'' (int h) (result_success env))
            (st'\<lparr>timer := timer',
                 observable_callbacks := (observable_callbacks st')(h \<mapsto> slot_handle)\<rparr>)))"
    by (rule add_steps [OF assms(1,3) c])
  have conn: "connect (timer st) h = Throw"
    by (rule sig.conn_full [OF gateway_okD(1) [OF assms(1)]]) (simp add: assms(5))
  define st1 where "st1 = st\<lparr>observables := t, draws := k, world := snd (clock env (world st))\<rparr>"
  define st' where "st' = (if left_first env \<and> observable_callbacks st1 h = None
    then st1\<lparr>observable_callbacks := (observable_callbacks st1)(h \<mapsto> None)\<rparr> else st1)"
  have "add_new_observable env content st = Some (Thrown response_new st')"
    unfolding add st'_def st1_def by (simp add: Let_def conn)
  moreover have "observed st' h \<noteq> None" using t(2) by (simp add: st'_def st1_def observed_def)
  moreover have "timer st' = timer st" by (simp add: st'_def st1_def)
  ultimately show ?thesis using t(1) by blast
qed

theorem full_timer_leaves_orphan_witness:
  "\<exists>h st'. add_new_observable (demo_env 10000) [] ((gateway_start 0)\<lparr>timer := signal_buffer 0\<rparr>) =
      Some (Thrown response_new st') \<and> observed st' h \<noteq> None"
proof -
  obtain m where m: "dispatch_add (demo_env 10000) [] = Inr m" by (rule demo_dispatch)
  let ?st = "(gateway_start 0 :: (int, nat) gateway)\<lparr>timer := signal_buffer 0\<rparr>"
  have "gateway_ok (gateway_start 0 :: (int, nat) gateway)" by (rule gateway_ok_start)
  then have "gateway_ok ?st" by (simp add: gateway_ok_def wf_signal_buffer)
  moreover have "count (observables ?st) < 10000"
    by (simp add: gateway_start_def observation_module_def sessions_new_def count_def)
  moreover have "size_of (timer ?st) = upper_limit (timer ?st)" by simp
  ultimately show ?thesis using full_timer_leaves_orphan [OF _ demo_env_fair m] by blast
qed

text \<open>
  C14: When \<open>create\<close> draws the handle of an observable that was removed and whose callback is
  still connected, the old callback loses its entry in the map to the new one. After the
  new observable is removed as well, the old callback disconnects the slot of the new one
  and, called once more, throws out of the timer thread, which ends the program.
\<close>
theorem reused_handle_ends_program:
  assumes "gateway_ok st" and "slot (timer st) (Some p) = Some h" and "observed st h = None"
    and "dispatch_add env content = Inr members"
    and "create (keygen env) (observables st) (draws st)
      (observable_new (fst (clock env (world st))) (junk_interval env)) = Some (Ok (h, k, t0))"
    and "size_of (timer st) < upper_limit (timer st)"
  shows "\<exists>r st1 st2 st3. add_new_observable env content st = Some r \<and> result_state r = Some st1 \<and>
    result_state (remove_observable env [(1, to_string h)] st1) = Some st2 \<and>
    timer_callback env p h st2 = Ok st3 \<and> timer_callback env p h st3 = Throw"
proof -
  note ok = assms(1) and wf = gateway_okD(1) [OF assms(1)]
  obtain t where t: "wf_sessions t" "session t = (observed st)(h \<mapsto> members
        (observable_new (fst (clock env (world st))) (junk_interval env)))"
    and add: "add_new_observable env content st =
     (let st' = st\<lparr>observables := t, draws := k, world := snd (clock env (world st))\<rparr> in
      case connect (timer st') h of
        Throw \<Rightarrow>
          Some (Thrown response_new
            (if left_first env \<and> observable_callbacks st' h = None
             then st'\<lparr>observable_callbacks := (observable_callbacks st')(h \<mapsto> None)\<rparr> else st'))
      | Undefined \<Rightarrow> Some Broken
      | Ok (slot_handle, timer') \<Rightarrow>
          Some (answer env (put_int env ''handle'' (int h) (result_success env))
            (st'\<lparr>timer := timer',
                 observable_callbacks := (observable_callbacks st')(h \<mapsto> slot_handle)\<rparr>)))"
    by (rule add_steps [OF ok assms(4,5)])
  obtain sl tm where conn: "connect (timer st) h = Ok (sl, tm)"
    using sig.conn_room [OF wf assms(6), of h] by (elim exE that)
  note c = sig.conn_ok [OF wf conn]
  have "slot tm sl = Some h" using c by simp
  then obtain q where q: "sl = Some q" by (cases sl) auto
  have "q \<noteq> p" using c assms(2) q by auto
  define st1 where "st1 = st\<lparr>observables := t, draws := k, world := snd (clock env (world st)), timer := tm,
    observable_callbacks := (observable_callbacks st)(h \<mapsto> sl)\<rparr>"
  have 1: "add_new_observable env content st =
      Some (answer env (put_int env ''handle'' (int h) (result_success env)) st1)"
    unfolding add by (simp add: Let_def conn st1_def)
  obtain v where v: "session t h = Some v" using t(2) by simp
  obtain t2 where t2: "remove t h = Ok t2" "session t2 = (session t)(h := None)"
    using ses.del_live [OF t(1) v] by (elim exE conjE that)
  define st2 where "st2 = st1\<lparr>observables := t2\<rparr>"
  have "h < 2 ^ 31" using gateway_okD(5) [OF ok assms(2)] by simp
  then have 2: "result_state (remove_observable env [(1, to_string h)] st1) = Some st2"
    unfolding remove_observable_def by (subst with_handle_number) (simp_all add: st1_def st2_def t2(1))
  have s2: "wf_signal (timer st2)" "observed st2 h = None" "observable_callbacks st2 h = Some (Some q)"
    "slot (timer st2) (Some q) = Some h"
    using c q t2(2) by (simp_all add: st2_def st1_def observed_def)
  obtain tm3 where 3: "timer_callback env p h st2 =
      Ok (st2\<lparr>timer := tm3, observable_callbacks := (observable_callbacks st2)(h := None)\<rparr>)" "wf_signal tm3"
    by (rule callback_of_other_slot [OF s2 \<open>q \<noteq> p\<close> [symmetric]])
  have "timer_callback env p h (st2\<lparr>timer := tm3, observable_callbacks := (observable_callbacks st2)(h := None)\<rparr>) = Throw"
    by (rule callback_throws) (use 3(2) s2(2) in \<open>simp_all add: observed_def\<close>)
  with 1 2 3(1) show ?thesis by (intro exI conjI) (assumption | simp)+
qed

theorem reused_handle_ends_program_witness:
  "\<exists>st :: (int, nat) gateway. \<exists>r st1 st2 st3.
    add_new_observable (demo_env 0) [] st = Some r \<and> result_state r = Some st1 \<and>
    result_state (remove_observable (demo_env 0) [(1, to_string 0)] st1) = Some st2 \<and>
    timer_callback (demo_env 0) 0 0 st2 = Ok st3 \<and> timer_callback (demo_env 0) 0 0 st3 = Throw"
proof -
  obtain m where m: "dispatch_add (demo_env 0) [] = Inr m" by (rule demo_dispatch)
  let ?tm = "\<lparr>cells = [Fn 0, Link 2, Null], free_beg = Some 1, size_of = 1\<rparr> :: nat signal"
  let ?st = "(gateway_start 0)\<lparr>timer := ?tm, observable_callbacks := [0 \<mapsto> Some 0]\<rparr> :: (int, nat) gateway"
  have c: "connect (signal_buffer 2) 0 = Ok (Some 0, ?tm)"
    by (simp add: connect_def signal_buffer_def is_inside_buff_def upt_rec)
  have "gateway_ok (gateway_start 0 :: (int, nat) gateway)" by (rule gateway_ok_start)
  then have "gateway_ok ?st"
    using sig.conn_ok [OF wf_signal_buffer c] by (auto simp: gateway_ok_def)
  moreover have "slot (timer ?st) (Some 0) = Some 0" by (simp add: slot_def)
  moreover have "observed ?st 0 = None" by (simp add: observed_def gateway_start_def observation_module_def)
  moreover have "\<exists>k t0. create (keygen (demo_env 0)) (observables ?st) (draws ?st)
      (observable_new (fst (clock (demo_env 0) (world ?st))) (junk_interval (demo_env 0))) = Some (Ok (0, k, t0))"
    by (simp add: create_def draw_free_step gateway_start_def observation_module_def sessions_new_def demo_env_def)
  moreover have "size_of (timer ?st) < upper_limit (timer ?st)" by (simp add: upper_limit_def)
  ultimately show ?thesis using reused_handle_ends_program [of ?st 0 0 "demo_env 0", OF _ _ _ m] by blast
qed

text \<open>
  An accepted update sets the location and the names of the observable; its values are
  dropped exactly when the location changes, and every other observable stays as it is.
\<close>
lemma update_observable_outcome:
  assumes "gateway_ok st" and "h < 2 ^ 31" and "dispatch_update env content = Inr (location, device, param)"
  shows "case observed st h of
      None \<Rightarrow> update_observable env [(1, to_string h)] content st = Replied not_found st
    | Some obs \<Rightarrow> (\<exists>st'. update_observable env [(1, to_string h)] content st =
          try_answer env (result_success env) st' \<and> timer st' = timer st \<and>
        observed st' = (observed st)(h \<mapsto> obs\<lparr>param_location := location, device_name := device,
          param_name := param, vals := (if param_location obs = location then vals obs else [])\<rparr>))"
proof -
  note wf = gateway_okD(2) [OF assms(1)]
  let ?f = "\<lambda>obs. (relocate location obs)\<lparr>device_name := device, param_name := param\<rparr>"
  have u: "update_observable env [(1, to_string h)] content st =
      (case modify (observables st) h ?f of Throw \<Rightarrow> Replied not_found st | Undefined \<Rightarrow> Broken
       | Ok t \<Rightarrow> try_answer env (result_success env) (st\<lparr>observables := t\<rparr>))"
    unfolding update_observable_def with_handle_number [OF assms(2)] assms(3) by simp
  show ?thesis
  proof (cases "session (observables st) h")
    case None
    with ses.upd_dead [OF wf None, of ?f] u show ?thesis by (simp add: observed_def)
  next
    case (Some obs)
    obtain t where t: "modify (observables st) h ?f = Ok t" "session t = (session (observables st))(h \<mapsto> ?f obs)"
      using ses.upd_live [OF wf Some, of ?f] by (elim exE conjE that)
    have e: "?f obs = obs\<lparr>param_location := location, device_name := device,
        param_name := param, vals := (if param_location obs = location then vals obs else [])\<rparr>"
      by (cases obs) (simp add: relocate_def clearValues_def)
    have A: "observed (st\<lparr>observables := t\<rparr>) = (observed st)(h \<mapsto> obs\<lparr>param_location := location,
        device_name := device, param_name := param,
        vals := (if param_location obs = location then vals obs else [])\<rparr>)"
    proof -
      have "observables (st\<lparr>observables := t\<rparr>) = t" by simp
      then show ?thesis unfolding observed_def using t(2) e by (simp only:)
    qed
    have B: "timer (st\<lparr>observables := t\<rparr>) = timer st" by simp
    have C: "update_observable env [(1, to_string h)] content st =
        try_answer env (result_success env) (st\<lparr>observables := t\<rparr>)"
      unfolding u t(1) outcome.case ..
    have "observed st h = Some obs" using Some by (simp add: observed_def)
    then show ?thesis using A B C by (simp only: option.case) blast
  qed
qed

text \<open>
  A well-formed location with a CoAP scheme is accepted by \<open>observe-once\<close> but answered by
  nothing at all: the handler returns without writing a byte.
\<close>
lemma coap_observe_once_silent:
  assumes "read_json env content = Some root" and "get_string env root ''device-location'' = Some location"
    and "regex_match device_location_regex location = Some details"
    and "group details 1 = ''coap'' \<or> group details 1 = ''coaps''"
  shows "observe_once env content st = Replied response_new st \<and> streambuf response_new = []"
  using assms(4) by (auto simp: observe_once_def assms(1-3) response_new_def Let_def)

end
