(* ===== verification/Transport.thy ===== *)
theory Transport
  imports Prelude
begin

text \<open>
  Reading from a socket. The three composed operations of Boost.Asio the sources call are
  not part of the repository; they are arguments of the definitions that use them, with
  their documented behaviour as the hypothesis \<open>transport\<close>: \<open>async_read_until\<close> on a stream
  buffer of limited size, with a delimiter or with a match condition, \<open>async_read\<close> with
  \<open>transfer_exactly\<close>, and \<open>async_read\<close> until the end of the stream. How much arrives at once
  is left open: a match may leave any number of bytes that follow it in the buffer. A
  stream that arrives in segments is shown to meet the hypothesis.
\<close>

section \<open>Finding the end\<close>

text \<open>A match condition tells where in a buffer the match ends.\<close>

type_synonym scanner = "bytes \<Rightarrow> nat option"

fun find_end :: "bytes \<Rightarrow> scanner" where
  "find_end delim [] = (if delim = [] then Some 0 else None)"
| "find_end delim (x # xs) =
     (if take (length delim) (x # xs) = delim then Some (length delim)
      else map_option Suc (find_end delim xs))"

text \<open>What \<open>async_read_until\<close> needs of it: a match is decided by the bytes it covers.\<close>

definition scans :: "scanner \<Rightarrow> bool" where
  "scans scan \<longleftrightarrow> (\<forall>xs n. scan xs = Some n \<longrightarrow>
     n \<le> length xs \<and> scan (take n xs) = Some n \<and> (\<forall>ys. scan (xs @ ys) = Some n))"

section \<open>The operations\<close>

datatype io_error = Eof | Aborted | Not_found | Socket_error

text \<open>
  \<open>read_until net limit buf scan\<close> appends to \<open>buf\<close>, up to \<open>limit\<close> bytes, until it matches, and
  returns the end of the match, the buffer and the rest of the stream; \<open>read_exactly net n\<close>
  returns \<open>n\<close> bytes; \<open>read_all net room\<close> reads until the end, which it reports, or until \<open>room\<close>
  bytes are there.
\<close>

type_synonym 'net read_until = "'net \<Rightarrow> nat \<Rightarrow> bytes \<Rightarrow> scanner \<Rightarrow> io_error + nat \<times> bytes \<times> 'net"
type_synonym 'net read_exactly = "'net \<Rightarrow> nat \<Rightarrow> io_error + bytes \<times> 'net"
type_synonym 'net read_all = "'net \<Rightarrow> nat \<Rightarrow> bytes \<times> io_error option \<times> 'net"

text \<open>\<open>pending\<close> is what the peer has sent, and sends, before it closes.\<close>

definition transport :: "('net \<Rightarrow> bytes) \<Rightarrow> 'net read_until \<Rightarrow> 'net read_exactly \<Rightarrow> bool" where
  "transport pending read_until read_exactly \<longleftrightarrow>
     (\<forall>net limit buf scan. scans scan \<longrightarrow> length buf \<le> limit \<longrightarrow>
       (case read_until net limit buf scan of
          Inl _ \<Rightarrow> (\<forall>n. scan (buf @ pending net) = Some n \<longrightarrow> limit < n)
        | Inr (n, buf', net') \<Rightarrow> scan buf' = Some n \<and> length buf' \<le> limit \<and>
            buf' @ pending net' = buf @ pending net)) \<and>
     (\<forall>net n. n \<le> length (pending net) \<longrightarrow>
        (\<exists>net'. read_exactly net n = Inr (take n (pending net), net') \<and>
                pending net' = drop n (pending net)))"

definition transport_to_end :: "('net \<Rightarrow> bytes) \<Rightarrow> 'net read_all \<Rightarrow> bool" where
  "transport_to_end pending read_all \<longleftrightarrow>
     (\<forall>net room. \<exists>net'. read_all net room =
        (take room (pending net), if room \<le> length (pending net) then None else Some Eof, net') \<and>
        pending net' = drop room (pending net))"

section \<open>Delimiters\<close>

lemma find_end_bounds: "find_end delim xs = Some n \<Longrightarrow> length delim \<le> n \<and> n \<le> length xs"
proof (induction xs arbitrary: n)
  case Nil
  then show ?case by (auto split: if_splits)
next
  case (Cons x xs)
  show ?case
  proof (cases "take (length delim) (x # xs) = delim")
    case True
    then have "length delim \<le> length (x # xs)" by (metis length_take min.cobounded1)
    with Cons.prems True show ?thesis by simp
  next
    case False
    with Cons.prems obtain m where "find_end delim xs = Some m" "n = Suc m" by auto
    with Cons.IH show ?thesis by fastforce
  qed
qed

lemma find_end_append:
  assumes "delim \<noteq> []" and "find_end delim xs = Some n"
  shows "find_end delim (xs @ ys) = Some n"
  using assms(2)
proof (induction xs arbitrary: n)
  case Nil
  with assms(1) show ?case by simp
next
  case (Cons x xs)
  have "length delim \<le> length (x # xs)" using find_end_bounds [OF Cons.prems] by linarith
  then have t: "take (length delim) (x # xs @ ys) = take (length delim) (x # xs)"
    by (metis append_Cons append_Nil2 diff_is_0_eq' take_0 take_append)
  show ?case
  proof (cases "take (length delim) (x # xs) = delim")
    case True
    with Cons.prems t show ?thesis by simp
  next
    case False
    with Cons.prems Cons.IH t show ?thesis by auto
  qed
qed

lemma find_end_take:
  assumes "delim \<noteq> []" and "find_end delim xs = Some n"
  shows "find_end delim (take n xs) = Some n"
  using assms(2)
proof (induction xs arbitrary: n)
  case Nil
  with assms(1) show ?case by simp
next
  case (Cons x xs)
  have n: "length delim \<le> n" using find_end_bounds [OF Cons.prems] by simp
  with assms(1) obtain m where m: "n = Suc m" by (cases n) auto
  have t: "take (length delim) (take n (x # xs)) = take (length delim) (x # xs)"
    using n by (simp add: take_take min_absorb1)
  show ?case
  proof (cases "take (length delim) (x # xs) = delim")
    case True
    then have "take n (x # xs) = delim" using Cons.prems by simp
    moreover have "find_end delim delim = Some n" using Cons.prems True assms(1) by (cases delim) auto
    ultimately show ?thesis by simp
  next
    case False
    with Cons.prems m have "find_end delim xs = Some m" by auto
    with Cons.IH False t m show ?thesis by auto
  qed
qed

lemma scans_find_end [simp]: "delim \<noteq> [] \<Longrightarrow> scans (find_end delim)"
  unfolding scans_def using find_end_bounds find_end_append find_end_take by blast

lemma find_end_line: "CR \<notin> set l \<Longrightarrow> find_end crlf (l @ crlf @ ys) = Some (length l + 2)"
  by (induction l) auto

lemma scansD:
  assumes "scans scan" and "scan xs = Some n"
  shows "n \<le> length xs" and "scan (take n xs) = Some n" and "scan (xs @ ys) = Some n"
  using assms by (auto simp: scans_def)

section \<open>Using the hypothesis\<close>

lemma transport_untilD:
  assumes "transport pending ru re" and "scans scan" and "length buf \<le> limit"
    and "ru net limit buf scan = Inr (n, buf', net')"
  shows "scan buf' = Some n" and "length buf' \<le> limit" and "buf' @ pending net' = buf @ pending net"
proof -
  from assms(1-3) have "case ru net limit buf scan of
      Inl _ \<Rightarrow> (\<forall>n. scan (buf @ pending net) = Some n \<longrightarrow> limit < n)
    | Inr (n, buf', net') \<Rightarrow> scan buf' = Some n \<and> length buf' \<le> limit \<and>
        buf' @ pending net' = buf @ pending net"
    unfolding transport_def by blast
  with assms(4) show "scan buf' = Some n" and "length buf' \<le> limit" and "buf' @ pending net' = buf @ pending net"
    by simp_all
qed

lemma transport_until:
  assumes "transport pending ru re" and "scans scan" and "length buf \<le> limit"
    and "buf @ pending net = front @ rest" and "scan (front @ rest) = Some (length front)" and "length front \<le> limit"
  obtains y net' where "ru net limit buf scan = Inr (length front, front @ y, net')" and "y @ pending net' = rest"
    and "length (front @ y) \<le> limit"
proof -
  from assms(1-3) have law: "case ru net limit buf scan of
      Inl _ \<Rightarrow> (\<forall>n. scan (buf @ pending net) = Some n \<longrightarrow> limit < n)
    | Inr (n, buf', net') \<Rightarrow> scan buf' = Some n \<and> length buf' \<le> limit \<and>
        buf' @ pending net' = buf @ pending net"
    unfolding transport_def by blast
  with assms(4-6) obtain n buf' net' where r: "ru net limit buf scan = Inr (n, buf', net')"
    and s: "scan buf' = Some n" "length buf' \<le> limit" "buf' @ pending net' = front @ rest"
    by (auto split: sum.splits)
  have n: "n = length front" using scansD(3) [OF assms(2) s(1), of "pending net'"] s(3) assms(5) by simp
  with scansD(1) [OF assms(2) s(1)] have le: "length front \<le> length buf'" by simp
  then have "take (length front) buf' = front"
    using arg_cong [OF s(3), of "take (length front)"] by simp
  then have b: "buf' = front @ drop (length front) buf'" by (metis append_take_drop_id)
  then have "drop (length front) buf' @ pending net' = rest"
    using s(3) by (metis append_assoc same_append_eq)
  with r n b s(2) show ?thesis using that [of "drop (length front) buf'" net'] by simp
qed

lemma transport_exactly:
  assumes "transport pending ru re" and "pending net = x @ rest" and "n = length x"
  obtains net' where "re net n = Inr (x, net')" and "pending net' = rest"
proof -
  have "n \<le> length (pending net)" using assms(2,3) by simp
  with assms(1) obtain net' where "re net n = Inr (take n (pending net), net')" "pending net' = drop n (pending net)"
    unfolding transport_def by blast
  with assms(2,3) that show ?thesis by simp
qed

section \<open>A segmented stream\<close>

text \<open>A segment that does not fit stays on the socket in part.\<close>

fun segments_until :: "bytes list read_until" where
  "segments_until net limit buf scan =
     (case scan buf of
        Some n \<Rightarrow> Inr (n, buf, net)
      | None \<Rightarrow>
          (case net of
             [] \<Rightarrow> Inl Eof
           | seg # net' \<Rightarrow>
               if length buf + length seg \<le> limit then segments_until net' limit (buf @ seg) scan
               else (let k = limit - length buf; buf' = buf @ take k seg
                     in case scan buf' of None \<Rightarrow> Inl Not_found | Some n \<Rightarrow> Inr (n, buf', drop k seg # net'))))"

definition segments_exactly :: "bytes list read_exactly" where
  "segments_exactly net n =
     (if n \<le> length (concat net) then Inr (take n (concat net), [drop n (concat net)]) else Inl Eof)"

definition segments_all :: "bytes list read_all" where
  "segments_all net room =
     (take room (concat net), if room \<le> length (concat net) then None else Some Eof, [drop room (concat net)])"

declare segments_until.simps [simp del]

lemma segments_until_law:
  assumes "scans scan" and "length buf \<le> limit"
  shows "case segments_until net limit buf scan of
     Inl _ \<Rightarrow> (\<forall>n. scan (buf @ concat net) = Some n \<longrightarrow> limit < n)
   | Inr (n, buf', net') \<Rightarrow> scan buf' = Some n \<and> length buf' \<le> limit \<and> buf' @ concat net' = buf @ concat net"
  using assms(2)
proof (induction net arbitrary: buf)
  case Nil
  then show ?case by (subst segments_until.simps) (simp split: option.split)
next
  case (Cons seg net)
  show ?case
  proof (cases "scan buf")
    case (Some n)
    with Cons.prems show ?thesis by (subst segments_until.simps) simp
  next
    case None
    show ?thesis
    proof (cases "length buf + length seg \<le> limit")
      case True
      have "(buf @ seg) @ concat net = buf @ concat (seg # net)" by simp
      with None True show ?thesis
        using Cons.IH [of "buf @ seg"] by (subst segments_until.simps) (simp only: option.case list.case if_True length_append)
    next
      case False
      let ?k = "limit - length buf"
      have len: "length (buf @ take ?k seg) = limit" using Cons.prems False by simp
      have whole: "(buf @ take ?k seg) @ drop ?k seg @ concat net = buf @ concat (seg # net)" by simp
      show ?thesis
      proof (cases "scan (buf @ take ?k seg)")
        case no: None
        have "limit < n" if "scan (buf @ concat (seg # net)) = Some n" for n
        proof (rule ccontr)
          assume "\<not> limit < n"
          then have n: "n \<le> limit" by simp
          have "take n (buf @ concat (seg # net)) = take n (buf @ take ?k seg)"
            using n len by (metis append.assoc diff_is_0_eq' take_append take_eq_Nil append_Nil2 whole)
          with scansD(2) [OF assms(1) that] have "scan (take n (buf @ take ?k seg)) = Some n" by simp
          then have "scan (take n (buf @ take ?k seg) @ drop n (buf @ take ?k seg)) = Some n"
            by (rule scansD(3) [OF assms(1)])
          with no show False by (simp only: append_take_drop_id option.distinct)
        qed
        with None False no show ?thesis by (subst segments_until.simps) (simp add: Let_def)
      next
        case (Some n)
        with None False len show ?thesis by (subst segments_until.simps) (simp add: Let_def)
      qed
    qed
  qed
qed

lemma transport_segments: "transport concat segments_until segments_exactly"
  unfolding transport_def using segments_until_law by (auto simp: segments_exactly_def)

lemma transport_segments_all: "transport_to_end concat segments_all"
  by (simp add: transport_to_end_def segments_all_def)

end
