(* ===== verification/Chunked.thy ===== *)
theory Chunked
  imports Numbers Transport
begin

text \<open>
  The decoder of the chunked transfer encoding, \<open>read_chunked_transfer_encoded\<close> of
  \<open>src/src/http/server_http.hpp\<close> and of \<open>src/src/http/client_http.hpp\<close>. Both read size lines into
  a buffer of their own, which may swallow part of the chunk or more, and fetch the rest of
  the chunk from the socket (theory \<open>Transport\<close>); how much arrives at once is up to the
  network. \<open>limit\<close> is the size of the buffer of the size lines, at least 18 bytes. A loop
  that needs not end is an option.
\<close>

section \<open>One chunk\<close>

text \<open>
  What follows the size line, the same in both decoders: \<open>transferred\<close> bytes of the buffer
  do not count as read in advance, \<open>room\<close> is what the target buffer can take (its \<open>prepare\<close>
  throws beyond that, and a read stops when it is full).
\<close>

datatype 'net chunk_read = Chunk bytes bytes 'net | Chunk_error io_error | Chunk_throws

definition size_add :: "nat \<Rightarrow> nat \<Rightarrow> nat" where
  "size_add a b = (a + b) mod 2 ^ 64"

definition take_chunk ::
  "'net read_exactly \<Rightarrow> 'net \<Rightarrow> bytes \<Rightarrow> nat \<Rightarrow> nat \<Rightarrow> nat \<Rightarrow> 'net chunk_read"
where
  "take_chunk read_exactly net buf transferred chunk_size room =
     (let num_additional_bytes = size_sub (length buf) transferred;
          bytes_to_move = min chunk_size num_additional_bytes;
          data = take bytes_to_move buf;
          buf = drop bytes_to_move buf
      in if room < bytes_to_move then Chunk_throws
         else if num_additional_bytes < chunk_size then
           (case read_exactly net (min (chunk_size - num_additional_bytes) (room - bytes_to_move)) of
              Inl e \<Rightarrow> Chunk_error e
            | Inr (more, net) \<Rightarrow>
                (case read_exactly net 2 of
                   Inl e \<Rightarrow> Chunk_error e
                 | Inr (_, net) \<Rightarrow> Chunk (data @ more) buf net))
         else if num_additional_bytes < size_add 2 chunk_size then
           (let missing = size_sub (size_add 2 chunk_size) num_additional_bytes;
                buf = (if missing = 1 then drop 1 buf else buf)
            in (case read_exactly net missing of
                  Inl e \<Rightarrow> Chunk_error e
                | Inr (_, net) \<Rightarrow> Chunk data buf net))
         else Chunk data (drop 2 buf) net)"

text \<open>The size line; \<open>getline\<close> on an empty buffer leaves an empty line.\<close>

definition size_line :: "nat \<Rightarrow> bytes \<Rightarrow> bytes \<times> bytes \<times> nat" where
  "size_line n buf =
     (let (line, buf') = (case getline buf of None \<Rightarrow> ([], []) | Some lb \<Rightarrow> lb)
      in (line, buf', size_sub n (length line + 1)))"

section \<open>The server\<close>

text \<open>The body is complete and \<open>find_resource\<close> is called; or an error is reported, in the
  case of a body that is too large after a reply.\<close>

datatype 'net server_body =
    Body bytes bytes 'net | Bad_size | Payload_too_large | Broken_read io_error | Handler_throws

partial_function (option) server_chunks ::
  "'net read_until \<Rightarrow> 'net read_exactly \<Rightarrow> nat \<Rightarrow> nat \<Rightarrow> 'net \<Rightarrow> bytes \<Rightarrow> bytes \<Rightarrow> 'net server_body option"
where
  "server_chunks read_until read_exactly limit max_size net buf body =
     (case read_until net limit buf (find_end crlf) of
        Inl e \<Rightarrow> Some (Broken_read e)
      | Inr (n, buf1, net1) \<Rightarrow>
     (case size_line n buf1 of
        (line, buf2, transferred) \<Rightarrow>
     (case stoul 16 line of
        Ok chunk_size \<Rightarrow>
          if chunk_size = 0 then Some (Body body buf2 net1)
          else if max_size < size_add chunk_size (length body) then Some Payload_too_large
          else (case take_chunk read_exactly net1 buf2 transferred chunk_size (max_size - length body) of
                  Chunk data buf3 net2 \<Rightarrow>
                    server_chunks read_until read_exactly limit max_size net2 buf3 (body @ data)
                | Chunk_error e \<Rightarrow> Some (Broken_read e)
                | Chunk_throws \<Rightarrow> Some Handler_throws)
      | _ \<Rightarrow> Some Bad_size)))"

section \<open>The client\<close>

text \<open>
  The client delivers what it has when a chunk does not fit any more, as a part that is not
  the last, and goes on with an empty content. The result lists the parts; the last
  component is what is left in the buffer of the size lines.
\<close>

datatype 'net client_body =
    Parts "bytes list" bytes 'net | Client_bad_size "bytes list" | Client_broken "bytes list" io_error | Client_throws "bytes list"

partial_function (option) client_chunks ::
  "'net read_until \<Rightarrow> 'net read_exactly \<Rightarrow> nat \<Rightarrow> nat \<Rightarrow> 'net \<Rightarrow> bytes \<Rightarrow> bytes list \<Rightarrow> bytes \<Rightarrow> 'net client_body option"
where
  "client_chunks read_until read_exactly limit max_size net buf parts body =
     (case read_until net limit buf (find_end crlf) of
        Inl e \<Rightarrow> Some (Client_broken parts e)
      | Inr (n, buf1, net1) \<Rightarrow>
     (case size_line n buf1 of
        (line, buf2, transferred) \<Rightarrow>
     (case stoul 16 line of
        Ok chunk_size \<Rightarrow>
          if chunk_size = 0 then Some (Parts (parts @ [body]) buf2 net1)
          else (let full = max_size < size_add chunk_size (length body);
                    parts = (if full then parts @ [body] else parts);
                    body = (if full then [] else body)
                in case take_chunk read_exactly net1 buf2 transferred chunk_size (max_size - length body) of
                     Chunk data buf3 net2 \<Rightarrow>
                       client_chunks read_until read_exactly limit max_size net2 buf3 parts (body @ data)
                   | Chunk_error e \<Rightarrow> Some (Client_broken parts e)
                   | Chunk_throws \<Rightarrow> Some (Client_throws parts))
      | _ \<Rightarrow> Some (Client_bad_size parts))))"

section \<open>The encoding\<close>

text \<open>A size line is any text that \<open>stoul\<close> reads as the size, so it may carry an extension, of 16
  bytes at most.\<close>

definition size_text :: "bytes \<Rightarrow> nat \<Rightarrow> bool" where
  "size_text l n \<longleftrightarrow> length l \<le> 16 \<and> CR \<notin> set l \<and> LF \<notin> set l \<and> stoul 16 (l @ [CR]) = Ok n"

definition chunk_text :: "bytes \<times> bytes \<Rightarrow> bytes" where
  "chunk_text chunk = fst chunk @ crlf @ snd chunk @ crlf"

definition chunk_ok :: "bytes \<times> bytes \<Rightarrow> bool" where
  "chunk_ok chunk \<longleftrightarrow> snd chunk \<noteq> [] \<and> size_text (fst chunk) (length (snd chunk))"

lemma transport_line:
  assumes tr: "transport pending ru re" and st: "buf @ pending net = l @ crlf @ rest" and l: "CR \<notin> set l" "length l \<le> 16"
    and lim: "18 \<le> limit" "length buf \<le> limit"
  obtains y net' where "ru net limit buf (find_end crlf) = Inr (length l + 2, l @ crlf @ y, net')"
    and "y @ pending net' = rest" and "length y \<le> limit"
proof -
  have "scans (find_end crlf)" by simp
  moreover have "buf @ pending net = (l @ crlf) @ rest" using st by simp
  moreover have "find_end crlf ((l @ crlf) @ rest) = Some (length (l @ crlf))" using find_end_line [OF l(1)] by simp
  moreover have "length (l @ crlf) \<le> limit" using l(2) lim(1) by simp
  ultimately obtain y net' where "ru net limit buf (find_end crlf) = Inr (length (l @ crlf), (l @ crlf) @ y, net')"
    "y @ pending net' = rest" "length ((l @ crlf) @ y) \<le> limit"
    by (rule transport_until [OF tr _ lim(2)])
  then show ?thesis using that [of y net'] by simp
qed

lemma take_chunk_ok:
  assumes tr: "transport pending ru re" and st: "y @ pending net = d @ crlf @ rest"
    and room: "length d \<le> room" and small: "length d < 2 ^ 63"
  obtains buf' net' where "take_chunk re net y 0 (length d) room = Chunk d buf' net'" and "buf' @ pending net' = rest"
    and "length buf' \<le> length y"
proof -
  consider "length y < length d" | "length d \<le> length y" "length y < length d + 2" | "length d + 2 \<le> length y"
    by linarith
  then show ?thesis
  proof cases
    case 1
    then obtain more where d: "d = y @ more" "pending net = more @ crlf @ rest"
      using st by (auto simp: append_eq_append_conv2)
    obtain net1 where 1: "re net (length more) = Inr (more, net1)" "pending net1 = crlf @ rest"
      by (rule transport_exactly [OF tr d(2) refl])
    obtain net2 where 2: "re net1 2 = Inr (crlf, net2)" "pending net2 = rest"
      by (rule transport_exactly [OF tr 1(2), of 2]) simp_all
    have "min (length d - length y) (room - length y) = length more" using d(1) room by simp
    with 1 2 d(1) room \<open>length y < length d\<close> show ?thesis
      by (intro that [of "[]" net2]) (auto simp: take_chunk_def size_sub_def Let_def)
  next
    case 2
    then obtain z where y: "y = d @ z" and z: "z @ pending net = crlf @ rest"
      using st by (auto simp: append_eq_append_conv2)
    show ?thesis
    proof (cases z)
      case Nil
      then have "pending net = crlf @ rest" using z by simp
      then obtain net1 where "re net 2 = Inr (crlf, net1)" "pending net1 = rest"
        using transport_exactly [OF tr, of net crlf rest 2] by auto
      with y Nil small room show ?thesis
        by (intro that [of "[]" net1]) (auto simp: take_chunk_def size_sub_def size_add_def Let_def)
    next
      case (Cons c z')
      then have "z' = []" using 2(2) y by simp
      then have "c = CR" "pending net = [LF] @ rest" using z Cons by simp_all
      moreover obtain net1 where "re net 1 = Inr ([LF], net1)" "pending net1 = rest"
        using transport_exactly [OF tr \<open>pending net = [LF] @ rest\<close>, of 1] by auto
      ultimately show ?thesis using y Cons \<open>z' = []\<close> small room
        by (intro that [of "[]" net1]) (auto simp: take_chunk_def size_sub_def size_add_def Let_def)
    qed
  next
    case 3
    then obtain z where y: "y = d @ crlf @ z" "z @ pending net = rest"
      using st by (cases "drop (length d) y"; cases "tl (drop (length d) y)")
        (auto simp: append_eq_append_conv2)
    with small room show ?thesis
      by (intro that [of z net]) (auto simp: take_chunk_def size_sub_def size_add_def Let_def)
  qed
qed

lemma size_line_text:
  assumes "LF \<notin> set l"
  shows "size_line (length l + 2) (l @ crlf @ y) = (l @ [CR], y, 0)"
  using assms getline_line [of "l @ [CR]" y] by (simp add: size_line_def size_sub_def)

section \<open>Decoding an encoded body\<close>

lemma server_chunks_step:
  assumes tr: "transport pending ru re" and st: "buf @ pending net = chunk_text chunk @ rest" and ok: "chunk_ok chunk"
    and sz: "length body + length (snd chunk) \<le> max_size" and max: "length body + length (snd chunk) < 2 ^ 63"
    and lim: "18 \<le> limit" "length buf \<le> limit"
  obtains buf' net' where "buf' @ pending net' = rest" and "length buf' \<le> limit"
    and "server_chunks ru re limit max_size net buf body = server_chunks ru re limit max_size net' buf' (body @ snd chunk)"
proof -
  obtain l d where c: "chunk = (l, d)" by (cases chunk)
  have l: "CR \<notin> set l" "LF \<notin> set l" "stoul 16 (l @ [CR]) = Ok (length d)" "d \<noteq> []"
    and l5: "length l \<le> 16" using ok by (auto simp: c chunk_ok_def size_text_def)
  have "buf @ pending net = l @ crlf @ d @ crlf @ rest" using st by (simp add: c chunk_text_def)
  then obtain y net1 where 1: "ru net limit buf (find_end crlf) = Inr (length l + 2, l @ crlf @ y, net1)"
    "y @ pending net1 = d @ crlf @ rest" "length y \<le> limit"
    by (rule transport_line [OF tr _ l(1) l5 lim])
  have "length d \<le> max_size - length body" "length d < 2 ^ 63" using sz max c by simp_all
  then obtain buf' net' where 2: "take_chunk re net1 y 0 (length d) (max_size - length body) = Chunk d buf' net'"
    "buf' @ pending net' = rest" "length buf' \<le> length y" by (rule take_chunk_ok [OF tr 1(2)])
  have "size_add (length d) (length body) = length d + length body"
    using sz max c by (simp add: size_add_def)
  then have fits: "\<not> max_size < size_add (length d) (length body)" using sz c by simp
  show ?thesis
    by (rule that [OF 2(2) le_trans [OF 2(3) 1(3)]], subst server_chunks.simps)
      (simp add: 1(1) size_line_text [OF l(2), simplified] l(3,4) fits 2(1) c)
qed

lemma server_chunks_decodes:
  assumes tr: "transport pending ru re" and lim: "18 \<le> limit"
    and "\<forall>chunk \<in> set chunks. chunk_ok chunk" and "size_text final 0"
    and "length body + length (concat (map snd chunks)) \<le> max_size" and "length buf \<le> limit"
    and "buf @ pending net = concat (map chunk_text chunks) @ final @ crlf @ rest"
    and "length body + length (concat (map snd chunks)) < 2 ^ 63"
  shows "\<exists>buf' net'. server_chunks ru re limit max_size net buf body =
      Some (Body (body @ concat (map snd chunks)) buf' net') \<and> buf' @ pending net' = rest"
  using assms(3-)
proof (induction chunks arbitrary: body buf net)
  case Nil
  have l: "CR \<notin> set final" "LF \<notin> set final" "stoul 16 (final @ [CR]) = Ok 0"
    and l5: "length final \<le> 16" using Nil.prems(2) by (auto simp: size_text_def)
  from Nil.prems(5) have "buf @ pending net = final @ crlf @ rest" by simp
  then obtain y net1 where 1: "ru net limit buf (find_end crlf) = Inr (length final + 2, final @ crlf @ y, net1)"
    "y @ pending net1 = rest"
    by (rule transport_line [OF tr _ l(1) l5 lim Nil.prems(4)])
  then show ?case
    by (intro exI [of _ y] exI [of _ net1], subst server_chunks.simps)
      (simp add: size_line_text [OF l(2), simplified] l(3))
next
  case (Cons chunk chunks)
  have "buf @ pending net = chunk_text chunk @ concat (map chunk_text chunks) @ final @ crlf @ rest"
    using Cons.prems(5) by simp
  moreover have "chunk_ok chunk" "length body + length (snd chunk) \<le> max_size"
    and max: "length body + length (snd chunk) < 2 ^ 63" using Cons.prems by simp_all
  ultimately obtain buf1 net1 where 1: "buf1 @ pending net1 = concat (map chunk_text chunks) @ final @ crlf @ rest" "length buf1 \<le> limit"
    "server_chunks ru re limit max_size net buf body = server_chunks ru re limit max_size net1 buf1 (body @ snd chunk)"
    by (rule server_chunks_step [OF tr _ _ _ _ lim Cons.prems(4)])
  from Cons.IH [OF _ Cons.prems(2) _ 1(2,1), of "body @ snd chunk"] Cons.prems(1,3,6) show ?case
    by (simp add: 1(3))
qed

lemma client_chunks_step:
  assumes tr: "transport pending ru re" and st: "buf @ pending net = chunk_text chunk @ rest" and ok: "chunk_ok chunk"
    and sz: "length (snd chunk) \<le> max_size" "length body \<le> max_size" and max: "length body + length (snd chunk) < 2 ^ 63"
    and lim: "18 \<le> limit" "length buf \<le> limit"
  obtains buf' net' parts' body' where "buf' @ pending net' = rest" and "length buf' \<le> limit"
    and "client_chunks ru re limit max_size net buf parts body = client_chunks ru re limit max_size net' buf' parts' body'"
    and "concat parts' @ body' = concat parts @ body @ snd chunk" and "length body' \<le> max_size"
    and "length body' \<le> length body + length (snd chunk)"
proof -
  obtain l d where c: "chunk = (l, d)" by (cases chunk)
  have l: "CR \<notin> set l" "LF \<notin> set l" "stoul 16 (l @ [CR]) = Ok (length d)" "d \<noteq> []"
    and l5: "length l \<le> 16" using ok by (auto simp: c chunk_ok_def size_text_def)
  have "buf @ pending net = l @ crlf @ d @ crlf @ rest" using st by (simp add: c chunk_text_def)
  then obtain y net1 where 1: "ru net limit buf (find_end crlf) = Inr (length l + 2, l @ crlf @ y, net1)"
    "y @ pending net1 = d @ crlf @ rest" "length y \<le> limit"
    by (rule transport_line [OF tr _ l(1) l5 lim])
  let ?full = "max_size < size_add (length d) (length body)"
  let ?parts = "if ?full then parts @ [body] else parts" and ?body = "if ?full then [] else body"
  have a: "size_add (length d) (length body) = length d + length body"
    using sz max c by (simp add: size_add_def)
  have "length d \<le> max_size - length ?body" "length d < 2 ^ 63" using sz max c a by auto
  then obtain buf' net' where 2: "take_chunk re net1 y 0 (length d) (max_size - length ?body) = Chunk d buf' net'"
    "buf' @ pending net' = rest" "length buf' \<le> length y" by (rule take_chunk_ok [OF tr 1(2)])
  have "client_chunks ru re limit max_size net buf parts body = client_chunks ru re limit max_size net' buf' ?parts (?body @ d)"
    by (subst client_chunks.simps)
      (simp only: 1(1) sum.case prod.case size_line_text [OF l(2)] l(3) outcome.case l(4)
        length_0_conv if_False Let_def 2(1) chunk_read.case)
  moreover have "concat ?parts @ ?body @ d = concat parts @ body @ d" by simp
  moreover have "length (?body @ d) \<le> max_size" using a sz c by auto
  moreover have "length (?body @ d) \<le> length body + length (snd chunk)" using c by simp
  ultimately show ?thesis using 2(2) le_trans [OF 2(3) 1(3)] that c by simp
qed

lemma client_chunks_decodes:
  assumes tr: "transport pending ru re" and lim: "18 \<le> limit"
    and "\<forall>chunk \<in> set chunks. chunk_ok chunk \<and> length (snd chunk) \<le> max_size" and "size_text final 0"
    and "length body \<le> max_size" and "length buf \<le> limit"
    and "buf @ pending net = concat (map chunk_text chunks) @ final @ crlf @ rest"
    and "length body + length (concat (map snd chunks)) < 2 ^ 63"
  shows "\<exists>parts' buf' net'. client_chunks ru re limit max_size net buf parts body = Some (Parts parts' buf' net') \<and>
    concat parts' = concat parts @ body @ concat (map snd chunks) \<and> buf' @ pending net' = rest \<and> parts' \<noteq> []"
  using assms(3-)
proof (induction chunks arbitrary: parts body buf net)
  case Nil
  have l: "CR \<notin> set final" "LF \<notin> set final" "stoul 16 (final @ [CR]) = Ok 0"
    and l5: "length final \<le> 16" using Nil.prems(2) by (auto simp: size_text_def)
  from Nil.prems(5) have "buf @ pending net = final @ crlf @ rest" by simp
  then obtain y net1 where 1: "ru net limit buf (find_end crlf) = Inr (length final + 2, final @ crlf @ y, net1)"
    "y @ pending net1 = rest"
    by (rule transport_line [OF tr _ l(1) l5 lim Nil.prems(4)])
  then show ?case
    by (intro exI [of _ "parts @ [body]"] exI [of _ y] exI [of _ net1], subst client_chunks.simps)
      (simp add: size_line_text [OF l(2), simplified] l(3))
next
  case (Cons chunk chunks)
  have "buf @ pending net = chunk_text chunk @ concat (map chunk_text chunks) @ final @ crlf @ rest"
    using Cons.prems(5) by simp
  moreover have "chunk_ok chunk" "length (snd chunk) \<le> max_size"
    and max: "length body + length (snd chunk) < 2 ^ 63" using Cons.prems by simp_all
  ultimately obtain buf1 net1 parts1 body1 where 1:
    "buf1 @ pending net1 = concat (map chunk_text chunks) @ final @ crlf @ rest" "length buf1 \<le> limit"
    "client_chunks ru re limit max_size net buf parts body = client_chunks ru re limit max_size net1 buf1 parts1 body1"
    "concat parts1 @ body1 = concat parts @ body @ snd chunk" "length body1 \<le> max_size"
    "length body1 \<le> length body + length (snd chunk)"
    by (rule client_chunks_step [OF tr _ _ _ Cons.prems(3) _ lim Cons.prems(4), where parts = parts])
  from Cons.IH [OF _ Cons.prems(2) 1(5,2,1), of parts1] Cons.prems(1,6) 1(6) obtain parts' buf' net' where
    "client_chunks ru re limit max_size net1 buf1 parts1 body1 = Some (Parts parts' buf' net')"
    "concat parts' = concat parts1 @ body1 @ concat (map snd chunks)" "buf' @ pending net' = rest" "parts' \<noteq> []" by auto
  with 1(3,4) show ?case by simp
qed

text \<open>
  The check of the size of the body adds modulo \<open>2\<^sup>6\<^sup>4\<close>: a size just below wraps around and
  passes, whatever the limit.
\<close>

lemma size_check_wraps:
  assumes "0 < length body" and "length body \<le> max_size" and "max_size < 2 ^ 63"
  shows "max_size < 2 ^ 64 - length body" and "\<not> max_size < size_add (2 ^ 64 - length body) (length body)"
proof -
  show "max_size < 2 ^ 64 - length body" using assms(2,3) by simp
  have "2 ^ 64 - length body + length body = 2 ^ 64" using assms(2,3) by simp
  then show "\<not> max_size < size_add (2 ^ 64 - length body) (length body)" by (simp add: size_add_def)
qed

section \<open>Properties\<close>

text \<open>
  However the network cuts the stream into segments, the server decodes a chunked body,
  size lines with extensions included, to the concatenation of its chunks, provided it fits
  the limit; what follows the last size line is left, partly in the buffer of the size
  lines, partly on the socket.
\<close>
lemma server_decodes_chunks:
  assumes "transport pending read_until read_exactly" and "18 \<le> limit"
    and "\<forall>chunk \<in> set chunks. chunk_ok chunk" and "size_text final 0"
    and "length body + length (concat (map snd chunks)) \<le> max_size" and "length buf \<le> limit"
    and "buf @ pending net = concat (map chunk_text chunks) @ final @ crlf @ rest"
    and "length body + length (concat (map snd chunks)) < 2 ^ 63"
  shows "\<exists>buf' net'. server_chunks read_until read_exactly limit max_size net buf body =
      Some (Body (body @ concat (map snd chunks)) buf' net') \<and> buf' @ pending net' = rest"
  by (rule server_chunks_decodes [OF assms])

lemma size_texts: "size_text ''3;x'' (length ''abc'')" "size_text ''1'' (length ''d'')" "size_text ''0'' 0"
  by (simp_all add: size_text_def stoul_def scan_int_def scan_prefix_def digit_in_def digits_val_def
      digit_of_def is_space_def)

text \<open>
  The client decodes a chunked body to parts whose concatenation is that of the chunks,
  in order and without loss, also when the body exceeds the limit of its buffer and is
  delivered in several parts, provided each chunk fits.
\<close>
lemma client_decodes_chunks:
  assumes "transport pending read_until read_exactly" and "18 \<le> limit"
    and "\<forall>chunk \<in> set chunks. chunk_ok chunk \<and> length (snd chunk) \<le> max_size" and "size_text final 0"
    and "length buf \<le> limit"
    and "buf @ pending net = concat (map chunk_text chunks) @ final @ crlf @ rest"
    and "length (concat (map snd chunks)) < 2 ^ 63"
  shows "\<exists>parts buf' net'. client_chunks read_until read_exactly limit max_size net buf [] [] =
      Some (Parts parts buf' net') \<and> concat parts = concat (map snd chunks) \<and> buf' @ pending net' = rest"
  using client_chunks_decodes [OF assms(1-4) _ assms(5,6), of "[]" "[]"] assms(7) by auto

end
