(* ===== verification/Http_Server.thy ===== *)
theory Http_Server
  imports Http_Message Chunked Regex_Match Server_Response
begin

text \<open>
  The life of a request in \<open>src/src/http/server_http.hpp\<close>: \<open>read\<close> takes the header from the
  socket and then the content, by its length or in chunks; \<open>find_resource\<close> chooses the
  handler; the handler that runs when the response has been sent decides whether the
  connection is read again. Sockets are those of theory \<open>Chunked\<close>. A request that ends in
  \<open>on_error\<close> is answered by nothing: the response with status 413 is written to a buffer that
  is dropped, since only the responses \<open>write\<close> makes are sent when they are destroyed.
\<close>

section \<open>Reading a request\<close>

datatype server_error =
    Protocol_error | Message_size | Operation_canceled | Read_failed io_error

datatype 'net read_result = Ready request_message bytes 'net | Failed server_error | Escaped

definition request_new :: request_message where
  "request_new = \<lparr>req_method = [], req_path = [], req_query = [], req_version = [], req_header = []\<rparr>"

definition header_end :: bytes where
  "header_end = crlf @ crlf"

text \<open>The content of known length: what the buffer holds after the header, and the missing
  rest from the socket.\<close>

definition read_length ::
  "'net read_exactly \<Rightarrow> nat \<Rightarrow> 'net \<Rightarrow> request_message \<Rightarrow> bytes \<Rightarrow> nat \<Rightarrow> nat \<Rightarrow> 'net read_result"
where
  "read_length read_exactly max_size net m left content_length num_additional_bytes =
     (if max_size < content_length then Failed Message_size
      else if num_additional_bytes < content_length then
        (case read_exactly net
            (min (content_length - num_additional_bytes) (max_size - length left)) of
           Inl e \<Rightarrow> Failed (Read_failed e)
         | Inr (missing, net') \<Rightarrow> Ready m (left @ missing) net')
      else Ready m left net)"

text \<open>The content in chunks: what the buffer holds moves to the buffer of the size lines.\<close>

definition read_chunked ::
  "'net read_until \<Rightarrow> 'net read_exactly \<Rightarrow> nat \<Rightarrow> 'net \<Rightarrow> request_message \<Rightarrow> bytes \<Rightarrow> 'net read_result option"
where
  "read_chunked read_until read_exactly max_size net m left =
     map_option (\<lambda>b. case b of
         Body body buf net' \<Rightarrow> Ready m body net'
       | Bad_size \<Rightarrow> Failed Protocol_error
       | Payload_too_large \<Rightarrow> Failed Message_size
       | Broken_read e \<Rightarrow> Failed (Read_failed e)
       | Handler_throws \<Rightarrow> Escaped)
     (server_chunks read_until read_exactly (max 18 (length left)) max_size net left [])"

definition server_read ::
  "'net read_until \<Rightarrow> 'net read_exactly \<Rightarrow> nat \<Rightarrow> 'net \<Rightarrow> 'net read_result option"
where
  "server_read read_until read_exactly max_size net =
     (case read_until net max_size [] (find_end header_end) of
        Inl e \<Rightarrow> Some (Failed (Read_failed e))
      | Inr (bytes_transferred, buf, net1) \<Rightarrow>
     (let num_additional_bytes = size_sub (length buf) bytes_transferred in
      case request_parse buf request_new of
        None \<Rightarrow> Some Escaped
      | Some (ok, m, left) \<Rightarrow>
          if \<not> ok then Some (Failed Protocol_error)
          else (case header_find ''Content-Length'' (req_header m) of
                  Some v \<Rightarrow>
                    (case stoul 10 v of
                       Ok content_length \<Rightarrow>
                         Some (read_length read_exactly max_size net1 m left content_length num_additional_bytes)
                     | _ \<Rightarrow> Some (Failed Protocol_error))
                | None \<Rightarrow>
                    if header_find ''Transfer-Encoding'' (req_header m) = Some ''chunked''
                    then read_chunked read_until read_exactly max_size net1 m left
                    else Some (Ready m left net1))))"

section \<open>Choosing the handler\<close>

text \<open>A resource is an expression with its handlers by method; the map \<open>resource\<close> is listed in
  its order, that of the texts of the expressions.\<close>

type_synonym 'h resources = "(rx \<times> (bytes \<times> 'h) list) list"

datatype 'h found = Upgraded | Resource 'h captures | Default 'h | Unanswered

fun match_resource :: "'h resources \<Rightarrow> bytes \<Rightarrow> bytes \<Rightarrow> ('h \<times> captures) option" where
  "match_resource [] meth path = None"
| "match_resource ((rx, methods) # rest) meth path =
     (case map_of methods meth of
        None \<Rightarrow> match_resource rest meth path
      | Some handler \<Rightarrow>
          (case regex_match rx path of
             Some sm_res \<Rightarrow> Some (handler, sm_res)
           | None \<Rightarrow> match_resource rest meth path))"

definition find_resource ::
  "bool \<Rightarrow> 'h resources \<Rightarrow> (bytes \<times> 'h) list \<Rightarrow> request_message \<Rightarrow> 'h found" where
  "find_resource on_upgrade resources default_resource m =
     (if on_upgrade \<and> header_find ''Upgrade'' (req_header m) \<noteq> None then Upgraded
      else (case match_resource resources (req_method m) (req_path m) of
              Some (handler, sm_res) \<Rightarrow> Resource handler sm_res
            | None \<Rightarrow> (case map_of default_resource (req_method m) of
                         Some handler \<Rightarrow> Default handler | None \<Rightarrow> Unanswered)))"

section \<open>After the response\<close>

datatype next_step = Read_again | Drop

fun str_less :: "bytes \<Rightarrow> bytes \<Rightarrow> bool" where
  "str_less s [] = False"
| "str_less [] (y # ys) = True"
| "str_less (x # xs) (y # ys) =
     ((of_char x :: nat) < of_char y \<or> (x = y \<and> str_less xs ys))"

fun connection_choice :: "headers \<Rightarrow> next_step option" where
  "connection_choice [] = None"
| "connection_choice ((name, val) # header) =
     (if case_insensitive_equal name ''Connection'' then
        (if case_insensitive_equal val ''close'' then Some Drop
         else if case_insensitive_equal val ''keep-alive'' then Some Read_again
         else connection_choice header)
      else connection_choice header)"

definition after_response :: "bool \<Rightarrow> response \<Rightarrow> request_message \<Rightarrow> next_step" where
  "after_response failed response m =
     (if failed then Drop
      else if close_connection_after_response response then Drop
      else (case connection_choice (req_header m) of
              Some step \<Rightarrow> step
            | None \<Rightarrow> if \<not> str_less (req_version m) ''1.1'' then Read_again else Drop))"

section \<open>The end of the header\<close>

lemma find_end_skip:
  "delim = CR # ds \<Longrightarrow> CR \<notin> set l \<Longrightarrow> find_end delim (l @ xs) = map_option (\<lambda>n. length l + n) (find_end delim xs)"
proof (induction l)
  case Nil
  then show ?case by (simp add: option.map_ident)
next
  case (Cons c l)
  then show ?case by (cases "find_end delim xs") auto
qed

text \<open>A line of a header: not empty, without carriage returns.\<close>

definition line_ok :: "bytes \<Rightarrow> bool" where
  "line_ok l \<longleftrightarrow> l \<noteq> [] \<and> CR \<notin> set l"

lemma find_end_line_header:
  assumes "line_ok l" and "xs \<noteq> []" and "hd xs \<noteq> CR"
  shows "find_end header_end (l @ crlf @ xs) = map_option (\<lambda>n. length l + 2 + n) (find_end header_end xs)"
proof -
  obtain x xs' where xs: "xs = x # xs'" "x \<noteq> CR" using assms(2,3) by (cases xs) auto
  have "find_end header_end (crlf @ xs) = map_option (\<lambda>n. 2 + n) (find_end header_end xs)"
    using xs by (simp add: header_end_def option.map_comp comp_def)
  moreover have "find_end header_end (l @ crlf @ xs) =
      map_option (\<lambda>n. length l + n) (find_end header_end (crlf @ xs))"
    by (rule find_end_skip) (use assms(1) in \<open>simp_all add: header_end_def line_ok_def\<close>)
  ultimately show ?thesis by (simp add: option.map_comp comp_def add.assoc)
qed

lemma find_end_lines:
  assumes "line_ok l" and "\<forall>l \<in> set ls. line_ok l"
  shows "find_end header_end (l @ crlf @ concat (map (\<lambda>l. l @ crlf) ls) @ crlf @ rest) =
    Some (length (l @ crlf @ concat (map (\<lambda>l. l @ crlf) ls) @ crlf))"
  using assms
proof (induction ls arbitrary: l)
  case Nil
  have "find_end header_end (l @ crlf @ crlf @ rest) = map_option (\<lambda>n. length l + n) (find_end header_end (crlf @ crlf @ rest))"
    by (rule find_end_skip) (use Nil in \<open>simp_all add: header_end_def line_ok_def\<close>)
  then show ?case by (simp add: header_end_def)
next
  case (Cons k ls)
  have k: "line_ok k" using Cons.prems by simp
  let ?xs = "k @ crlf @ concat (map (\<lambda>l. l @ crlf) ls) @ crlf @ rest"
  obtain c k' where "k = c # k'" "c \<noteq> CR" using k by (cases k) (auto simp: line_ok_def)
  then have "?xs \<noteq> []" "hd ?xs \<noteq> CR" by simp_all
  from find_end_line_header [OF Cons.prems(1) this] Cons.IH [OF k] Cons.prems(2)
  show ?case by simp
qed

section \<open>A request as it is written\<close>

definition plain :: "bytes \<Rightarrow> bool" where
  "plain s \<longleftrightarrow> CR \<notin> set s \<and> LF \<notin> set s"

definition head_ok :: "bytes \<Rightarrow> bytes \<Rightarrow> bytes option \<Rightarrow> bytes \<Rightarrow> headers \<Rightarrow> bool" where
  "head_ok meth path query version header \<longleftrightarrow>
     CHR '' '' \<notin> set meth \<and> plain meth \<and> target_ok path query \<and> CR \<notin> set (target_text path query) \<and>
     plain version \<and> (\<forall>field \<in> set header. field_ok field \<and> CR \<notin> set (fst field) \<and> CR \<notin> set (snd field))"

definition parsed_request :: "bytes \<Rightarrow> bytes \<Rightarrow> bytes option \<Rightarrow> bytes \<Rightarrow> headers \<Rightarrow> request_message" where
  "parsed_request meth path query version header =
     \<lparr>req_method = meth, req_path = path, req_query = (case query of None \<Rightarrow> [] | Some q \<Rightarrow> q),
      req_version = version, req_header = header\<rparr>"

lemma request_text_lines:
  "request_text meth target version header =
     (meth @ '' '' @ target @ '' HTTP/'' @ version) @ crlf @
     concat (map (\<lambda>l. l @ crlf) (map (\<lambda>field. fst field @ '': '' @ snd field) header)) @ crlf"
  by (induction header) (simp_all add: request_text_def header_line_def)

lemma request_text_end:
  assumes "head_ok meth path query version header"
  shows "find_end header_end (request_text meth (target_text path query) version header @ rest) =
    Some (length (request_text meth (target_text path query) version header))"
proof -
  let ?l = "meth @ '' '' @ target_text path query @ '' HTTP/'' @ version"
    and ?ls = "map (\<lambda>field. fst field @ '': '' @ snd field) header"
  have "line_ok ?l" "\<forall>l \<in> set ?ls. line_ok l"
    using assms by (auto simp: head_ok_def line_ok_def plain_def)
  from find_end_lines [OF this, of rest] show ?thesis
    unfolding request_text_lines by (simp only: append_assoc)
qed

lemma request_text_parsed:
  assumes "head_ok meth path query version header"
  shows "request_parse (request_text meth (target_text path query) version header @ body) request_new =
    Some (True, parsed_request meth path query version header, body)"
  using assms request_parse_text [of meth path query version header body request_new]
  by (cases query) (simp_all add: head_ok_def plain_def parsed_request_def request_new_def)

text \<open>However the stream is cut, the header is read and parsed; a part of what follows is in
  the buffer.\<close>

lemma server_read_head:
  assumes tr: "transport pending ru re" and h: "head_ok meth path query version header"
    and st: "pending net = request_text meth (target_text path query) version header @ rest"
    and fits: "length (request_text meth (target_text path query) version header) \<le> max_size"
  obtains y net1 where
    "ru net max_size [] (find_end header_end) =
      Inr (length (request_text meth (target_text path query) version header),
           request_text meth (target_text path query) version header @ y, net1)"
    and "y @ pending net1 = rest" and "length y \<le> max_size"
proof -
  have sc: "scans (find_end header_end)" by (simp add: header_end_def)
  have st': "[] @ pending net = request_text meth (target_text path query) version header @ rest"
    using st by simp
  obtain y net1 where "ru net max_size [] (find_end header_end) =
      Inr (length (request_text meth (target_text path query) version header),
           request_text meth (target_text path query) version header @ y, net1)"
    "y @ pending net1 = rest" "length (request_text meth (target_text path query) version header @ y) \<le> max_size"
    by (rule transport_until [where ru = ru and net = net and limit = max_size and buf = "[]" and
        scan = "find_end header_end" and rest = rest, OF tr sc _ st' request_text_end [OF h] fits]) simp_all
  then show ?thesis by (intro that) (auto dest: add_leD2)
qed

lemma server_read_unfold:
  assumes "ru net max_size [] (find_end header_end) =
      Inr (length (request_text meth (target_text path query) version header),
           request_text meth (target_text path query) version header @ y, net1)"
    and h: "head_ok meth path query version header"
  shows "server_read ru re max_size net =
    (let m = parsed_request meth path query version header in
     case header_find ''Content-Length'' header of
       Some v \<Rightarrow>
         (case stoul 10 v of
            Ok content_length \<Rightarrow> Some (read_length re max_size net1 m y content_length (length y))
          | _ \<Rightarrow> Some (Failed Protocol_error))
     | None \<Rightarrow>
         if header_find ''Transfer-Encoding'' header = Some ''chunked''
         then read_chunked ru re max_size net1 m y else Some (Ready m y net1))"
proof -
  have "req_header (parsed_request meth path query version header) = header"
    by (simp add: parsed_request_def)
  moreover have "size_sub (length (request_text meth (target_text path query) version header @ y))
      (length (request_text meth (target_text path query) version header)) = length y"
    by (simp add: size_sub_def)
  ultimately show ?thesis
    by (simp only: server_read_def assms(1) sum.case prod.case request_text_parsed [OF h] option.case
        Let_def not_True_eq_False if_False)
qed

lemma read_length_ok:
  assumes tr: "transport pending ru re" and st: "y @ pending net1 = body @ extra" and fits: "length body \<le> max_size"
  shows "\<exists>more net'. read_length re max_size net1 m y (length body) (length y) = Ready m (body @ more) net' \<and>
    more @ pending net' = extra"
proof (cases "length y < length body")
  case True
  then obtain missing where d: "body = y @ missing" "pending net1 = missing @ extra"
    using st by (auto simp: append_eq_append_conv2)
  then obtain net' where "re net1 (length missing) = Inr (missing, net')" "pending net' = extra"
    using transport_exactly [OF tr d(2) refl] by blast
  moreover have "min (length body - length y) (max_size - length y) = length missing" using d(1) fits by simp
  ultimately show ?thesis using True d(1) fits by (auto simp: read_length_def)
next
  case False
  then obtain more where "y = body @ more" "more @ pending net1 = extra"
    using st by (auto simp: append_eq_append_conv2)
  then show ?thesis using False fits by (auto simp: read_length_def)
qed

section \<open>The size of a content\<close>

text \<open>What the limits need of the socket: a buffer does not outgrow its size, and no read
  returns more than was asked for.\<close>

definition within_limits :: "'net read_until \<Rightarrow> 'net read_exactly \<Rightarrow> bool" where
  "within_limits read_until read_exactly \<longleftrightarrow>
     (\<forall>net limit buf scan n buf' net'. read_until net limit buf scan = Inr (n, buf', net') \<longrightarrow>
        length buf' \<le> max limit (length buf)) \<and>
     (\<forall>net n data net'. read_exactly net n = Inr (data, net') \<longrightarrow> length data \<le> n)"

lemma within_limitsD:
  assumes "within_limits ru re"
  shows "ru net limit buf scan = Inr (n, buf', net') \<Longrightarrow> length buf' \<le> max limit (length buf)"
    and "re net n = Inr (data, net') \<Longrightarrow> length data \<le> n"
  using assms unfolding within_limits_def by blast+

lemma take_chunk_within:
  assumes "within_limits ru re" and "take_chunk re net buf transferred chunk_size room = Chunk data buf' net'"
  shows "length data \<le> room"
  using assms(2) within_limitsD(2) [OF assms(1)]
  by (fastforce simp: take_chunk_def Let_def split: if_splits sum.splits)

lemma server_chunks_within:
  assumes "server_chunks ru re limit max_size net buf body = Some b" and "within_limits ru re" and "length body \<le> max_size"
  shows "\<forall>content buf' net'. b = Body content buf' net' \<longrightarrow> length content \<le> max_size"
proof -
  have "within_limits ru re \<and> length body \<le> max_size \<longrightarrow>
    (\<forall>content buf' net'. b = Body content buf' net' \<longrightarrow> length content \<le> max_size)"
  proof (rule server_chunks.raw_induct [where P = "\<lambda>ru re limit max_size net buf body b.
      within_limits ru re \<and> length body \<le> max_size \<longrightarrow>
      (\<forall>content buf' net'. b = Body content buf' net' \<longrightarrow> length content \<le> max_size)", OF _ assms(1)], goal_cases)
    case (1 self ru re limit max_size net buf body b)
    show ?case
    proof (intro impI)
      assume wl: "within_limits ru re \<and> length body \<le> max_size"
      have step: "length body + length data \<le> max_size"
        if "take_chunk re net' buf' t c (max_size - length body) = Chunk data buf'' net''" for net' buf' t c data buf'' net''
        using take_chunk_within [OF conjunct1 [OF wl] that] conjunct2 [OF wl] by linarith
      show "\<forall>content buf' net'. b = Body content buf' net' \<longrightarrow> length content \<le> max_size"
        using 1(2) wl step
        by (auto split: sum.splits prod.splits outcome.splits if_splits chunk_read.splits dest!: 1(1))
    qed
  qed
  with assms(2,3) show ?thesis by blast
qed

lemma request_parse_left:
  assumes "request_parse stream m0 = Some (ok, m, left)"
  shows "length left \<le> length stream"
proof -
  have g: "length r < length stream" if "getline stream = Some (l, r)" for l r using that by (rule getline_shorter)
  have h: "length left' \<le> length s" if "header_parse s = Some (header, left')" for s header left'
    using header_parse_total [of s] that by auto
  from assms show ?thesis
    by (auto simp: request_parse_def Let_def split: option.splits bind_splits prod.splits if_splits dest!: g h)
qed

lemma segments_until_within:
  "segments_until net limit buf scan = Inr (n, buf', net') \<Longrightarrow> length buf' \<le> max limit (length buf)"
proof (induction net arbitrary: buf)
  case Nil
  then show ?case by (subst (asm) segments_until.simps) (auto split: option.splits)
next
  case (Cons seg net)
  show ?case
    using Cons.prems Cons.IH [of "buf @ seg"]
    by (subst (asm) segments_until.simps) (auto simp: Let_def split: option.splits if_splits)
qed

lemma within_limits_segments: "within_limits segments_until segments_exactly"
  using segments_until_within by (auto simp: within_limits_def segments_exactly_def)

lemma server_read_within:
  assumes wl: "within_limits ru re" and r: "server_read ru re max_size net = Some (Ready m content net')"
  shows "length content \<le> max_size"
proof -
  obtain n buf net1 ok m' left where 1: "ru net max_size [] (find_end header_end) = Inr (n, buf, net1)"
    "request_parse buf request_new = Some (ok, m', left)"
    using r by (auto simp: server_read_def Let_def split: sum.splits option.splits)
  have left: "length left \<le> max_size"
    using within_limitsD(1) [OF wl 1(1)] request_parse_left [OF 1(2)] by simp
  have len: "length c \<le> max_size" if "read_length re max_size net1 m'' left k a = Ready m c net'" for m'' k a c
    using that left by (auto simp: read_length_def split: if_splits sum.splits dest!: within_limitsD(2) [OF wl])
  have chunks: "length c \<le> max_size" if "read_chunked ru re max_size net1 m'' left = Some (Ready m c net')" for m'' c
  proof -
    from that obtain b where b: "server_chunks ru re (max 18 (length left)) max_size net1 left [] = Some b"
      by (auto simp: read_chunked_def)
    with that server_chunks_within [OF b wl] show ?thesis by (cases b) (simp_all add: read_chunked_def)
  qed
  show ?thesis
    using r 1 left
    by (auto simp: server_read_def Let_def split: if_splits option.splits outcome.splits dest: len chunks)
qed

section \<open>Properties\<close>

text \<open>
  C21: A request with a length is read whole, however the network cuts it: the handler gets
  its method, path, query, version, header and a content that starts with its body. What
  the peer sends after it is not kept apart: the part that has arrived is in the content
  of this request, only the rest stays on the socket for the next one.
\<close>
theorem server_reads_sized_request:
  assumes "transport pending read_until read_exactly" and "head_ok meth path query version header"
    and "pending net = request_text meth (target_text path query) version header @ body @ extra"
    and "header_find ''Content-Length'' header = Some v" and "stoul 10 v = Ok (length body)"
    and "length (request_text meth (target_text path query) version header) \<le> max_size" and "length body \<le> max_size"
  shows "\<exists>more net'. server_read read_until read_exactly max_size net =
      Some (Ready (parsed_request meth path query version header) (body @ more) net') \<and> more @ pending net' = extra"
proof -
  obtain y net1 where 1: "read_until net max_size [] (find_end header_end) =
      Inr (length (request_text meth (target_text path query) version header),
           request_text meth (target_text path query) version header @ y, net1)" "y @ pending net1 = body @ extra"
    by (rule server_read_head [OF assms(1-3,6)])
  from read_length_ok [OF assms(1) 1(2) assms(7)] show ?thesis
    unfolding server_read_unfold [where ru = read_until and net = net, OF 1(1) assms(2)] assms(4) by (simp add: Let_def assms(5))
qed

lemma stoul_five: "stoul 10 ''5'' = Ok (length ''hello'')"
  by (simp add: stoul_def scan_int_def scan_prefix_def digit_in_def digits_val_def digit_of_def is_space_def)

theorem server_reads_sized_request_witness:
  "\<exists>more net'. server_read segments_until segments_exactly 1000
      [''POST /a?x=1 HT'', ''TP/1.1'' @ crlf @ ''Content-Length: 5'' @ [CR], [LF] @ crlf @ ''hel'', ''lo'', ''GET''] =
    Some (Ready (parsed_request ''POST'' ''/a'' (Some ''x=1'') ''1.1'' [(''Content-Length'', ''5'')]) (''hello'' @ more) net') \<and>
    more @ concat net' = ''GET''"
  by (rule server_reads_sized_request [OF transport_segments, where v = "''5''"])
    (simp_all add: head_ok_def plain_def target_ok_def field_ok_def request_text_def target_text_def
      header_line_def case_insensitive_equal_def stoul_five)

text \<open>
  C22: A request in chunks is read whole, however the network cuts it, and its content is the
  concatenation of its chunks. What has arrived beyond the last size line is lost with the
  buffer of the size lines, the line break that ends the body as well as a next request.
\<close>
theorem server_reads_chunked_request:
  assumes "transport pending read_until read_exactly" and "head_ok meth path query version header"
    and "pending net = request_text meth (target_text path query) version header @
      concat (map chunk_text chunks) @ final @ crlf @ extra"
    and "header_find ''Content-Length'' header = None" and "header_find ''Transfer-Encoding'' header = Some ''chunked''"
    and "\<forall>chunk \<in> set chunks. chunk_ok chunk" and "size_text final 0"
    and "length (request_text meth (target_text path query) version header) \<le> max_size"
    and "length (concat (map snd chunks)) \<le> max_size" and "length (concat (map snd chunks)) < 2 ^ 63"
  shows "\<exists>lost net'. server_read read_until read_exactly max_size net =
      Some (Ready (parsed_request meth path query version header) (concat (map snd chunks)) net') \<and>
      lost @ pending net' = extra"
proof -
  obtain y net1 where 1: "read_until net max_size [] (find_end header_end) =
      Inr (length (request_text meth (target_text path query) version header),
           request_text meth (target_text path query) version header @ y, net1)"
    "y @ pending net1 = concat (map chunk_text chunks) @ final @ crlf @ extra"
    by (rule server_read_head [OF assms(1-3,8)])
  obtain buf' net' where "server_chunks read_until read_exactly (max 18 (length y)) max_size net1 y [] =
      Some (Body (concat (map snd chunks)) buf' net')" "buf' @ pending net' = extra"
    using server_chunks_decodes [OF assms(1) _ assms(6,7) _ _ 1(2), of "max 18 (length y)" "[]" max_size] assms(9,10)
    by auto
  then show ?thesis
    unfolding server_read_unfold [where ru = read_until and net = net, OF 1(1) assms(2)] assms(4,5) by (auto simp: Let_def read_chunked_def)
qed

lemma size_text_five: "size_text ''5'' (length ''hello'')" "size_text ''0'' 0"
  by (simp_all add: size_text_def stoul_def scan_int_def scan_prefix_def digit_in_def digits_val_def
      digit_of_def is_space_def)

theorem server_reads_chunked_request_witness:
  "\<exists>lost net'. server_read segments_until segments_exactly 1000
      [''POST / HTTP/1.1'' @ crlf @ ''Transfer-Encoding: chunked'' @ crlf @ crlf @ ''5'', crlf @ ''hel'', ''lo'' @ crlf @ ''0'' @ crlf] =
    Some (Ready (parsed_request ''POST'' ''/'' None ''1.1'' [(''Transfer-Encoding'', ''chunked'')])
      (concat (map snd [(''5'', ''hello'')])) net') \<and> lost @ concat net' = []"
  by (rule server_reads_chunked_request [OF transport_segments, where final = "''0''"])
    (use size_text_five in \<open>simp_all add: head_ok_def plain_def target_ok_def field_ok_def request_text_def target_text_def
      header_line_def case_insensitive_equal_def chunk_ok_def chunk_text_def tolower_def\<close>)



end
