(* ===== verification/Static_Files.thy ===== *)
theory Static_Files
  imports Server_Response
begin

text \<open>
  The default resource of \<open>src/src/http-server.cpp\<close>: a file of the directory \<open>web\<close>, checked to
  lie within it, sent in pieces of 128 KB. The file system is Boost's and the operating
  system's; it is the record \<open>files\<close>. A path is the list of the components over which
  \<open>boost::filesystem::path\<close> iterates.
\<close>

section \<open>The file system\<close>

type_synonym path = "bytes list"

text \<open>
  \<open>web_root\<close> is \<open>canonical("web")\<close>; \<open>resolve root p\<close> is \<open>canonical(root / p)\<close>, with every link and
  every dot resolved; \<^term>\<open>None\<close> is the exception of a path that does not exist. \<open>read_file\<close>
  is an \<open>ifstream\<close> on the path, with the content it has until its end.
\<close>

record files =
  web_root :: "path option"
  resolve :: "path \<Rightarrow> bytes \<Rightarrow> path option"
  is_directory :: "path \<Rightarrow> bool"
  read_file :: "path \<Rightarrow> bytes option"

section \<open>The file of a request\<close>

text \<open>The comparison of the root with the first components of the path.\<close>

definition within :: "path \<Rightarrow> path \<Rightarrow> bool" where
  "within web_root_path path \<longleftrightarrow>
     \<not> length path < length web_root_path \<and> take (length web_root_path) path = web_root_path"

definition static_file :: "files \<Rightarrow> bytes \<Rightarrow> (path \<times> bytes) option" where
  "static_file fs request_path =
     (case web_root fs of
        None \<Rightarrow> None
      | Some web_root_path \<Rightarrow>
     (case resolve fs web_root_path request_path of
        None \<Rightarrow> None
      | Some path \<Rightarrow>
          if \<not> within web_root_path path then None
          else (let path = (if is_directory fs path then path @ [''index.html''] else path)
                in map_option (\<lambda>content. (path, content)) (read_file fs path))))"

section \<open>Sending it\<close>

definition file_buffer :: nat where
  "file_buffer = 131072"

text \<open>
  The recursion of \<open>read_and_send\<close> over what is left of the file: each full buffer is sent and
  its completion reads on; the rest goes out when the response is destroyed. The result
  lists the buffers that are sent as long as no send fails.
\<close>

function read_and_send :: "nat \<Rightarrow> bytes \<Rightarrow> response \<Rightarrow> bytes list" where
  "read_and_send buffer_size left response =
     (let piece = take buffer_size left
      in if piece \<noteq> [] then
           (let response = put piece response
            in if length piece = buffer_size
               then streambuf response #
                 read_and_send buffer_size (drop buffer_size left) (response\<lparr>streambuf := []\<rparr>)
               else [streambuf response])
         else [streambuf response])"
  by auto
termination
  by (relation "measure (\<lambda>(n, left, r). length left)") auto

declare read_and_send.simps [simp del]

text \<open>With sends that may fail, \<open>completed k\<close> saying of the \<open>k\<close>th whether it is completed: after one that
  is not, nothing is read any more, and the response that is destroyed holds an empty buffer.\<close>

function read_and_send_until :: "(nat \<Rightarrow> bool) \<Rightarrow> nat \<Rightarrow> nat \<Rightarrow> bytes \<Rightarrow> response \<Rightarrow> bytes list" where
  "read_and_send_until completed k buffer_size left response =
     (let piece = take buffer_size left
      in if piece \<noteq> [] then
           (let response = put piece response
            in if length piece = buffer_size
               then streambuf response #
                 (if completed k then read_and_send_until completed (Suc k) buffer_size (drop buffer_size left) (response\<lparr>streambuf := []\<rparr>)
                  else [[]])
               else [streambuf response])
         else [streambuf response])"
  by auto
termination
  by (relation "measure (\<lambda>(completed, k, n, left, r). length left)") auto

declare read_and_send_until.simps [simp del]

definition file_header :: "bytes \<Rightarrow> headers" where
  "file_header content =
     [(''Cache-Control'', ''max-age=86400''), (''Content-Length'', to_string (length content))]"

definition file_not_found :: "bytes \<Rightarrow> response" where
  "file_not_found request_path =
     write_content (StatusCode_of client_error_not_found) (''Could not open path '' @ request_path) [] response_new"

definition serve_file :: "files \<Rightarrow> bytes \<Rightarrow> bytes list" where
  "serve_file fs request_path =
     (case static_file fs request_path of
        None \<Rightarrow> [streambuf (file_not_found request_path)]
      | Some (path, content) \<Rightarrow>
          read_and_send file_buffer content (write_header_only (file_header content) response_new))"

section \<open>The pieces\<close>

lemma read_and_send_concat:
  "0 < n \<Longrightarrow> concat (read_and_send n left r) = streambuf r @ left"
proof (induction n left r rule: read_and_send.induct)
  case (1 n left r)
  show ?case
  proof (cases "take n left = []")
    case True
    with \<open>0 < n\<close> have "left = []" by simp
    with True show ?thesis by (subst read_and_send.simps) (simp add: Let_def)
  next
    case False
    with 1 show ?thesis
      by (subst read_and_send.simps) (auto simp: Let_def min_def simp del: take_eq_Nil split: if_splits)
  qed
qed

text \<open>An interrupted file is a part of it from the start; without a failure it is the file.\<close>

lemma read_and_send_interrupted:
  "\<exists>rest. concat (read_and_send n left r) = concat (read_and_send_until completed k n left r) @ rest \<and>
    ((\<forall>j. completed j) \<longrightarrow> rest = [])"
proof (induction completed k n left r rule: read_and_send_until.induct)
  case (1 completed k n left r)
  show ?case
  proof (cases "take n left \<noteq> [] \<and> length (take n left) = n \<and> completed k")
    case True
    with 1 show ?thesis
      by (simp add: read_and_send.simps [of n left] read_and_send_until.simps [of completed k n left] Let_def)
  next
    case False
    then show ?thesis
      by (auto simp: read_and_send.simps [of n left] read_and_send_until.simps [of completed k n left] Let_def)
  qed
qed

lemma read_and_send_pieces:
  "0 < n \<Longrightarrow> length (read_and_send n left r) = length left div n + 1 \<and>
    (\<forall>buf \<in> set (tl (read_and_send n left r)). length buf \<le> n)"
proof (induction n left r rule: read_and_send.induct)
  case (1 n left r)
  consider "left = []" | "left \<noteq> []" "length left < n" | "left \<noteq> []" "n \<le> length left" by linarith
  then show ?case
  proof cases
    case 1
    then show ?thesis by (subst (1 2) read_and_send.simps) (simp add: Let_def)
  next
    case 2
    then show ?thesis by (subst (1 2) read_and_send.simps) (simp add: Let_def)
  next
    case 3
    let ?r = "(put (take n left) r)\<lparr>streambuf := []\<rparr>"
    have ne: "take n left \<noteq> []" using 3 \<open>0 < n\<close> by simp
    have len: "length (take n left) = n" using 3 by simp
    have eq: "read_and_send n left r =
        (streambuf r @ take n left) # read_and_send n (drop n left) ?r"
      by (subst read_and_send.simps) (use ne len in \<open>simp add: Let_def\<close>)
    have ih: "length (read_and_send n (drop n left) ?r) = length (drop n left) div n + 1 \<and>
      (\<forall>buf \<in> set (tl (read_and_send n (drop n left) ?r)). length buf \<le> n)"
      by (rule "1.IH" [OF refl ne refl len \<open>0 < n\<close>])
    have "length left div n = length (drop n left) div n + 1"
      using 3(2) \<open>0 < n\<close> by (simp add: le_div_geq)
    moreover have "length (hd (read_and_send n (drop n left) ?r)) \<le> n"
      by (subst read_and_send.simps) (auto simp: Let_def min_def)
    moreover have some: "\<exists>b bs. xs = b # bs" if "length xs = k + 1" for xs :: "bytes list" and k
      using that by (cases xs) simp_all
    from some [OF conjunct1 [OF ih]] obtain b bs where bs: "read_and_send n (drop n left) ?r = b # bs"
      by (elim exE)
    ultimately show ?thesis using ih
      unfolding eq bs list.sel by auto
  qed
qed

lemma serve_file_text:
  assumes "static_file fs p = Some (opened, content)"
  shows "concat (serve_file fs p) =
    response_text ''1.1'' (status_code_text (StatusCode_of success_ok)) (file_header content) @ content"
proof -
  have "tolower CHR ''C'' = CHR ''c'' \<and> tolower CHR ''L'' = CHR ''l''" by code_simp
  then have "has_length (file_header content)"
    by (simp add: has_length_def file_header_def case_insensitive_equal_def tolower_def)
  then show ?thesis
    using assms
    by (simp add: serve_file_def read_and_send_concat file_buffer_def write_header_only_def write_content_eq
        framing_def response_new_def)
qed

lemma file_header_ok: "\<forall>field \<in> set (file_header content). field_ok field"
  using to_string_field_ok [of "''Content-Length''" "length content"]
  by (simp add: file_header_def field_ok_def)

section \<open>Properties\<close>


text \<open>
  A file arrives whole: the pieces that are sent form one response, which the client's
  parser reads as a success with the length of the file, with exactly the file as the rest;
  after the first piece none is longer than the buffer, and there are as many as it takes.
\<close>
lemma file_arrives_whole:
  assumes "static_file fs request_path = Some (opened, content)"
  shows "response_parse (concat (serve_file fs request_path)) m0 =
      Some (True, \<lparr>res_version = ''1.1'', res_status = status_code_text (StatusCode_of success_ok),
                   res_header = file_header content, \<dots> = response_message.more m0\<rparr>, content) \<and>
    length (serve_file fs request_path) = length content div 131072 + 1 \<and>
    (\<forall>buf \<in> set (tl (serve_file fs request_path)). length buf \<le> 131072)"
proof (intro conjI)
  have pieces: "serve_file fs request_path =
      read_and_send 131072 content (write_header_only (file_header content) response_new)"
    using assms by (simp add: serve_file_def file_buffer_def)
  show "response_parse (concat (serve_file fs request_path)) m0 =
      Some (True, \<lparr>res_version = ''1.1'', res_status = status_code_text (StatusCode_of success_ok),
                   res_header = file_header content, \<dots> = response_message.more m0\<rparr>, content)"
    unfolding serve_file_text [OF assms]
    by (rule response_parse_text) (use file_header_ok status_code_text_clean in auto)
  show "length (serve_file fs request_path) = length content div 131072 + 1"
    "\<forall>buf \<in> set (tl (serve_file fs request_path)). length buf \<le> 131072"
    unfolding pieces using read_and_send_pieces [of 131072 content] by auto
qed

definition demo_files :: files where
  "demo_files = \<lparr>web_root = Some [''/'', ''srv'', ''web''],
     resolve = (\<lambda>root p. if p = ''/'' then Some root else None),
     is_directory = (\<lambda>p. p = [''/'', ''srv'', ''web'']),
     read_file = (\<lambda>p. if p = [''/'', ''srv'', ''web'', ''index.html''] then Some ''<html>'' else None)\<rparr>"

end
