(* ===== verification/Gateway_Service.thy ===== *)
theory Gateway_Service
  imports Gateway_Properties Http_Server Static_Files
begin

text \<open>
  A request from the socket to the handler and back: the table of resources the gateway
  registers in \<open>start_http_server\<close> of \<open>src/src/http-server.cpp\<close>, and the composition of \<open>read\<close>,
  \<open>find_resource\<close>, \<open>write\<close> and the handlers. A handler that throws ends in \<open>on_error\<close>, which does
  nothing, and what it has written so far is sent all the same when the response is
  destroyed.
\<close>

section \<open>The table\<close>

text \<open>The map is ordered by the texts of the expressions; anchors do not matter to a match of
  the whole path. A handler gets the request, the match of its path and its content.\<close>

datatype service = Request request | File bytes | Nothing

type_synonym handler = "request_message \<Rightarrow> captures \<Rightarrow> bytes \<Rightarrow> service"

definition gateway_resources :: "time_point \<Rightarrow> handler resources" where
  "gateway_resources start_time =
     [(Lit ''/add-new-observable'', [(''POST'', \<lambda>m path_match content. Request (Add content))]),
      (Lit ''/get-iotdata'', [(''GET'', \<lambda>m path_match content. Request Get_iotdata_all)]),
      (numbered ''/get-iotdata/'', [(''GET'', \<lambda>m path_match content. Request (Get_iotdata path_match))]),
      (Lit ''/get-uptime'', [(''GET'', \<lambda>m path_match content. Request (Get_uptime start_time))]),
      (Lit ''/observe-once'', [(''POST'', \<lambda>m path_match content. Request (Observe_once content))]),
      (numbered ''/remove-observable/'', [(''POST'', \<lambda>m path_match content. Request (Remove path_match))]),
      (numbered ''/update-observable/'', [(''POST'', \<lambda>m path_match content. Request (Update path_match content))])]"

definition gateway_default :: "(bytes \<times> handler) list" where
  "gateway_default = [(''GET'', \<lambda>m path_match content. File (req_path m))]"

definition service_of :: "time_point \<Rightarrow> request_message \<Rightarrow> bytes \<Rightarrow> service" where
  "service_of start_time m content =
     (case find_resource False (gateway_resources start_time) gateway_default m of
        Resource handler path_match \<Rightarrow> handler m path_match content
      | Default handler \<Rightarrow> handler m [] content
      | _ \<Rightarrow> Nothing)"

section \<open>One request\<close>

text \<open>
  What a connection sends for one request, whether it goes on, and the new state.
  \<open>Unanswered_request\<close>: the session is dropped and nothing is sent.
\<close>

datatype ('w, 'd, 'net) served =
    Answered "bytes list" next_step "('w, 'd) gateway" 'net
  | Unanswered_request "server_error option" "('w, 'd) gateway"
  | Ends_server | Out_of_bounds

definition respond ::
  "('w, 'p, 'd) env \<Rightarrow> files \<Rightarrow> time_point \<Rightarrow> request_message \<Rightarrow> bytes \<Rightarrow> 'net \<Rightarrow> ('w, 'd) gateway \<Rightarrow>
   ('w, 'd, 'net) served option" where
  "respond env fs start_time m content net st =
     (case service_of start_time m content of
        Nothing \<Rightarrow> Some (Unanswered_request None st)
      | File target \<Rightarrow> Some (Answered (serve_file fs target) (after_response False response_new m) st net)
      | Request req \<Rightarrow>
          map_option (\<lambda>handled. case handled of
              Replied response st' \<Rightarrow> Answered [streambuf response] (after_response False response m) st' net
            | Thrown response st' \<Rightarrow> Answered [streambuf response] (after_response False response m) st' net
            | Broken \<Rightarrow> Out_of_bounds)
          (handle_request env req st))"

definition serve_request ::
  "('w, 'p, 'd) env \<Rightarrow> files \<Rightarrow> time_point \<Rightarrow> 'net read_until \<Rightarrow> 'net read_exactly \<Rightarrow> nat \<Rightarrow> 'net \<Rightarrow>
   ('w, 'd) gateway \<Rightarrow> ('w, 'd, 'net) served option" where
  "serve_request env fs start_time read_until read_exactly max_size net st =
     (case server_read read_until read_exactly max_size net of
        None \<Rightarrow> None
      | Some (Failed e) \<Rightarrow> Some (Unanswered_request (Some e) st)
      | Some Escaped \<Rightarrow> Some Ends_server
      | Some (Ready m content net') \<Rightarrow> respond env fs start_time m content net' st)"

section \<open>The table, read\<close>

lemma parses_Lit: "(c, t) \<in> set (parses (Lit l) s) \<longleftrightarrow> c = [] \<and> s = l @ t"
proof (induction l arbitrary: s c)
  case Nil
  then show ?case by auto
next
  case (Cons x l)
  have "in_cls [(x, x)] y \<longleftrightarrow> y = x" for y by (auto simp: in_cls_def)
  then show ?case by (auto simp: in_parses_Seq Cons.IH)
qed

lemma regex_match_Lit: "regex_match (Lit l) s = (if s = l then Some [] else None)"
proof (cases "regex_match (Lit l) s")
  case None
  then show ?thesis by (auto simp: regex_match_None_iff parses_Lit)
next
  case (Some c)
  from regex_match_SomeD [OF Some] Some show ?thesis by (auto simp: parses_Lit)
qed

text \<open>A path with a handle: a prefix and digits.\<close>

definition with_number :: "bytes \<Rightarrow> bytes \<Rightarrow> bool" where
  "with_number prefix target \<longleftrightarrow> (\<exists>d. target = prefix @ d \<and> word digit_chars d)"

definition number :: "bytes \<Rightarrow> bytes \<Rightarrow> captures" where
  "number prefix target = [(1, drop (length prefix) target)]"

lemma numbered_path:
  "regex_match (numbered prefix) target = (if with_number prefix target then Some (number prefix target) else None)"
  by (simp add: numbered_match with_number_def number_def)

lemma method_only: "map_of [(meth, h)] meth' = (if meth' = meth then Some h else None)"
  by auto

lemma word_digits: "word digit_chars d \<longleftrightarrow> d \<noteq> [] \<and> (\<forall>c \<in> set d. is_digit c)"
  by (auto simp: word_def digit_chars_def in_cls_def is_digit_def list_all_iff)

section \<open>Replies keep the connection\<close>

lemma write_content_close [simp]:
  "close_connection_after_response (write_content code content header r) = close_connection_after_response r"
  by (simp add: write_content_def write_header_def write_status_line_def write_fields_eq Let_def)

lemma response_new_close [simp]: "\<not> close_connection_after_response response_new"
  by (simp add: response_new_def)

lemma not_found_close [simp]: "\<not> close_connection_after_response not_found"
  by (simp add: not_found_def)

lemma try_answer_reply:
  obtains r where "try_answer env root st = Replied r st" and "\<not> close_connection_after_response r"
  by (cases "send_json_response env root response_new")
    (auto simp: try_answer_def send_json_response_def split: option.splits)

section \<open>A request with a length\<close>

lemma serve_sized:
  assumes "transport pending read_until read_exactly" and "head_ok meth target query version header"
    and "pending net = request_text meth (target_text target query) version header @ body @ extra"
    and "header_find ''Content-Length'' header = Some v" and "stoul 10 v = Ok (length body)"
    and "length (request_text meth (target_text target query) version header) \<le> max_size" and "length body \<le> max_size"
  obtains more net' where
    "serve_request env fs start_time read_until read_exactly max_size net st =
      respond env fs start_time (parsed_request meth target query version header) (body @ more) net' st"
    and "more @ pending net' = extra"
proof -
  obtain y net1 where 1: "read_until net max_size [] (find_end header_end) =
      Inr (length (request_text meth (target_text target query) version header),
           request_text meth (target_text target query) version header @ y, net1)" "y @ pending net1 = body @ extra"
    by (rule server_read_head [OF assms(1-3,6)])
  obtain more net' where 2: "read_length read_exactly max_size net1 (parsed_request meth target query version header)
      y (length body) (length y) = Ready (parsed_request meth target query version header) (body @ more) net'"
    and 3: "more @ pending net' = extra"
    using read_length_ok [OF assms(1) 1(2) assms(7)] by blast
  have "server_read read_until read_exactly max_size net =
      Some (Ready (parsed_request meth target query version header) (body @ more) net')"
    unfolding server_read_unfold [where ru = read_until and net = net, OF 1(1) assms(2)] assms(4)
    by (simp add: Let_def assms(5) 2)
  then show ?thesis by (intro that [of more net']) (simp_all add: serve_request_def 3)
qed

lemma after_default:
  assumes "connection_choice header = None" and "\<not> close_connection_after_response r"
  shows "after_response False r (parsed_request meth target query ''1.1'' header) = Read_again"
  using assms by (simp add: after_response_def parsed_request_def)

lemma service_remove:
  assumes "word digit_chars d"
  shows "service_of start_time (parsed_request ''POST'' (''/remove-observable/'' @ d) None ''1.1'' header) content =
    Request (Remove [(1, d)])"
proof -
  have "with_number ''/remove-observable/'' (''/remove-observable/'' @ d)"
    using assms unfolding with_number_def by blast
  moreover have "number ''/remove-observable/'' (''/remove-observable/'' @ d) = [(1, d)]"
    by (simp add: number_def)
  ultimately show ?thesis
    unfolding service_of_def find_resource_def gateway_resources_def gateway_default_def match_resource.simps
      method_only regex_match_Lit numbered_path parsed_request_def
    by simp
qed

lemma service_route:
  "service_of start_time m content =
     (let target = req_path m in
      if req_method m = ''POST'' then
        (if target = ''/add-new-observable'' then Request (Add content)
         else if target = ''/observe-once'' then Request (Observe_once content)
         else if with_number ''/remove-observable/'' target
           then Request (Remove (number ''/remove-observable/'' target))
         else if with_number ''/update-observable/'' target
           then Request (Update (number ''/update-observable/'' target) content)
         else Nothing)
      else if req_method m = ''GET'' then
        (if target = ''/get-iotdata'' then Request Get_iotdata_all
         else if with_number ''/get-iotdata/'' target then Request (Get_iotdata (number ''/get-iotdata/'' target))
         else if target = ''/get-uptime'' then Request (Get_uptime start_time)
         else File target)
      else Nothing)"
  unfolding service_of_def find_resource_def gateway_resources_def gateway_default_def match_resource.simps
    method_only regex_match_Lit numbered_path Let_def
  by simp

section \<open>Properties\<close>

text \<open>
  C11: What the gateway does with a request is a matter of its method and its whole path:
  seven resources, a file for every other GET, nothing for anything else. A path below a
  resource that takes a handle needs a decimal number and nothing after it.
\<close>
theorem requests_are_routed:
  "service_of start_time m content =
     (let target = req_path m in
      if req_method m = ''POST'' then
        (if target = ''/add-new-observable'' then Request (Add content)
         else if target = ''/observe-once'' then Request (Observe_once content)
         else if with_number ''/remove-observable/'' target
           then Request (Remove (number ''/remove-observable/'' target))
         else if with_number ''/update-observable/'' target
           then Request (Update (number ''/update-observable/'' target) content)
         else Nothing)
      else if req_method m = ''GET'' then
        (if target = ''/get-iotdata'' then Request Get_iotdata_all
         else if with_number ''/get-iotdata/'' target then Request (Get_iotdata (number ''/get-iotdata/'' target))
         else if target = ''/get-uptime'' then Request (Get_uptime start_time)
         else File target)
      else Nothing)"
  by (rule service_route)


lemma demo_read:
  "server_read segments_until segments_exactly 40 [''GET /x HTTP/1.1'' @ crlf @ crlf] =
    Some (Ready (parsed_request ''GET'' ''/x'' None ''1.1'' []) [] [])"
  by (simp add: server_read_def segments_until.simps header_end_def request_parse_def getline_def
      str_find_def substr_def size_sub_def request_target_def header_parse.simps parsed_request_def request_new_def)


text \<open>
  Over the wire: a request to remove an observable, however the network cuts it, removes
  the observable of its handle, and only it, if there is one, and leaves the connection
  open. Without one it is answered as not found. A handle from \<open>2\<^sup>3\<^sup>1\<close> on is not answered at
  all: nothing is sent, and the connection waits for the next request.
\<close>
lemma removal_over_the_wire:
  assumes "gateway_ok st" and "transport pending read_until read_exactly"
    and "head_ok ''POST'' (''/remove-observable/'' @ d) None ''1.1'' header" and "connection_choice header = None"
    and "pending net = request_text ''POST'' (target_text (''/remove-observable/'' @ d) None) ''1.1'' header @ body @ extra"
    and "header_find ''Content-Length'' header = Some v" and "stoul 10 v = Ok (length body)"
    and "length (request_text ''POST'' (target_text (''/remove-observable/'' @ d) None) ''1.1'' header) \<le> max_size"
    and "length body \<le> max_size" and "word digit_chars d"
  shows "\<exists>reply st' net'. serve_request env fs start_time read_until read_exactly max_size net st =
      Some (Answered [reply] Read_again st' net') \<and>
    (let h = digits_val 10 d in
     if 2 ^ 31 \<le> h then reply = [] \<and> st' = st
     else if observed st h = None then reply = streambuf not_found \<and> st' = st
     else observed st' = (observed st)(h := None) \<and> timer st' = timer st)"
proof -
  let ?h = "digits_val 10 d"
  define m where "m = parsed_request ''POST'' (''/remove-observable/'' @ d) None ''1.1'' header"
  have opened: "after_response False r m = Read_again" if "\<not> close_connection_after_response r" for r
    unfolding m_def by (rule after_default [OF assms(4) that])
  obtain more net' where s: "serve_request env fs start_time read_until read_exactly max_size net st =
      respond env fs start_time m (body @ more) net' st"
    unfolding m_def by (rule serve_sized [OF assms(2,3,5-9)])
  have r: "serve_request env fs start_time read_until read_exactly max_size net st =
      Some (case remove_observable env [(1, d)] st of
          Replied response st' \<Rightarrow> Answered [streambuf response] (after_response False response m) st' net'
        | Thrown response st' \<Rightarrow> Answered [streambuf response] (after_response False response m) st' net'
        | Broken \<Rightarrow> Out_of_bounds)"
    unfolding s respond_def m_def service_remove [OF assms(10)] service.case handle_request_def request.case by (rule option.map(2))
  have d: "d \<noteq> []" "\<forall>c \<in> set d. is_digit c" "group [(1, d)] 1 = d"
    using assms(10) by (simp_all add: word_digits group_def)
  note o = remove_observable_outcome [OF assms(1) d, of env, unfolded Let_def]
  consider "2 ^ 31 \<le> ?h" | "\<not> 2 ^ 31 \<le> ?h" "observed st ?h = None" | "\<not> 2 ^ 31 \<le> ?h" "observed st ?h \<noteq> None" by blast
  then show ?thesis
  proof cases
    case 1
    with o have "remove_observable env [(1, d)] st = Thrown response_new st" by (simp only: if_True)
    then show ?thesis
      using 1 opened [of response_new]
      by (intro exI [of _ "[]"] exI [of _ st] exI [of _ net']) (simp add: r response_new_def)
  next
    case 2
    with o have "remove_observable env [(1, d)] st = Replied not_found st" by (simp only: if_True if_False)
    then show ?thesis
      using 2 opened [of not_found]
      by (intro exI [of _ "streambuf not_found"] exI [of _ st] exI [of _ net']) (simp add: r)
  next
    case 3
    with o obtain st' where st': "remove_observable env [(1, d)] st = try_answer env (result_success env) st'"
      "observed st' = (observed st)(?h := None)" "timer st' = timer st" by (auto simp only: if_False)
    obtain r' where "try_answer env (result_success env) st' = Replied r' st'"
      and "\<not> close_connection_after_response r'" by (rule try_answer_reply)
    then show ?thesis
      using 3 st' opened [of r']
      by (intro exI [of _ "streambuf r'"] exI [of _ st'] exI [of _ net']) (auto simp: r)
  qed
qed

end
