(* ===== verification/Scope_Runner.thy ===== *)
theory Scope_Runner
  imports Prelude
begin

text \<open>
  \<open>ScopeRunner\<close> of \<open>src/src/http/utility.hpp\<close>: an atomic counter with which handlers hold a
  shared lock and a destructor waits for them. Threads run \<open>continue_lock\<close> and \<open>stop\<close>
  concurrently; a step is one atomic access of one thread, and the weak compare-exchange may
  fail without a reason. A handler whose \<open>continue_lock\<close> is refused does nothing.
\<close>

section \<open>Threads\<close>

text \<open>Where a thread is: outside; in the loop of \<open>continue_lock\<close> with its \<open>expected\<close>; holding a
  lock; refused; in the loop of \<open>stop\<close>; or returned from \<open>stop\<close>.\<close>

datatype scope_thread =
    Outside | Trying int | Holding | Refused | Stopping | Stopped

type_synonym scope_state = "int \<times> scope_thread list"

definition scope_new :: "nat \<Rightarrow> scope_state" where
  "scope_new n = (0, replicate n Outside)"

text \<open>One step of thread \<open>i\<close>. A failed exchange in \<open>stop\<close> returns when the counter is negative;
  otherwise it tries again with \<open>expected = 0\<close>.\<close>

inductive scope_step :: "scope_state \<Rightarrow> scope_state \<Rightarrow> bool" where
  load: "i < length ts \<Longrightarrow> ts ! i = Outside \<Longrightarrow> scope_step (c, ts) (c, ts[i := Trying c])"
| acquire: "i < length ts \<Longrightarrow> ts ! i = Trying e \<Longrightarrow> 0 \<le> e \<Longrightarrow> c = e \<Longrightarrow>
    scope_step (c, ts) (e + 1, ts[i := Holding])"
| retry: "i < length ts \<Longrightarrow> ts ! i = Trying e \<Longrightarrow> 0 \<le> e \<Longrightarrow> scope_step (c, ts) (c, ts[i := Trying c])"
| refuse: "i < length ts \<Longrightarrow> ts ! i = Trying e \<Longrightarrow> e < 0 \<Longrightarrow> scope_step (c, ts) (c, ts[i := Refused])"
| release: "i < length ts \<Longrightarrow> ts ! i = Holding \<Longrightarrow> scope_step (c, ts) (c - 1, ts[i := Outside])"
| enter_stop: "i < length ts \<Longrightarrow> ts ! i = Outside \<Longrightarrow> scope_step (c, ts) (c, ts[i := Stopping])"
| stop: "i < length ts \<Longrightarrow> ts ! i = Stopping \<Longrightarrow> c = 0 \<Longrightarrow> scope_step (c, ts) (-1, ts[i := Stopped])"
| stopped_already: "i < length ts \<Longrightarrow> ts ! i = Stopping \<Longrightarrow> c < 0 \<Longrightarrow> scope_step (c, ts) (c, ts[i := Stopped])"
| stop_again: "i < length ts \<Longrightarrow> ts ! i = Stopping \<Longrightarrow> 0 \<le> c \<Longrightarrow> scope_step (c, ts) (c, ts[i := Stopping])"

inductive_cases scope_stepE: "scope_step (c, ts) s'"

inductive scope_run :: "scope_state \<Rightarrow> scope_state \<Rightarrow> bool" where
  refl: "scope_run s s"
| step: "scope_run s s' \<Longrightarrow> scope_step s' s'' \<Longrightarrow> scope_run s s''"

section \<open>The invariant\<close>

definition holders :: "scope_thread list \<Rightarrow> nat" where
  "holders ts = length (filter (\<lambda>t. t = Holding) ts)"

text \<open>The counter counts the locks, or it is \<open>-1\<close> and there is none; nobody has returned from
  \<open>stop\<close> as long as it counts.\<close>

definition scope_ok :: "scope_state \<Rightarrow> bool" where
  "scope_ok s \<longleftrightarrow> (case s of (c, ts) \<Rightarrow>
     (c = int (holders ts) \<and> Stopped \<notin> set ts) \<or> (c = -1 \<and> holders ts = 0))"

lemma holders_same:
  "i < length ts \<Longrightarrow> ts ! i \<noteq> Holding \<Longrightarrow> t \<noteq> Holding \<Longrightarrow> holders (ts[i := t]) = holders ts"
  unfolding holders_def by (rule filter_update_unchanged) simp_all

lemma holders_more: "i < length ts \<Longrightarrow> ts ! i \<noteq> Holding \<Longrightarrow> holders (ts[i := Holding]) = Suc (holders ts)"
  unfolding holders_def by (rule length_filter_update) simp_all

lemma holders_less: "i < length ts \<Longrightarrow> ts ! i = Holding \<Longrightarrow> t \<noteq> Holding \<Longrightarrow> Suc (holders (ts[i := t])) = holders ts"
  unfolding holders_def by (rule length_filter_downdate) simp_all

lemma not_stopped: "Stopped \<notin> set ts \<Longrightarrow> t \<noteq> Stopped \<Longrightarrow> Stopped \<notin> set (ts[i := t])"
  using set_update_subset_insert [of ts i t] by auto

lemma scope_step_ok:
  assumes "scope_step s s'" and "scope_ok s"
  shows "scope_ok s'"
  using assms
proof cases
  case (release i ts c)
  then show ?thesis
    using assms(2) holders_less [of i ts Outside] not_stopped [of ts Outside i] by (auto simp: scope_ok_def)
qed (use assms(2) in \<open>auto simp: scope_ok_def holders_same holders_more not_stopped\<close>)

lemma scope_run_ok: "scope_run s s' \<Longrightarrow> scope_ok s \<Longrightarrow> scope_ok s'"
  by (induction rule: scope_run.induct) (auto dest: scope_step_ok)

lemma scope_new_ok: "scope_ok (scope_new n)"
  by (simp add: scope_ok_def scope_new_def holders_def)

lemma stopped_stays: "scope_step (c, ts) (c', ts') \<Longrightarrow> scope_ok (c, ts) \<Longrightarrow> c = -1 \<Longrightarrow> c' = -1"
  by (erule scope_stepE) (auto simp: scope_ok_def holders_def filter_empty_conv)

section \<open>Properties\<close>

text \<open>
  C32: Once \<open>stop\<close> has returned in some thread, no thread holds a lock, and none gets one later:
  what the handlers refer to may be destroyed.
\<close>
theorem stop_excludes_handlers:
  assumes "scope_run (scope_new n) (c, ts)" and "Stopped \<in> set ts" and "scope_run (c, ts) (c', ts')"
  shows "c' = -1 \<and> Holding \<notin> set ts'"
proof -
  have ok: "scope_ok (c, ts)" by (rule scope_run_ok [OF assms(1) scope_new_ok])
  then have c: "c = -1" using assms(2) by (auto simp: scope_ok_def)
  have "c' = -1" using assms(3)
  proof (induction "(c, ts)" "(c', ts')" arbitrary: c' ts' rule: scope_run.induct)
    case refl
    then show ?case using c by simp
  next
    case (step s')
    obtain c1 ts1 where s': "s' = (c1, ts1)" by (cases s')
    from step.hyps(1) scope_run_ok ok have "scope_ok (c1, ts1)" unfolding s' by blast
    then show ?case using stopped_stays step.hyps(2,3) s' by blast
  qed
  moreover have "scope_ok (c', ts')" by (rule scope_run_ok [OF assms(3) ok])
  ultimately show ?thesis by (auto simp: scope_ok_def holders_def filter_empty_conv)
qed

theorem stop_excludes_handlers_witness:
  "scope_run (scope_new 2) (-1, [Stopped, Outside]) \<and>
   scope_run (-1, [Stopped, Outside]) (-1, [Stopped, Trying (-1)]) \<and> Holding \<notin> set [Stopped, Trying (-1)]"
proof -
  have 1: "scope_step (0, [Outside, Outside]) (0, [Stopping, Outside])"
    using scope_step.enter_stop [of 0 "[Outside, Outside]" 0] by simp
  have 2: "scope_step (0, [Stopping, Outside]) (-1, [Stopped, Outside])"
    using scope_step.stop [of 0 "[Stopping, Outside]" 0] by simp
  have 3: "scope_step (-1, [Stopped, Outside]) (-1, [Stopped, Trying (-1)])"
    using scope_step.load [of 1 "[Stopped, Outside]" "-1"] by simp
  have r: "scope_run (scope_new 2) (-1, [Stopped, Outside])"
    by (rule scope_run.step [OF scope_run.step [OF scope_run.refl] 2])
      (use 1 in \<open>simp add: scope_new_def eval_nat_numeral\<close>)
  have r': "scope_run (-1, [Stopped, Outside]) (-1, [Stopped, Trying (-1)])"
    by (rule scope_run.step [OF scope_run.refl 3])
  from stop_excludes_handlers [OF r _ r'] r r' show ?thesis by simp
qed

end
