(* ===== verification/Date_Text.thy ===== *)
theory Date_Text
  imports Prelude
begin

text \<open>
  \<open>Date::to_string\<close> of \<open>src/src/http/utility.hpp\<close>: a time point as text in the format of HTTP
  dates, with a cache of the last text. A time point is a number of nanoseconds since the
  epoch; \<open>to_time_t\<close> and \<open>gmtime_r\<close> are the conversions to seconds and to the Gregorian
  calendar, written out. \<open>gmtime_r\<close> fails only for years that do not fit an \<open>int\<close>.
\<close>

section \<open>The calendar\<close>

record tm =
  tm_sec :: int
  tm_min :: int
  tm_hour :: int
  tm_mday :: int
  tm_mon :: int
  tm_year :: int
  tm_wday :: int

definition leap :: "int \<Rightarrow> bool" where
  "leap y \<longleftrightarrow> y mod 4 = 0 \<and> (y mod 100 \<noteq> 0 \<or> y mod 400 = 0)"

definition year_days :: "int \<Rightarrow> int" where
  "year_days y = (if leap y then 366 else 365)"

text \<open>Months are counted from 0.\<close>

definition month_days :: "int \<Rightarrow> int \<Rightarrow> int" where
  "month_days y m = (if m = 1 then (if leap y then 29 else 28)
     else if m = 3 \<or> m = 5 \<or> m = 8 \<or> m = 10 then 30 else 31)"

text \<open>The year and the month that hold a day, and what is left of the days.\<close>

function year_from :: "int \<Rightarrow> int \<Rightarrow> int \<times> int" where
  "year_from y days = (if days < year_days y then (y, days) else year_from (y + 1) (days - year_days y))"
  by auto
termination
  by (relation "measure (\<lambda>(y, days). nat days)") (auto simp: year_days_def split: if_splits)

function month_from :: "int \<Rightarrow> int \<Rightarrow> int \<Rightarrow> int \<times> int" where
  "month_from y m days = (if days < month_days y m \<or> 11 \<le> m then (m, days)
     else month_from y (m + 1) (days - month_days y m))"
  by auto
termination
  by (relation "measure (\<lambda>(y, m, days). nat (12 - m))") auto

declare year_from.simps [simp del] month_from.simps [simp del]

text \<open>Days since the epoch to year, month and day; the calendar repeats after 400 years.\<close>

definition civil :: "int \<Rightarrow> int \<times> int \<times> int" where
  "civil days =
     (let (y, day) = year_from 1970 (days mod 146097); (m, d) = month_from y 0 day
      in (y + 400 * (days div 146097), m, d + 1))"

definition gmtime :: "int \<Rightarrow> tm option" where
  "gmtime t =
     (let days = t div 86400; s = t mod 86400; (y, m, d) = civil days
      in if - (2 ^ 31) \<le> y - 1900 \<and> y - 1900 < 2 ^ 31
         then Some \<lparr>tm_sec = s mod 60, tm_min = s div 60 mod 60, tm_hour = s div 3600,
                tm_mday = d, tm_mon = m, tm_year = y - 1900, tm_wday = (days + 4) mod 7\<rparr>
         else None)"

definition to_time_t :: "int \<Rightarrow> int" where
  "to_time_t time_point = (if 0 \<le> time_point then time_point div 10 ^ 9 else - (- time_point div 10 ^ 9))"

section \<open>The text\<close>

definition digit48 :: "int \<Rightarrow> char" where
  "digit48 n = char_of (nat ((n + 48) mod 256))"

text \<open>C++ division truncates towards zero.\<close>

definition tdiv :: "int \<Rightarrow> int \<Rightarrow> int" where
  "tdiv a b = (if 0 \<le> a then a div b else - (- a div b))"

definition tmod :: "int \<Rightarrow> int \<Rightarrow> int" where
  "tmod a b = a - tdiv a b * b"

definition two_digits :: "int \<Rightarrow> bytes" where
  "two_digits n = [if n < 10 then CHR ''0'' else digit48 (tdiv n 10), digit48 (tmod n 10)]"

definition wday_text :: "int \<Rightarrow> bytes" where
  "wday_text d =
     (if d = 0 then ''Sun, '' else if d = 1 then ''Mon, '' else if d = 2 then ''Tue, ''
      else if d = 3 then ''Wed, '' else if d = 4 then ''Thu, '' else if d = 5 then ''Fri, ''
      else if d = 6 then ''Sat, '' else [])"

definition mon_text :: "int \<Rightarrow> bytes" where
  "mon_text m =
     (if m = 0 then '' Jan '' else if m = 1 then '' Feb '' else if m = 2 then '' Mar ''
      else if m = 3 then '' Apr '' else if m = 4 then '' May '' else if m = 5 then '' Jun ''
      else if m = 6 then '' Jul '' else if m = 7 then '' Aug '' else if m = 8 then '' Sep ''
      else if m = 9 then '' Oct '' else if m = 10 then '' Nov '' else if m = 11 then '' Dec '' else [])"

definition year_text :: "int \<Rightarrow> bytes" where
  "year_text y = [digit48 (tdiv y 1000), digit48 (tmod (tdiv y 100) 10), digit48 (tmod (tdiv y 10) 10), digit48 (tmod y 10)]"

definition format_date :: "tm \<Rightarrow> bytes" where
  "format_date t = wday_text (tm_wday t) @ two_digits (tm_mday t) @ mon_text (tm_mon t) @
     year_text (tm_year t + 1900) @ '' '' @ two_digits (tm_hour t) @ '':'' @ two_digits (tm_min t) @ '':'' @
     two_digits (tm_sec t) @ '' GMT''"

section \<open>The cache\<close>

record date_cache =
  result_cache :: bytes
  last_time_point :: int

definition date_start :: date_cache where
  "date_start = \<lparr>result_cache = [], last_time_point = 0\<rparr>"

definition date_to_string :: "int \<Rightarrow> date_cache \<Rightarrow> bytes \<times> date_cache" where
  "date_to_string time_point s =
     (if to_time_t (time_point - last_time_point s) = 0 \<and> result_cache s \<noteq> [] then (result_cache s, s)
      else (let s = s\<lparr>last_time_point := time_point\<rparr> in
            case gmtime (to_time_t time_point) of
              None \<Rightarrow> ([], s)
            | Some t \<Rightarrow> (format_date t, s\<lparr>result_cache := format_date t\<rparr>)))"

section \<open>The calendar is right\<close>

lemma year_from_ok:
  assumes "0 \<le> days" and "year_from y days = (y', day)"
  shows "y \<le> y' \<and> 0 \<le> day \<and> day < year_days y' \<and> days = (\<Sum>k \<in> {y..<y'}. year_days k) + day"
  using assms
proof (induction y days rule: year_from.induct)
  case (1 y days)
  show ?case
  proof (cases "days < year_days y")
    case True
    with 1(2,3) show ?thesis by (subst (asm) year_from.simps) simp
  next
    case False
    then have "y + 1 \<le> y' \<and> 0 \<le> day \<and> day < year_days y' \<and>
        days - year_days y = (\<Sum>k \<in> {y + 1..<y'}. year_days k) + day"
      using 1(1) [OF False] 1(3) by (subst (asm) year_from.simps) simp
    moreover have "{y..<y'} = insert y {y + 1..<y'}" if "y + 1 \<le> y'" using that by auto
    ultimately show ?thesis by auto
  qed
qed

lemma month_from_ok:
  assumes "0 \<le> days" and "0 \<le> m" and "m \<le> 11" and "days < (\<Sum>k \<in> {m..11}. month_days y k)"
    and "month_from y m days = (m', d)"
  shows "m \<le> m' \<and> m' \<le> 11 \<and> 0 \<le> d \<and> d < month_days y m' \<and> days = (\<Sum>k \<in> {m..<m'}. month_days y k) + d"
  using assms
proof (induction y m days rule: month_from.induct)
  case (1 y m days)
  have split: "{m..11} = insert m {m + 1..11}" using "1.prems"(3) by auto
  show ?case
  proof (cases "days < month_days y m \<or> 11 \<le> m")
    case True
    have "days < month_days y m"
    proof (cases "11 \<le> m")
      case True
      then have "m = 11" using "1.prems"(3) by simp
      with "1.prems"(4) show ?thesis by simp
    qed (use True in simp)
    with True "1.prems" show ?thesis by (subst (asm) month_from.simps) simp
  next
    case False
    then have "m + 1 \<le> m' \<and> m' \<le> 11 \<and> 0 \<le> d \<and> d < month_days y m' \<and>
        days - month_days y m = (\<Sum>k \<in> {m + 1..<m'}. month_days y k) + d"
      using "1.IH" [OF False] "1.prems" split by (subst (asm) (2) month_from.simps) simp
    moreover have "{m..<m'} = insert m {m + 1..<m'}" if "m + 1 \<le> m'" using that by auto
    ultimately show ?thesis by auto
  qed
qed

lemma months: "{0..11 :: int} = {0, 1, 2, 3, 4, 5, 6, 7, 8, 9, 10, 11}"
  unfolding set_eq_iff atLeastAtMost_iff insert_iff empty_iff by presburger

lemma year_months: "(\<Sum>k \<in> {0..11}. month_days y k) = year_days y"
  by (simp add: months month_days_def year_days_def)

lemma civil_ok:
  assumes "0 \<le> days" and "days < 146097" and "civil days = (y, m, d)"
  shows "1970 \<le> y \<and> 0 \<le> m \<and> m \<le> 11 \<and> 1 \<le> d \<and> d \<le> month_days y m \<and>
    days = (\<Sum>k \<in> {1970..<y}. year_days k) + (\<Sum>k \<in> {0..<m}. month_days y k) + (d - 1)"
proof -
  obtain y' day where 1: "year_from 1970 days = (y', day)" by fastforce
  obtain m' d' where 2: "month_from y' 0 day = (m', d')" by fastforce
  have eq: "y = y'" "m = m'" "d = d' + 1"
    using assms by (simp_all add: civil_def 1 2)
  note a = year_from_ok [OF assms(1) 1]
  then have "0 \<le> m' \<and> m' \<le> 11 \<and> 0 \<le> d' \<and> d' < month_days y' m' \<and> day = (\<Sum>k \<in> {0..<m'}. month_days y' k) + d'"
    by (intro month_from_ok [OF _ _ _ _ 2]) (simp_all add: year_months)
  with a eq show ?thesis by simp
qed

lemma civil_year_bound:
  assumes "0 \<le> days" and "days < 146097" and "civil days = (y, m, d)"
  shows "y \<le> 2371"
proof -
  note ok = civil_ok [OF assms]
  have "(\<Sum>k \<in> {1970..<y}. 365) \<le> (\<Sum>k \<in> {1970..<y}. year_days k)"
    by (rule sum_mono) (simp add: year_days_def)
  moreover have "0 \<le> (\<Sum>k \<in> {0..<m}. month_days y k)" by (rule sum_nonneg) (simp add: month_days_def)
  ultimately have "365 * (y - 1970) \<le> days" using ok by simp
  with assms(2) show ?thesis by simp
qed

lemma wday_length: "0 \<le> w \<Longrightarrow> w < 7 \<Longrightarrow> length (wday_text w) = 5"
proof -
  assume "0 \<le> w" "w < 7"
  then consider "w = 0" | "w = 1" | "w = 2" | "w = 3" | "w = 4" | "w = 5" | "w = 6" by linarith
  then show ?thesis by cases (simp_all add: wday_text_def)
qed

lemma mon_length: "m \<in> {0..11} \<Longrightarrow> length (mon_text m) = 5"
  unfolding months by (auto simp: mon_text_def)

section \<open>The cache is right\<close>

text \<open>The cached text is that of the last time point, as long as the calendar has not failed.\<close>

definition date_text :: "int \<Rightarrow> bytes" where
  "date_text time_point = (case gmtime (to_time_t time_point) of None \<Rightarrow> [] | Some t \<Rightarrow> format_date t)"

definition date_ok :: "date_cache \<Rightarrow> bool" where
  "date_ok s \<longleftrightarrow> result_cache s = [] \<or> result_cache s = date_text (last_time_point s)"

lemma to_time_t_zero: "to_time_t d = 0 \<longleftrightarrow> \<bar>d\<bar> < 10 ^ 9"
proof -
  have "d div 10 ^ 9 = 0 \<longleftrightarrow> d < 10 ^ 9" if "0 \<le> d" using that by (simp add: div_eq_0_iff) linarith
  moreover have "- d div 10 ^ 9 = 0 \<longleftrightarrow> - d < 10 ^ 9" if "d < 0" using that by (simp add: div_eq_0_iff) linarith
  ultimately show ?thesis by (auto simp: to_time_t_def)
qed

fun dates :: "int list \<Rightarrow> date_cache \<Rightarrow> bytes list" where
  "dates [] s = []"
| "dates (t # ts) s = (let (text, s') = date_to_string t s in text # dates ts s')"

lemma date_to_string_ok:
  assumes "date_ok s" and "gmtime (to_time_t t) \<noteq> None" and "date_to_string t s = (text', s')"
  shows "date_ok s' \<and> (\<exists>t'. \<bar>t - t'\<bar> < 10 ^ 9 \<and> text' = date_text t')"
proof (cases "to_time_t (t - last_time_point s) = 0 \<and> result_cache s \<noteq> []")
  case True
  then have "date_to_string t s = (result_cache s, s)" by (simp add: date_to_string_def)
  from trans [OF assms(3) [symmetric] this] have "text' = result_cache s \<and> s' = s" by (simp only: prod.inject)
  with True assms(1) show ?thesis by (auto simp: date_ok_def to_time_t_zero)
next
  case False
  obtain f where f: "gmtime (to_time_t t) = Some f" using assms(2) by blast
  have "text' = date_text t" "s' = s\<lparr>last_time_point := t, result_cache := date_text t\<rparr>"
    using assms(3) f unfolding date_to_string_def if_not_P [OF False] by (auto simp: Let_def date_text_def)
  then show ?thesis by (auto simp: date_ok_def intro!: exI [of _ t])
qed

lemma gmtime_some:
  assumes "0 \<le> t" and "t < 146097 * 86400"
  obtains y m d where "civil (t div 86400) = (y, m, d)"
    and "gmtime t = Some \<lparr>tm_sec = t mod 86400 mod 60, tm_min = t mod 86400 div 60 mod 60, tm_hour = t mod 86400 div 3600,
      tm_mday = d, tm_mon = m, tm_year = y - 1900, tm_wday = (t div 86400 + 4) mod 7\<rparr>"
    and "1970 \<le> y" and "y \<le> 2371" and "m \<in> {0..11}" and "1 \<le> d" and "d \<le> month_days y m"
    and "t div 86400 = (\<Sum>k \<in> {1970..<y}. year_days k) + (\<Sum>k \<in> {0..<m}. month_days y k) + (d - 1)"
proof -
  have days: "0 \<le> t div 86400" "t div 86400 < 146097" using assms by simp_all
  obtain y m d where c: "civil (t div 86400) = (y, m, d)" by (cases "civil (t div 86400)")
  note ok = civil_ok [OF days c] and b = civil_year_bound [OF days c]
  have "- (2 ^ 31) \<le> y - 1900 \<and> y - 1900 < 2 ^ 31" using ok b by simp
  then have "gmtime t = Some \<lparr>tm_sec = t mod 86400 mod 60, tm_min = t mod 86400 div 60 mod 60, tm_hour = t mod 86400 div 3600,
      tm_mday = d, tm_mon = m, tm_year = y - 1900, tm_wday = (t div 86400 + 4) mod 7\<rparr>"
    unfolding gmtime_def c Let_def prod.case by (simp only: if_True simp_thms)
  with c ok b that show ?thesis by simp
qed

section \<open>Properties\<close>

text \<open>
  From 1970 on, for 400 years, a date is 29 characters: the name of the day, the day of
  the month, the month and the year that the days since the epoch count to, and the time
  of the day.
\<close>
lemma date_is_calendar_text:
  assumes "0 \<le> time_point" and "time_point < 146097 * 86400 * 10 ^ 9"
  shows "\<exists>y m d h mi s. date_text time_point =
      wday_text ((to_time_t time_point div 86400 + 4) mod 7) @ two_digits d @ mon_text m @ year_text y @ '' '' @
      two_digits h @ '':'' @ two_digits mi @ '':'' @ two_digits s @ '' GMT'' \<and>
    to_time_t time_point = 86400 * ((\<Sum>k \<in> {1970..<y}. year_days k) + (\<Sum>k \<in> {0..<m}. month_days y k) + (d - 1)) +
      3600 * h + 60 * mi + s \<and>
    1970 \<le> y \<and> 0 \<le> m \<and> m \<le> 11 \<and> 1 \<le> d \<and> d \<le> month_days y m \<and> 0 \<le> h \<and> h < 24 \<and> 0 \<le> mi \<and> mi < 60 \<and> 0 \<le> s \<and> s < 60 \<and>
    length (date_text time_point) = 29"
proof -
  let ?t = "to_time_t time_point"
  have t: "0 \<le> ?t" "?t < 146097 * 86400" using assms by (simp_all add: to_time_t_def)
  obtain y m d where g: "gmtime ?t = Some \<lparr>tm_sec = ?t mod 86400 mod 60, tm_min = ?t mod 86400 div 60 mod 60,
      tm_hour = ?t mod 86400 div 3600, tm_mday = d, tm_mon = m, tm_year = y - 1900, tm_wday = (?t div 86400 + 4) mod 7\<rparr>"
    and y: "1970 \<le> y" and b: "m \<in> {0..11}" "1 \<le> d" "d \<le> month_days y m"
    and days: "?t div 86400 = (\<Sum>k \<in> {1970..<y}. year_days k) + (\<Sum>k \<in> {0..<m}. month_days y k) + (d - 1)"
    by (rule gmtime_some [OF t])
  let ?h = "?t mod 86400 div 3600" and ?mi = "?t mod 86400 div 60 mod 60" and ?s = "?t mod 86400 mod 60"
  have w: "0 \<le> (?t div 86400 + 4) mod 7" "(?t div 86400 + 4) mod 7 < 7" by simp_all
  have shape: "date_text time_point = wday_text ((?t div 86400 + 4) mod 7) @ two_digits d @ mon_text m @ year_text y @ '' '' @
      two_digits ?h @ '':'' @ two_digits ?mi @ '':'' @ two_digits ?s @ '' GMT''"
    by (simp add: date_text_def g format_date_def)
  have len: "length (date_text time_point) = 29"
    unfolding shape using wday_length [OF w] mon_length [OF b(1)] by (simp add: two_digits_def year_text_def)
  have split: "q = 3600 * (q div 3600) + 60 * (q div 60 mod 60) + q mod 60" for q :: int
  proof -
    have "q div 3600 = q div 60 div 60" using zdiv_zmult2_eq [of 60 q 60] by simp
    moreover have "60 * (q div 60) + q mod 60 = q" "60 * (q div 60 div 60) + q div 60 mod 60 = q div 60" by simp_all
    ultimately show ?thesis by linarith
  qed
  from split [of "?t mod 86400"] have "?t mod 86400 = 3600 * ?h + 60 * ?mi + ?s" .
  moreover have "?t = 86400 * (?t div 86400) + ?t mod 86400" by simp
  ultimately have "?t = 86400 * (?t div 86400) + 3600 * ?h + 60 * ?mi + ?s" by linarith
  then have time: "?t = 86400 * ((\<Sum>k \<in> {1970..<y}. year_days k) + (\<Sum>k \<in> {0..<m}. month_days y k) + (d - 1)) +
      3600 * ?h + 60 * ?mi + ?s" unfolding days .
  have m: "0 \<le> m" "m \<le> 11" using b(1) by simp_all
  have clock: "0 \<le> ?h" "?h < 24" "0 \<le> ?mi" "?mi < 60" "0 \<le> ?s" "?s < 60" by simp_all
  show ?thesis
    by (rule exI [of _ y], rule exI [of _ m], rule exI [of _ d], rule exI [of _ ?h], rule exI [of _ ?mi],
        rule exI [of _ ?s], intro conjI) (fact shape time y m b(2,3) clock len)+
qed

text \<open>
  In a sequence of calls, every text is that of a time point less than a second away from
  the one asked for, which the cache allows, so it can show the second before.
\<close>
lemma cached_dates_are_recent:
  assumes "\<forall>t \<in> set ts. gmtime (to_time_t t) \<noteq> None"
  shows "list_all2 (\<lambda>t text'. \<exists>t'. \<bar>t - t'\<bar> < 10 ^ 9 \<and> text' = date_text t') ts (dates ts date_start)"
proof -
  have "list_all2 (\<lambda>t text'. \<exists>t'. \<bar>t - t'\<bar> < 10 ^ 9 \<and> text' = date_text t') ts (dates ts s)" if "date_ok s" for s
    using assms that
  proof (induction ts arbitrary: s)
    case Nil
    then show ?case by simp
  next
    case (Cons t ts)
    obtain text' s' where d: "date_to_string t s = (text', s')" by fastforce
    with date_to_string_ok [OF Cons.prems(2) _ d] Cons show ?case by simp
  qed
  then show ?thesis by (simp add: date_ok_def date_start_def)
qed

end
