(* ===== verification/Coap.thy ===== *)
theory Coap
  imports Prelude
begin

text \<open>
  The CoAP server and client of \<open>src/src/coap-server.cpp\<close> and \<open>src/src/coap-client.cpp\<close>, and
  the start of the program with its command line in \<open>src/src/source.cpp\<close>. What the system
  and libcoap answer (the interfaces, the addresses of a name, whether a context, an
  endpoint, a session or a message can be made) are arguments.
\<close>

section \<open>The address of the server\<close>

datatype family = AF_INET | AF_INET6 | AF_OTHER

text \<open>An entry of \<open>getifaddrs\<close>: its address may be null, and \<open>getnameinfo\<close>, whose result is not
  looked at, may leave the buffer as it was.\<close>

record ifaddr =
  ifa_family :: "family option"
  ifa_text :: "bytes option"

text \<open>The text of the address chosen, if there is one, and whether the list was freed.\<close>

fun address_loop :: "ifaddr list \<Rightarrow> (bytes option \<times> bool) outcome" where
  "address_loop [] = Ok (None, True)"
| "address_loop (address # rest) =
     (case ifa_family address of
        None \<Rightarrow> Undefined
      | Some address_family \<Rightarrow>
          if address_family = AF_INET \<or> address_family = AF_INET6 then
            (case ifa_text address of
               None \<Rightarrow> Undefined
             | Some user_friendly_address \<Rightarrow>
                 if user_friendly_address \<noteq> ''127.0.0.1'' then Ok (Some user_friendly_address, False)
                 else address_loop rest)
          else address_loop rest)"

definition first_ipv4_address :: "ifaddr list option \<Rightarrow> (bytes option \<times> bool) outcome" where
  "first_ipv4_address available_addresses =
     (case available_addresses of None \<Rightarrow> Ok (None, True) | Some addresses \<Rightarrow> address_loop addresses)"

section \<open>Resolving an address\<close>

record addrinfo =
  ai_family :: family
  ai_addrlen :: nat
  ai_addr :: bytes

text \<open>The number thrown, or the length returned and the address written, if any.\<close>

fun resolve_loop :: "addrinfo list \<Rightarrow> int \<times> bytes option" where
  "resolve_loop [] = (-1, None)"
| "resolve_loop (ainfo # rest) =
     (if ai_family ainfo = AF_INET6 \<or> ai_family ainfo = AF_INET
      then (int (ai_addrlen ainfo), Some (take (ai_addrlen ainfo) (ai_addr ainfo)))
      else resolve_loop rest)"

definition resolve_address ::
  "(bytes \<Rightarrow> bytes \<Rightarrow> addrinfo list option) \<Rightarrow> bytes \<Rightarrow> bytes \<Rightarrow> int + int \<times> bytes option"
where
  "resolve_address getaddrinfo host service =
     (case getaddrinfo host service of None \<Rightarrow> Inl 404 | Some res \<Rightarrow> Inr (resolve_loop res))"

section \<open>The server\<close>

record coap_system =
  interfaces :: "ifaddr list option"
  name_service :: "bytes \<Rightarrow> bytes \<Rightarrow> addrinfo list option"
  new_context :: bool
  new_endpoint :: "bytes \<Rightarrow> bool"

text \<open>It returns after a message, with the number that was thrown or without a context, or it
  serves \<open>hello\<close> for ever after counting itself in \<open>load_progress\<close>.\<close>

datatype coap_server = Address_error int | No_context | Coap_serving bytes

definition start_coap_server :: "coap_system \<Rightarrow> coap_server outcome" where
  "start_coap_server sys =
     (case first_ipv4_address (interfaces sys) of
        Undefined \<Rightarrow> Undefined | Throw \<Rightarrow> Throw
      | Ok (None, freed) \<Rightarrow> Ok (Address_error 403)
      | Ok (Some hostname, freed) \<Rightarrow>
          (case resolve_address (name_service sys) hostname ''5683'' of
             Inl errcode \<Rightarrow> Ok (Address_error errcode)
           | Inr (len, dst) \<Rightarrow>
               if len < 0 then Ok (Address_error 404)
               else (case dst of
                       None \<Rightarrow> Undefined
                     | Some address \<Rightarrow>
                         if new_context sys \<and> new_endpoint sys address then Ok (Coap_serving address)
                         else Ok No_context)))"

definition ruri :: bytes where
  "ruri = ''hello''"

text \<open>The payload of the response to a GET of the resource.\<close>

definition coap_response :: "bytes \<Rightarrow> bytes option" where
  "coap_response uri = (if uri = ruri then Some ''world'' else None)"

section \<open>The client\<close>

text \<open>The calls that have to be matched: making a session or a context and giving it back.\<close>

datatype coap_call =
    Startup | New_context | New_session | Add_uri_path bytes | Send | Run_once
  | Release_session bool | Free_context bool | Cleanup

text \<open>The option takes five bytes from the zero-terminated path, whatever its length.\<close>

definition uri_path_option :: "bytes \<Rightarrow> bytes outcome" where
  "uri_path_option path =
     (if length path + 1 < 5 then Undefined else Ok (take 5 (path @ [CHR 0x00])))"

datatype coap_request = Exit "coap_call list" bool | Thrown_number "coap_call list" int

text \<open>The label \<open>finish\<close>: what was made is given back; a null pointer is accepted.\<close>

definition coap_finish :: "bool \<Rightarrow> bool \<Rightarrow> coap_call list" where
  "coap_finish ctx session = [Release_session session, Free_context ctx, Cleanup]"

definition send_coap_request ::
  "coap_system \<Rightarrow> (bytes \<Rightarrow> bool) \<Rightarrow> bool \<Rightarrow> bytes \<Rightarrow> bytes \<Rightarrow> bytes \<Rightarrow> coap_request outcome"
where
  "send_coap_request sys new_session new_pdu url path port =
     (case resolve_address (name_service sys) url port of
        Inl errcode \<Rightarrow> Ok (Thrown_number [Startup] errcode)
      | Inr (len, dst) \<Rightarrow>
          if len < 0 then Ok (Exit ([Startup] @ coap_finish False False) False)
          else if \<not> new_context sys then Ok (Exit ([Startup] @ coap_finish False False) False)
          else
            (case dst of
               None \<Rightarrow> Undefined
             | Some address \<Rightarrow>
                 if \<not> new_session address then Ok (Exit ([Startup, New_context] @ coap_finish True False) False)
                 else if \<not> new_pdu then Ok (Exit ([Startup, New_context, New_session] @ coap_finish True True) False)
                 else (case uri_path_option path of
                         Undefined \<Rightarrow> Undefined | Throw \<Rightarrow> Throw
                       | Ok uri \<Rightarrow>
                           Ok (Exit ([Startup, New_context, New_session, Add_uri_path uri, Send, Run_once] @
                             coap_finish True True) True))))"

section \<open>The start of the program\<close>

text \<open>
  \<open>main\<close> starts three threads. Each server adds one to \<open>load_progress\<close> once it serves; the
  thread of the command line spins until the number is two, and then prompts.
\<close>

record boot =
  load_progress :: nat
  coap_up :: bool
  http_up :: bool
  prompting :: bool

definition boot_start :: boot where
  "boot_start = \<lparr>load_progress = 0, coap_up = False, http_up = False, prompting = False\<rparr>"

inductive boot_step :: "coap_server outcome \<Rightarrow> bool \<Rightarrow> boot \<Rightarrow> boot \<Rightarrow> bool" for coap http_serves where
  coap: "coap = Ok (Coap_serving address) \<Longrightarrow> \<not> coap_up b \<Longrightarrow>
    boot_step coap http_serves b (b\<lparr>load_progress := load_progress b + 1, coap_up := True\<rparr>)"
| http: "http_serves \<Longrightarrow> \<not> http_up b \<Longrightarrow>
    boot_step coap http_serves b (b\<lparr>load_progress := load_progress b + 1, http_up := True\<rparr>)"
| prompt: "\<not> load_progress b < 2 \<Longrightarrow> boot_step coap http_serves b (b\<lparr>prompting := True\<rparr>)"

inductive boot_reachable :: "coap_server outcome \<Rightarrow> bool \<Rightarrow> boot \<Rightarrow> bool" for coap http_serves where
  init: "boot_reachable coap http_serves boot_start"
| step: "boot_reachable coap http_serves b \<Longrightarrow> boot_step coap http_serves b b' \<Longrightarrow> boot_reachable coap http_serves b'"

text \<open>
  The command line: the number of prompts until \<open>exit\<close> aborts the program, if it comes. After
  the end of the input every read fails and leaves an empty line: it prompts for ever.
\<close>

fun command_line :: "bytes list \<Rightarrow> nat option" where
  "command_line [] = None"
| "command_line (line # rest) = (if line = ''exit'' then Some 1 else map_option Suc (command_line rest))"

section \<open>Lemmas\<close>

lemma command_line_ends: "command_line ls = Some n \<longleftrightarrow>
    n = Suc (length (takeWhile (\<lambda>l. l \<noteq> ''exit'') ls)) \<and> ''exit'' \<in> set ls"
  by (induction ls arbitrary: n) auto

definition is_inet :: "ifaddr \<Rightarrow> bool" where
  "is_inet a \<longleftrightarrow> ifa_family a = Some AF_INET \<or> ifa_family a = Some AF_INET6"

text \<open>Entries that are passed over: those of other families and the IPv4 loopback address.\<close>

definition skipped :: "ifaddr \<Rightarrow> bool" where
  "skipped a \<longleftrightarrow> ifa_family a \<noteq> None \<and> (is_inet a \<longrightarrow> ifa_text a = Some ''127.0.0.1'')"

lemma address_loop_skipped: "skipped a \<Longrightarrow> address_loop (a # as) = address_loop as"
  by (auto simp: skipped_def is_inet_def split: option.splits)

text \<open>The first address of either family that is not the one of IPv4 loopback: an IPv6 address
  and even \<open>::1\<close> can be chosen.\<close>

lemma address_chosen:
  "\<forall>b \<in> set before. skipped b \<Longrightarrow> is_inet a \<Longrightarrow> ifa_text a = Some t \<Longrightarrow> t \<noteq> ''127.0.0.1'' \<Longrightarrow>
     address_loop (before @ a # after) = Ok (Some t, False)"
  by (induction before) (auto simp del: address_loop.simps simp: address_loop_skipped,
    auto simp: is_inet_def split: option.splits)

lemma only_loopback: "\<forall>a \<in> set as. skipped a \<Longrightarrow> address_loop as = Ok (None, True)"
  by (induction as) (simp_all del: address_loop.simps(2) add: address_loop_skipped)

text \<open>The option of a path of at least five characters is cut; the resource cannot tell.\<close>

lemma uri_path_cut:
  "5 \<le> length path \<Longrightarrow> uri_path_option path = Ok (take 5 path)"
  "length path < 4 \<Longrightarrow> uri_path_option path = Undefined"
  by (simp_all add: uri_path_option_def)

lemma boot_up:
  "boot_reachable coap http b \<Longrightarrow>
     load_progress b = (if coap_up b then 1 else 0) + (if http_up b then 1 else 0) \<and>
     (coap_up b \<longrightarrow> (\<exists>address. coap = Ok (Coap_serving address))) \<and> (http_up b \<longrightarrow> http) \<and>
     (prompting b \<longrightarrow> coap_up b \<and> http_up b)"
proof (induction rule: boot_reachable.induct)
  case init
  show ?case by (simp add: boot_start_def)
next
  case (step b b')
  from step.hyps(2) step.IH show ?case by cases (auto split: if_splits)
qed

section \<open>Properties\<close>

text \<open>
  The command line prompts only when both servers serve. On a machine whose only address
  is the loopback one the CoAP server gives up, and the command line is never there.
\<close>
lemma prompt_needs_both_servers:
  assumes "boot_reachable (start_coap_server sys) http_serves b"
  shows "(prompting b \<longrightarrow> http_serves \<and> (\<exists>address. start_coap_server sys = Ok (Coap_serving address))) \<and>
    (\<forall>as. interfaces sys = Some as \<longrightarrow>
       (\<forall>a \<in> set as. skipped a) \<longrightarrow> \<not> prompting b)"
proof -
  note up = boot_up [OF assms]
  have "\<not> prompting b" if "interfaces sys = Some as"
    "\<forall>a \<in> set as. skipped a" for as
  proof -
    have "start_coap_server sys = Ok (Address_error 403)"
      using that only_loopback [OF that(2)] by (simp add: start_coap_server_def first_ipv4_address_def)
    with up show ?thesis by auto
  qed
  with up show ?thesis by auto
qed

definition demo_system :: "bytes \<Rightarrow> coap_system" where
  "demo_system t = \<lparr>interfaces = Some [\<lparr>ifa_family = Some AF_INET, ifa_text = Some t\<rparr>],
     name_service = (\<lambda>h s. Some [\<lparr>ai_family = AF_INET, ai_addrlen = 4, ai_addr = ''addr''\<rparr>]),
     new_context = True, new_endpoint = (\<lambda>a. True)\<rparr>"

text \<open>
  However a CoAP request ends, the library is cleaned up last and exactly what was made is
  given back, except when the address does not resolve: then a number is thrown after the
  library was started, and nothing is given back.
\<close>
lemma coap_request_gives_back:
  assumes "send_coap_request sys new_session new_pdu url path port = Ok result"
  shows "case result of
      Exit called ok \<Rightarrow> last called = Cleanup \<and> hd called = Startup \<and>
        (Release_session True \<in> set called \<longleftrightarrow> New_session \<in> set called) \<and>
        (Free_context True \<in> set called \<longleftrightarrow> New_context \<in> set called) \<and> (ok \<longleftrightarrow> Send \<in> set called)
    | Thrown_number called errcode \<Rightarrow> errcode = 404 \<and> Cleanup \<notin> set called \<and> name_service sys url port = None"
proof (cases "name_service sys url port")
  case None
  with assms show ?thesis by (auto simp: send_coap_request_def resolve_address_def)
next
  case (Some res)
  obtain len dst where r: "resolve_loop res = (len, dst)" by fastforce
  from assms show ?thesis
    by (auto simp: send_coap_request_def resolve_address_def coap_finish_def Some r
        split: option.splits if_splits outcome.splits)
qed

end
