(* ===== verification/Crypto.thy ===== *)
theory Crypto
  imports Complex_Main Prelude
begin

text \<open>
  \<open>src/src/http/crypto.hpp\<close>: digests of a string and of a stream with a number of iterations,
  their text in hexadecimal, keys derived from a password, and Base64. The digests, the key
  derivation and the Base64 filter are OpenSSL's and arguments; the buffers they write to,
  the loops and the conversions of sizes are the code's. A write past a buffer is \<open>Undefined\<close>.
\<close>

abbreviation NUL :: char where "NUL \<equiv> CHR 0x00"

section \<open>Digests\<close>

text \<open>A digest at once, and in steps.\<close>

record 'c digest =
  at_once :: "bytes \<Rightarrow> bytes"
  init :: 'c
  update :: "'c \<Rightarrow> bytes \<Rightarrow> 'c"
  final :: "'c \<Rightarrow> bytes"

text \<open>What the documentation of OpenSSL says: a digest of \<open>bits\<close> bits, whatever the steps.\<close>

definition digest_laws :: "nat \<Rightarrow> 'c digest \<Rightarrow> bool" where
  "digest_laws bits D \<longleftrightarrow> (\<forall>x. length (at_once D x) = bits div 8) \<and>
     (\<forall>xs. final D (foldl (update D) (init D) xs) = at_once D (concat xs))"

definition buffer_size :: nat where
  "buffer_size = 131072"

definition write_digest :: "bytes \<Rightarrow> bytes \<Rightarrow> bytes outcome" where
  "write_digest hash out = (if length out \<le> length hash then Ok (out @ drop (length out) hash) else Undefined)"

text \<open>The loop from 1 to the number of iterations.\<close>

fun digest_again :: "'c digest \<Rightarrow> nat \<Rightarrow> bytes \<Rightarrow> bytes outcome" where
  "digest_again D 0 hash = Ok hash"
| "digest_again D (Suc k) hash =
     (case write_digest hash (at_once D hash) of Ok hash \<Rightarrow> digest_again D k hash | Throw \<Rightarrow> Throw | Undefined \<Rightarrow> Undefined)"

definition digest_string :: "nat \<Rightarrow> 'c digest \<Rightarrow> bytes \<Rightarrow> nat \<Rightarrow> bytes outcome" where
  "digest_string bits D input iterations =
     (case write_digest (replicate (bits div 8) NUL) (at_once D input) of
        Ok hash \<Rightarrow> digest_again D (iterations - 1) hash | Throw \<Rightarrow> Throw | Undefined \<Rightarrow> Undefined)"

text \<open>A read of the stream gets what is left up to the size of the buffer.\<close>

function read_pieces :: "'c digest \<Rightarrow> 'c \<Rightarrow> bytes \<Rightarrow> 'c" where
  "read_pieces D c stream =
     (let piece = take buffer_size stream
      in if 0 < length piece then read_pieces D (update D c piece) (drop buffer_size stream) else c)"
  by auto
termination
  by (relation "measure (\<lambda>(D, c, stream). length stream)") (auto simp: buffer_size_def)

declare read_pieces.simps [simp del]

definition digest_stream :: "nat \<Rightarrow> 'c digest \<Rightarrow> bytes \<Rightarrow> nat \<Rightarrow> bytes outcome" where
  "digest_stream bits D stream iterations =
     (case write_digest (replicate (bits div 8) NUL) (final D (read_pieces D (init D) stream)) of
        Ok hash \<Rightarrow> digest_again D (iterations - 1) hash | Throw \<Rightarrow> Throw | Undefined \<Rightarrow> Undefined)"

definition md5 :: "'c digest \<Rightarrow> bytes \<Rightarrow> nat \<Rightarrow> bytes outcome" where "md5 = digest_string 128"

definition md5_stream :: "'c digest \<Rightarrow> bytes \<Rightarrow> nat \<Rightarrow> bytes outcome" where "md5_stream = digest_stream 128"

definition sha1 :: "'c digest \<Rightarrow> bytes \<Rightarrow> nat \<Rightarrow> bytes outcome" where "sha1 = digest_string 160"

definition sha1_stream :: "'c digest \<Rightarrow> bytes \<Rightarrow> nat \<Rightarrow> bytes outcome" where "sha1_stream = digest_stream 160"

definition sha256 :: "'c digest \<Rightarrow> bytes \<Rightarrow> nat \<Rightarrow> bytes outcome" where "sha256 = digest_string 256"

definition sha256_stream :: "'c digest \<Rightarrow> bytes \<Rightarrow> nat \<Rightarrow> bytes outcome" where "sha256_stream = digest_stream 256"

definition sha512 :: "'c digest \<Rightarrow> bytes \<Rightarrow> nat \<Rightarrow> bytes outcome" where "sha512 = digest_string 512"

definition sha512_stream :: "'c digest \<Rightarrow> bytes \<Rightarrow> nat \<Rightarrow> bytes outcome" where "sha512_stream = digest_stream 512"

text \<open>A size out of range throws in a function that may not: the program ends.\<close>

definition pbkdf2 :: "(bytes \<Rightarrow> bytes \<Rightarrow> int \<Rightarrow> nat \<Rightarrow> bytes) \<Rightarrow> bytes \<Rightarrow> bytes \<Rightarrow> int \<Rightarrow> int \<Rightarrow> bytes outcome" where
  "pbkdf2 derive password salt iterations key_size =
     (if key_size < 0 then Throw
      else write_digest (replicate (nat key_size) NUL) (derive password salt iterations (nat key_size)))"

section \<open>Hexadecimal\<close>

definition hex_char :: "nat \<Rightarrow> char" where
  "hex_char n = (if n < 10 then char_of (n + 48) else char_of (n + 87))"

text \<open>A byte below 16 is one digit, which \<open>setw(2)\<close> and \<open>setfill('0')\<close> pad.\<close>

definition to_hex_string :: "bytes \<Rightarrow> bytes" where
  "to_hex_string input = concat (map (\<lambda>byte. let n = of_char byte :: nat in [hex_char (n div 16), hex_char (n mod 16)]) input)"

section \<open>Lemmas\<close>

lemma write_digest_all: "length out = length hash \<Longrightarrow> write_digest hash out = Ok out"
  by (simp add: write_digest_def)

lemma digest_again_ok:
  assumes "digest_laws bits D" and "length hash = bits div 8"
  shows "digest_again D k hash = Ok ((at_once D ^^ k) hash)"
  using assms(2)
proof (induction k arbitrary: hash)
  case (Suc k)
  have len: "length (at_once D hash) = bits div 8" using assms(1) by (simp add: digest_laws_def)
  then have "write_digest hash (at_once D hash) = Ok (at_once D hash)"
    using Suc.prems by (simp add: write_digest_all)
  then have "digest_again D (Suc k) hash = digest_again D k (at_once D hash)" by simp
  also have "\<dots> = Ok ((at_once D ^^ k) (at_once D hash))" by (rule Suc.IH [OF len])
  finally show ?case by (simp only: funpow_Suc_right o_apply)
qed simp

lemma digest_string_ok:
  assumes "digest_laws bits D"
  shows "digest_string bits D input iterations = Ok ((at_once D ^^ Suc (iterations - 1)) input)"
proof -
  have len: "length (at_once D input) = bits div 8" using assms by (simp add: digest_laws_def)
  show ?thesis
    using digest_again_ok [OF assms len] by (simp add: digest_string_def write_digest_all len funpow_Suc_right del: funpow.simps(2))
qed

lemma read_pieces_folds:
  "\<exists>pieces. concat pieces = stream \<and> read_pieces D c stream = foldl (update D) c pieces"
proof (induction D c stream rule: read_pieces.induct)
  case (1 D c stream)
  show ?case
  proof (cases "0 < length (take buffer_size stream)")
    case True
    with 1 [OF refl] obtain pieces where "concat pieces = drop buffer_size stream"
      "read_pieces D (update D c (take buffer_size stream)) (drop buffer_size stream) =
        foldl (update D) (update D c (take buffer_size stream)) pieces" by blast
    with True show ?thesis
      by (subst read_pieces.simps, intro exI [of _ "take buffer_size stream # pieces"]) (simp add: Let_def)
  next
    case False
    then have "stream = []" by (simp add: buffer_size_def)
    then show ?thesis by (subst read_pieces.simps, intro exI [of _ "[]"]) (simp add: Let_def)
  qed
qed

lemma digest_stream_ok:
  assumes "digest_laws bits D"
  shows "digest_stream bits D stream iterations = digest_string bits D stream iterations"
proof -
  from read_pieces_folds [of stream D "init D"] obtain pieces
    where "concat pieces = stream" "read_pieces D (init D) stream = foldl (update D) (init D) pieces"
    by (elim exE conjE)
  with assms have "final D (read_pieces D (init D) stream) = at_once D stream"
    by (auto simp: digest_laws_def)
  then show ?thesis by (simp add: digest_stream_def digest_string_def)
qed

section \<open>Base64\<close>

text \<open>
  The filter of OpenSSL, without line breaks: \<open>encode64\<close> of what was written to it once it is
  flushed, and \<open>decode64\<close> of what it reads. The length of a write is an \<open>int\<close>.
\<close>

record base64 =
  encode64 :: "bytes \<Rightarrow> bytes"
  decode64 :: "bytes \<Rightarrow> bytes"

definition to_int32 :: "nat \<Rightarrow> int" where
  "to_int32 n = (int n + 2 ^ 31) mod 2 ^ 32 - 2 ^ 31"

definition base64_length :: "nat \<Rightarrow> nat" where
  "base64_length n = nat (4 * \<lceil>real n / 3\<rceil>)"

text \<open>The output is written to the string itself; growing that buffer would free it.\<close>

definition base64_encode :: "base64 \<Rightarrow> bytes \<Rightarrow> bytes outcome" where
  "base64_encode B input =
     (let base64_length = base64_length (length input); n = to_int32 (length input)
      in if n \<le> 0 then Ok []
         else write_digest (replicate base64_length NUL) (encode64 B (take (nat n) input)))"

text \<open>The string is cut to what was decoded; a source of negative length ends at a zero.\<close>

definition base64_decode :: "base64 \<Rightarrow> bytes \<Rightarrow> bytes" where
  "base64_decode B base64 =
     (let ascii_length = 6 * length base64 div 8; n = to_int32 (length base64);
          source = (if n < 0 then takeWhile (\<lambda>c. c \<noteq> NUL) base64 else take (nat n) base64)
      in take ascii_length (decode64 B source))"

text \<open>The encoding of RFC 4648: three bytes are four digits, and what is missing is padded.\<close>

definition digit64 :: "nat \<Rightarrow> char" where
  "digit64 d = (if d < 26 then char_of (d + 65) else if d < 52 then char_of (d + 71)
     else if d < 62 then char_of (d - 4) else if d = 62 then CHR ''+'' else CHR ''/'')"

definition value64 :: "char \<Rightarrow> nat" where
  "value64 c = (let n = of_char c :: nat
     in if c = CHR ''+'' then 62 else if c = CHR ''/'' then 63 else if n < 65 then n + 4 else if n < 97 then n - 65 else n - 71)"

fun rfc_encode :: "bytes \<Rightarrow> bytes" where
  "rfc_encode (a # b # c # rest) =
     (let x = of_char a; y = of_char b; z = of_char c
      in [digit64 (x div 4), digit64 (x mod 4 * 16 + y div 16), digit64 (y mod 16 * 4 + z div 64), digit64 (z mod 64)] @
         rfc_encode rest)"
| "rfc_encode [a, b] =
     (let x = of_char a; y = of_char b
      in [digit64 (x div 4), digit64 (x mod 4 * 16 + y div 16), digit64 (y mod 16 * 4), CHR ''=''])"
| "rfc_encode [a] = (let x = of_char a in [digit64 (x div 4), digit64 (x mod 4 * 16), CHR ''='', CHR ''=''])"
| "rfc_encode [] = []"

fun rfc_decode :: "bytes \<Rightarrow> bytes" where
  "rfc_decode (p # q # r # s # rest) =
     (let x = value64 p; y = value64 q; z = value64 r; w = value64 s
      in if r = CHR ''='' then [char_of (x * 4 + y div 16)]
         else if s = CHR ''='' then [char_of (x * 4 + y div 16), char_of (y mod 16 * 16 + z div 4)]
         else [char_of (x * 4 + y div 16), char_of (y mod 16 * 16 + z div 4), char_of (z mod 4 * 64 + w)] @ rfc_decode rest)"
| "rfc_decode base64 = []"

lemma byte_less: "(of_char c :: nat) < 256"
  by (rule nat_of_char_less_256)

lemma value64_digit:
  assumes "d < 64"
  shows "value64 (digit64 d) = d" and "digit64 d \<noteq> CHR ''=''"
proof -
  have eq: "char_of n = c \<longleftrightarrow> n = of_char c" if "n < 256" for n :: nat and c :: char
    using that by (auto simp: char_of_eq_iff take_bit_nat_eq_self)
  consider "d < 26" | "26 \<le> d" "d < 52" | "52 \<le> d" "d < 62" | "d = 62" | "d = 63" using assms by linarith
  then have "value64 (digit64 d) = d \<and> digit64 d \<noteq> CHR ''=''"
    by cases (auto simp: digit64_def value64_def Let_def eq)
  then show "value64 (digit64 d) = d" "digit64 d \<noteq> CHR ''=''" by simp_all
qed

lemma length_rfc_encode: "length (rfc_encode x) = 4 * ((length x + 2) div 3)"
proof (induction x rule: rfc_encode.induct)
  case (1 a b c rest)
  have "(length (a # b # c # rest) + 2) div 3 = (length rest + 2) div 3 + 1" by simp
  with 1 [OF refl refl refl] show ?case by (simp add: Let_def)
qed (simp_all add: Let_def)

lemma pack: "q < k \<Longrightarrow> (m * k + q) div k = m \<and> (m * k + q) mod k = q" for q k m :: nat
  by simp

lemma parts_of_byte:
  assumes "x < 256"
  shows "x div 4 < 64" "x mod 4 < 4" "x div 16 < 16" "x mod 16 < 16" "x div 64 < 4" "x mod 64 < (64 :: nat)"
  using assms by (simp_all add: less_mult_imp_div_less)

text \<open>A sum of two parts of bytes is a digit, and gives the parts back.\<close>

lemma sextets:
  assumes "x < 256" and "y < 256"
  shows "x mod 4 * 16 + y div 16 < 64" "x mod 16 * 4 + y div 64 < (64 :: nat)"
    "x mod 4 * 16 < 64" "x mod 16 * 4 < 64"
    "(x mod 4 * 16 + y div 16) div 16 = x mod 4" "(x mod 4 * 16 + y div 16) mod 16 = y div 16"
    "(x mod 16 * 4 + y div 64) div 4 = x mod 16" "(x mod 16 * 4 + y div 64) mod 4 = y div 64"
  using parts_of_byte [OF assms(1)] parts_of_byte [OF assms(2)] pack by auto

lemma rfc_round_trip: "rfc_decode (rfc_encode x) = x"
proof (induction x rule: rfc_encode.induct)
  case (1 a b c rest)
  define x y z where xyz: "x = (of_char a :: nat)" "y = (of_char b :: nat)" "z = (of_char c :: nat)"
  have less: "x < 256" "y < 256" "z < 256" by (simp_all add: xyz byte_less)
  have "rfc_decode (rfc_encode (a # b # c # rest)) = [char_of x, char_of y, char_of z] @ rest"
    using 1 [OF refl refl refl]
    by (simp add: Let_def xyz [symmetric] value64_digit parts_of_byte less sextets)
  then show ?case by (simp add: xyz)
next
  case (2 a b)
  define x y where xy: "x = (of_char a :: nat)" "y = (of_char b :: nat)"
  have less: "x < 256" "y < 256" by (simp_all add: xy byte_less)
  have "rfc_decode (rfc_encode [a, b]) = [char_of x, char_of y]"
    by (simp add: Let_def xy [symmetric] value64_digit parts_of_byte less sextets)
  then show ?case by (simp add: xy)
next
  case (3 a)
  define x where x: "x = (of_char a :: nat)"
  have less: "x < 256" by (simp add: x byte_less)
  have "rfc_decode (rfc_encode [a]) = [char_of x]"
    by (simp add: Let_def x [symmetric] value64_digit parts_of_byte less sextets)
  then show ?case by (simp add: x)
qed simp

lemma base64_length_div: "base64_length n = 4 * ((n + 2) div 3)"
proof -
  have "\<lceil>real n / 3\<rceil> = int ((n + 2) div 3)"
  proof (rule ceiling_unique)
    have "n \<le> 3 * ((n + 2) div 3)" "3 * ((n + 2) div 3) < n + 3" by presburger+
    then have "real n \<le> 3 * real ((n + 2) div 3)" "3 * real ((n + 2) div 3) < real n + 3"
      by linarith+
    then show "of_int (int ((n + 2) div 3)) - 1 < real n / 3" "real n / 3 \<le> of_int (int ((n + 2) div 3))"
      by simp_all
  qed
  then show ?thesis by (simp add: base64_length_def)
qed

lemma to_int32_small: "n < 2 ^ 31 \<Longrightarrow> to_int32 n = int n"
  by (simp add: to_int32_def)

text \<open>From two gigabytes on, the length is negative and the encoding is empty.\<close>

lemma base64_of_huge_is_empty:
  assumes "2 ^ 31 \<le> length input" and "length input < 2 ^ 32"
  shows "base64_encode B input = Ok []"
proof -
  have b: "2147483648 \<le> int (length input)" "int (length input) < 4294967296" using assms by simp_all
  have "(int (length input) + 2 ^ 31) mod 2 ^ 32 = (int (length input) - 2 ^ 31 + 2 ^ 32) mod 2 ^ 32" by (simp add: add.commute)
  also have "\<dots> = int (length input) - 2 ^ 31"
    unfolding mod_add_self2 by (rule mod_pos_pos_trivial) (use b in simp_all)
  finally have "to_int32 (length input) = int (length input) - 2 ^ 32" by (simp add: to_int32_def)
  with b have "to_int32 (length input) \<le> 0" by simp
  then show ?thesis by (simp add: base64_encode_def Let_def)
qed

section \<open>Properties\<close>

text \<open>
  C40: For every number of iterations, the digests of a stream are those of the string of its
  contents, whatever its length, and what they are: the digest of the library applied once
  and then again to its own result.
\<close>
theorem stream_digests_agree:
  assumes "digest_laws 128 D1" and "digest_laws 160 D2" and "digest_laws 256 D3" and "digest_laws 512 D4"
  shows "md5_stream D1 stream n = md5 D1 stream n \<and> md5 D1 stream n = Ok ((at_once D1 ^^ Suc (n - 1)) stream) \<and>
    sha1_stream D2 stream n = sha1 D2 stream n \<and> sha1 D2 stream n = Ok ((at_once D2 ^^ Suc (n - 1)) stream) \<and>
    sha256_stream D3 stream n = sha256 D3 stream n \<and> sha256 D3 stream n = Ok ((at_once D3 ^^ Suc (n - 1)) stream) \<and>
    sha512_stream D4 stream n = sha512 D4 stream n \<and> sha512 D4 stream n = Ok ((at_once D4 ^^ Suc (n - 1)) stream)"
  unfolding md5_def md5_stream_def sha1_def sha1_stream_def sha256_def sha256_stream_def sha512_def sha512_stream_def
  by (simp only: digest_stream_ok [OF assms(1)] digest_stream_ok [OF assms(2)] digest_stream_ok [OF assms(3)]
      digest_stream_ok [OF assms(4)] digest_string_ok [OF assms(1)] digest_string_ok [OF assms(2)]
      digest_string_ok [OF assms(3)] digest_string_ok [OF assms(4)] simp_thms)

definition cut_digest :: "nat \<Rightarrow> bytes digest" where
  "cut_digest bits = \<lparr>at_once = (\<lambda>x. take (bits div 8) (x @ replicate (bits div 8) NUL)), init = [], update = (@),
     final = (\<lambda>x. take (bits div 8) (x @ replicate (bits div 8) NUL))\<rparr>"

lemma cut_digest_laws: "digest_laws bits (cut_digest bits)"
proof -
  have "foldl (@) ys xs = ys @ concat xs" for ys :: bytes and xs by (induction xs arbitrary: ys) simp_all
  moreover have "min n k + (k - n) = k" for n k :: nat by simp
  ultimately show ?thesis by (simp add: digest_laws_def cut_digest_def)
qed

theorem stream_digests_agree_witness:
  "md5_stream (cut_digest 128) ''abc'' 3 = md5 (cut_digest 128) ''abc'' 3 \<and>
   md5 (cut_digest 128) ''abc'' 1 = Ok (''abc'' @ replicate 13 NUL)"
  using stream_digests_agree [OF cut_digest_laws cut_digest_laws cut_digest_laws cut_digest_laws, of "''abc''" 3]
    stream_digests_agree [OF cut_digest_laws cut_digest_laws cut_digest_laws cut_digest_laws, of "''abc''" 1]
  by (simp add: cut_digest_def)

text \<open>
  If the filter encodes and decodes as RFC 4648 says, the buffers are large enough for it:
  encoding gives the text of the standard and decoding gives the input back, for every
  input whose text has less than \<open>2\<^sup>3\<^sup>1\<close> characters.
\<close>
lemma base64_round_trip:
  assumes "\<And>x. encode64 B x = rfc_encode x" and "\<And>x. decode64 B (rfc_encode x) = rfc_decode (rfc_encode x)"
    and "4 * ((length input + 2) div 3) < 2 ^ 31"
  shows "base64_encode B input = Ok (rfc_encode input) \<and> base64_decode B (rfc_encode input) = input"
proof (cases "input = []")
  case True
  then show ?thesis by (simp add: base64_encode_def base64_decode_def to_int32_def)
next
  case False
  have n: "length input < 2 ^ 31" using assms(3) by linarith
  have "base64_encode B input = Ok (rfc_encode input)"
    using False by (simp add: base64_encode_def Let_def to_int32_small [OF n] assms(1) base64_length_div
      write_digest_all length_rfc_encode)
  moreover have "length input \<le> 6 * length (rfc_encode input) div 8" unfolding length_rfc_encode by linarith
  moreover have "to_int32 (length (rfc_encode input)) = int (length (rfc_encode input))"
    by (rule to_int32_small) (simp only: length_rfc_encode assms(3))
  ultimately show ?thesis by (simp add: base64_decode_def Let_def assms(2) rfc_round_trip)
qed

end
