(* ===== verification/Client_Request.thy ===== *)
theory Client_Request
  imports Http_Server
begin

text \<open>
  What the client of \<open>src/src/http/client_http.hpp\<close> writes: the host and the port from the text
  its constructor gets, the header of a request, the framing of the content. The two
  overloads of \<open>request\<close> that take a content, as a string or as a stream, write the same.
\<close>

section \<open>The address\<close>

record client =
  host :: bytes
  port :: nat
  default_port :: nat
  proxy_server :: bytes
  is_tcp :: bool

text \<open>The port is converted to an \<open>unsigned short\<close>.\<close>

definition parse_host_port :: "bytes \<Rightarrow> nat \<Rightarrow> bytes \<times> nat" where
  "parse_host_port host_port dflt =
     (case str_find host_port CHR '':'' 0 of
        None \<Rightarrow> (host_port, dflt)
      | Some host_end \<Rightarrow>
          (take host_end host_port,
           case substr_from host_port (host_end + 1) of
             None \<Rightarrow> dflt
           | Some s \<Rightarrow> (case stoul 10 s of Ok v \<Rightarrow> v mod 2 ^ 16 | _ \<Rightarrow> dflt)))"

definition client_new :: "bytes \<Rightarrow> nat \<Rightarrow> bool \<Rightarrow> client" where
  "client_new host_port dflt tcp =
     (let (h, p) = parse_host_port host_port dflt
      in \<lparr>host = h, port = p, default_port = dflt, proxy_server = [], is_tcp = tcp\<rparr>)"

section \<open>The request\<close>

definition corrected_path :: "client \<Rightarrow> bytes \<Rightarrow> bytes" where
  "corrected_path c target =
     (let target = (if target = [] then ''/'' else target)
      in if proxy_server c \<noteq> [] \<and> is_tcp c
         then ''http://'' @ host c @ '':'' @ to_string (port c) @ target else target)"

definition host_text :: "client \<Rightarrow> bytes" where
  "host_text c = host c @ (if port c \<noteq> default_port c then '':'' @ to_string (port c) else [])"

definition create_request_header :: "client \<Rightarrow> bytes \<Rightarrow> bytes \<Rightarrow> headers \<Rightarrow> bytes" where
  "create_request_header c meth target header =
     meth @ '' '' @ corrected_path c target @ '' HTTP/1.1'' @ crlf @
     ''Host: '' @ host_text c @ crlf @ concat (map (\<lambda>h. fst h @ '': '' @ snd h @ crlf) header)"

definition content_length_line :: "headers \<Rightarrow> bytes \<Rightarrow> bytes" where
  "content_length_line header content =
     (if 0 < length content then
        (case header_find ''Content-Length'' header of
           Some v \<Rightarrow> []
         | None \<Rightarrow>
             (case header_find ''Transfer-Encoding'' header of
                None \<Rightarrow> ''Content-Length: '' @ to_string (length content) @ crlf
              | Some v \<Rightarrow> if v \<noteq> ''chunked'' then ''Content-Length: '' @ to_string (length content) @ crlf else []))
      else [])"

definition request_bytes :: "client \<Rightarrow> bytes \<Rightarrow> bytes \<Rightarrow> bytes \<Rightarrow> headers \<Rightarrow> bytes" where
  "request_bytes c meth target content header =
     create_request_header c meth target header @ content_length_line header content @ crlf @ content"

section \<open>As a request text\<close>

definition framed :: "client \<Rightarrow> bytes \<Rightarrow> headers \<Rightarrow> headers" where
  "framed c content header = (''Host'', host_text c) # header @
     (if content \<noteq> [] \<and> header_find ''Content-Length'' header = None \<and>
         header_find ''Transfer-Encoding'' header \<noteq> Some ''chunked''
      then [(''Content-Length'', to_string (length content))] else [])"

lemma request_bytes_text:
  "request_bytes c meth target content header =
     request_text meth (corrected_path c target) ''1.1'' (framed c content header) @ content"
proof -
  have lines: "(\<lambda>h. fst h @ '': '' @ snd h @ crlf) = header_line" by (simp add: fun_eq_iff header_line_def)
  show ?thesis
    unfolding request_bytes_def create_request_header_def lines
    by (auto simp: content_length_line_def request_text_def framed_def header_line_def split: option.split)
qed

lemma header_find_append:
  "header_find name (xs @ ys) = (case header_find name xs of None \<Rightarrow> header_find name ys | Some v \<Rightarrow> Some v)"
  by (induction xs) auto

lemma host_not_framing: "\<not> case_insensitive_equal ''Host'' ''Content-Length''"
  "\<not> case_insensitive_equal ''Host'' ''Transfer-Encoding''"
  by (simp_all add: case_insensitive_equal_def)

lemma framed_length:
  assumes "content \<noteq> []" and "header_find ''Content-Length'' header = None"
    and "header_find ''Transfer-Encoding'' header \<noteq> Some ''chunked''"
  shows "header_find ''Content-Length'' (framed c content header) = Some (to_string (length content))"
  using assms host_not_framing by (simp add: framed_def header_find_append case_insensitive_equal_def)

lemma framed_none:
  assumes "header_find ''Content-Length'' header = None" and "header_find ''Transfer-Encoding'' header \<noteq> Some ''chunked''"
  shows "header_find ''Content-Length'' (framed c [] header) = None"
    and "header_find ''Transfer-Encoding'' (framed c [] header) \<noteq> Some ''chunked''"
  using assms host_not_framing by (simp_all add: framed_def)

text \<open>
  The host is everything before the first colon, whatever follows; the port is a 16-bit
  number, taken modulo \<open>2\<^sup>1\<^sup>6\<close> from the decimal number after the colon or the default one. A
  path after the port is ignored, one without a port stays in the host.
\<close>
lemma host_port_parsed:
  assumes "CHR '':'' \<notin> set h" and "n < 2 ^ 64" and "dflt < 2 ^ 16" and "rest = [] \<or> \<not> digit_in 10 (hd rest)"
  shows "parse_host_port (h @ '':'' @ to_string n @ rest) dflt = (h, n mod 2 ^ 16) \<and>
    parse_host_port h dflt = (h, dflt) \<and>
    snd (parse_host_port any dflt) < 2 ^ 16"
proof (intro conjI)
  have f: "str_find (h @ '':'' @ to_string n @ rest) CHR '':'' 0 = Some (length h)"
    using str_find_append [OF assms(1), of "to_string n @ rest"] by simp
  have "stoul 10 (to_string n @ rest) = Ok n"
    using assms(2,4) stoul_to_string stoul_to_string_rest by (cases rest) auto
  then show "parse_host_port (h @ '':'' @ to_string n @ rest) dflt = (h, n mod 2 ^ 16)"
    by (simp add: parse_host_port_def f [simplified] substr_from_def)
  show "parse_host_port h dflt = (h, dflt)"
    using assms(1) by (simp add: parse_host_port_def str_find_def find_at_None_iff [THEN iffD2])
  show "snd (parse_host_port any dflt) < 2 ^ 16"
    using assms(3) by (auto simp: parse_host_port_def split: option.split outcome.split)
qed

text \<open>
  A request of the client is what the server reads: the same method, path, query and
  header, with the host and the length added, and the same content, however the network
  cuts it.
\<close>

lemma client_request_read:
  assumes "transport pending read_until read_exactly"
    and "head_ok meth path query ''1.1'' (framed c content header)"
    and "corrected_path c target = target_text path query"
    and "pending net = request_bytes c meth target content header @ extra"
    and "header_find ''Content-Length'' header = None" and "header_find ''Transfer-Encoding'' header \<noteq> Some ''chunked''"
    and "length (request_text meth (target_text path query) ''1.1'' (framed c content header)) \<le> max_size"
    and "length content \<le> max_size" and "length content < 2 ^ 64"
  shows "\<exists>more net'. server_read read_until read_exactly max_size net =
      Some (Ready (parsed_request meth path query ''1.1'' (framed c content header)) (content @ more) net') \<and>
    more @ pending net' = extra"
proof -
  have st: "pending net = request_text meth (target_text path query) ''1.1'' (framed c content header) @ content @ extra"
    using assms(3,4) by (simp add: request_bytes_text)
  obtain y net1 where 1: "read_until net max_size [] (find_end header_end) =
      Inr (length (request_text meth (target_text path query) ''1.1'' (framed c content header)),
           request_text meth (target_text path query) ''1.1'' (framed c content header) @ y, net1)"
    "y @ pending net1 = content @ extra"
    by (rule server_read_head [OF assms(1,2) st assms(7)])
  note r = server_read_unfold [where ru = read_until and net = net, OF 1(1) assms(2)]
  show ?thesis
  proof (cases "content = []")
    case True
    then show ?thesis
      using framed_none [OF assms(5,6), of c] 1(2) unfolding r by (auto simp: Let_def)
  next
    case False
    note l = framed_length [OF False assms(5,6), of c] stoul_to_string [OF assms(9)]
    from read_length_ok [OF assms(1) 1(2) assms(8)] show ?thesis
      unfolding r l(1) by (simp add: Let_def l(2))
  qed
qed

section \<open>A concrete client\<close>

lemma to_string_plain: "CR \<notin> set (to_string n)" "LF \<notin> set (to_string n)"
  using to_string_digits [of n] is_digit_facts(5,6) by blast+

definition demo_client :: client where
  "demo_client = \<lparr>host = ''h'', port = 8080, default_port = 80, proxy_server = [], is_tcp = True\<rparr>"

end
