(* ===== verification/Header_End.thy ===== *)
theory Header_End
  imports Transport
begin

text \<open>
  \<open>HeaderEndMatch\<close> of \<open>src/src/http/client_http.hpp\<close>: the match condition with which the client
  finds the end of a header, a line break after a line break, in either of the two styles.
  The two counters are members of the object, so the condition continues on the bytes that
  arrive next where it stopped.
\<close>

section \<open>The condition\<close>

type_synonym match_state = "nat \<times> nat"

text \<open>One byte; \<^term>\<open>None\<close> is the match. The counters are \<open>crlfcrlf\<close> and \<open>lflf\<close>.\<close>

fun match_step :: "match_state \<Rightarrow> char \<Rightarrow> match_state option" where
  "match_step (crlfcrlf, lflf) c =
     (if c = LF then
        (if crlfcrlf = 3 then None
         else (let crlfcrlf = (if crlfcrlf = 1 then crlfcrlf + 1 else if crlfcrlf = 2 then 0 else crlfcrlf)
               in if lflf = 0 then Some (crlfcrlf, lflf + 1)
                  else if lflf = 1 then None else Some (crlfcrlf, lflf)))
      else if c = CR then
        Some (if crlfcrlf = 0 then crlfcrlf + 1 else if crlfcrlf = 2 then crlfcrlf + 1 else 0, 0)
      else Some (0, 0))"

text \<open>A call of the object on a range of bytes: the state it keeps, or the end of the match.\<close>

fun match_range :: "match_state \<Rightarrow> bytes \<Rightarrow> match_state + nat" where
  "match_range s [] = Inl s"
| "match_range s (c # cs) =
     (case match_step s c of None \<Rightarrow> Inr 1 | Some s' \<Rightarrow> map_sum id Suc (match_range s' cs))"

definition HeaderEndMatch :: scanner where
  "HeaderEndMatch xs = (case match_range (0, 0) xs of Inl _ \<Rightarrow> None | Inr n \<Rightarrow> Some n)"

text \<open>As \<open>async_read_until\<close> uses it: on each segment that arrives, with the state of the last.\<close>

fun match_segments :: "match_state \<Rightarrow> bytes list \<Rightarrow> nat option" where
  "match_segments s [] = None"
| "match_segments s (seg # segs) =
     (case match_range s seg of
        Inr n \<Rightarrow> Some n
      | Inl s' \<Rightarrow> map_option (\<lambda>n. length seg + n) (match_segments s' segs))"

section \<open>As a match condition\<close>

lemma match_range_append:
  "match_range s (xs @ ys) =
     (case match_range s xs of Inl s' \<Rightarrow> map_sum id (\<lambda>n. length xs + n) (match_range s' ys) | Inr n \<Rightarrow> Inr n)"
proof (induction xs arbitrary: s)
  case Nil
  then show ?case by (cases "match_range s ys") simp_all
next
  case (Cons c cs)
  then show ?case
    by (cases "match_step s c") (auto simp: sum.map_comp comp_def split: sum.split)
qed

lemma match_range_bounds: "match_range s xs = Inr n \<Longrightarrow> n \<le> length xs \<and> match_range s (take n xs) = Inr n"
proof (induction xs arbitrary: s n)
  case Nil
  then show ?case by simp
next
  case (Cons c cs)
  show ?case
  proof (cases "match_step s c")
    case None
    with Cons.prems show ?thesis by auto
  next
    case (Some s')
    with Cons.prems obtain m where "match_range s' cs = Inr m" "n = Suc m"
      by (cases "match_range s' cs") auto
    with Cons.IH Some show ?thesis by auto
  qed
qed

lemma scans_HeaderEndMatch [simp]: "scans HeaderEndMatch"
  unfolding scans_def
proof (intro allI impI conjI)
  fix xs n
  assume "HeaderEndMatch xs = Some n"
  then have r: "match_range (0, 0) xs = Inr n" by (auto simp: HeaderEndMatch_def split: sum.splits)
  from match_range_bounds [OF r] show "n \<le> length xs" "HeaderEndMatch (take n xs) = Some n"
    by (simp_all add: HeaderEndMatch_def)
  show "HeaderEndMatch (xs @ ys) = Some n" for ys by (simp add: HeaderEndMatch_def match_range_append r)
qed

section \<open>What it finds\<close>

text \<open>A blank line ends here, seen from the last byte backwards.\<close>

definition blank :: "bytes \<Rightarrow> bool" where
  "blank r \<longleftrightarrow> take 2 r = [LF, LF] \<or> take 4 r = [LF, CR, LF, CR]"

fun first_blank :: "bytes \<Rightarrow> bytes \<Rightarrow> nat option" where
  "first_blank r [] = None"
| "first_blank r (c # cs) = (if blank (c # r) then Some 1 else map_option Suc (first_blank (c # r) cs))"

fun no_double_CR :: "bytes \<Rightarrow> bool" where
  "no_double_CR (x # y # xs) \<longleftrightarrow> \<not> (x = CR \<and> y = CR) \<and> no_double_CR (y # xs)"
| "no_double_CR _ \<longleftrightarrow> True"

text \<open>The counters against the bytes seen so far.\<close>

definition counted :: "bytes \<Rightarrow> match_state \<Rightarrow> bool" where
  "counted r s \<longleftrightarrow>
     snd s = (if take 1 r = [LF] then 1 else 0) \<and>
     fst s = (if take 3 r = [CR, LF, CR] then 3 else if take 2 r = [LF, CR] then 2
              else if take 1 r = [CR] then 1 else 0)"

lemma counted_step:
  assumes "counted r s" and "\<not> (c = CR \<and> take 1 r = [CR])"
  shows "case match_step s c of
      None \<Rightarrow> blank (c # r) | Some s' \<Rightarrow> \<not> blank (c # r) \<and> counted (c # r) s'"
proof -
  obtain a b where s: "s = (a, b)" by (cases s)
  show ?thesis
    using assms unfolding s counted_def blank_def
    by (cases r; cases "tl r"; cases "tl (tl r)") auto
qed

lemma match_range_blank:
  assumes "counted r s" and "no_double_CR xs" and "take 1 r = [CR] \<longrightarrow> take 1 xs \<noteq> [CR]"
  shows "(case match_range s xs of Inl _ \<Rightarrow> None | Inr n \<Rightarrow> Some n) = first_blank r xs"
  using assms
proof (induction xs arbitrary: r s)
  case Nil
  then show ?case by simp
next
  case (Cons c cs)
  have step: "case match_step s c of
      None \<Rightarrow> blank (c # r) | Some s' \<Rightarrow> \<not> blank (c # r) \<and> counted (c # r) s'"
    by (rule counted_step) (use Cons.prems in auto)
  show ?case
  proof (cases "match_step s c")
    case None
    with step show ?thesis by simp
  next
    case (Some s')
    have "no_double_CR cs" "c = CR \<longrightarrow> take 1 cs \<noteq> [CR]" using Cons.prems(2) by (cases cs; auto)+
    then have "first_blank (c # r) cs = (case match_range s' cs of Inl _ \<Rightarrow> None | Inr n \<Rightarrow> Some n)"
      using step Some by (intro Cons.IH [symmetric]) auto
    with step Some show ?thesis by (cases "match_range s' cs") simp_all
  qed
qed

lemma HeaderEndMatch_blank:
  assumes "no_double_CR xs"
  shows "HeaderEndMatch xs = first_blank [] xs"
  unfolding HeaderEndMatch_def by (rule match_range_blank) (use assms in \<open>simp_all add: counted_def\<close>)

section \<open>Lines\<close>

text \<open>The end of a header that is written as lines.\<close>

lemma match_line:
  assumes "CR \<notin> set l" and "LF \<notin> set l" and "l \<noteq> []"
  shows "match_range s (l @ xs) = map_sum id (\<lambda>n. length l + n) (match_range (0, 0) xs)"
  using assms
proof (induction l arbitrary: s)
  case Nil
  then show ?case by simp
next
  case (Cons c cs)
  obtain a b where s: "s = (a, b)" by (cases s)
  have "c \<noteq> CR" "c \<noteq> LF" using Cons.prems by auto
  then have m: "match_step s c = Some (0, 0)" by (simp add: s)
  show ?case
  proof (cases "cs = []")
    case True
    then show ?thesis using m by (simp add: id_def)
  next
    case False
    with Cons.IH [of "(0, 0)"] Cons.prems have
      "match_range (0, 0) (cs @ xs) = map_sum id (\<lambda>n. length cs + n) (match_range (0, 0) xs)" by (simp add: id_def)
    with m show ?thesis by (cases "match_range (0, 0) xs") simp_all
  qed
qed

lemma match_eol_lines:
  assumes "\<forall>l \<in> set ls. CR \<notin> set l \<and> LF \<notin> set l \<and> l \<noteq> []" and "ls \<noteq> []" and eol: "eol = [LF] \<or> eol = crlf"
  shows "match_range s (concat (map (\<lambda>l. l @ eol) ls) @ eol @ rest) =
    Inr (length (concat (map (\<lambda>l. l @ eol) ls) @ eol))"
  using assms(1,2)
proof (induction ls arbitrary: s)
  case Nil
  then show ?case by simp
next
  case (Cons l ls)
  show ?case
  proof (cases ls)
    case Nil
    then show ?thesis using Cons.prems eol match_line [of l s "eol @ eol @ rest"] by auto
  next
    case (Cons k ks)
    have "match_range s (l @ eol @ concat (map (\<lambda>l. l @ eol) ls) @ eol @ rest) =
      map_sum id (\<lambda>n. length l + n) (match_range (0, 0) (eol @ concat (map (\<lambda>l. l @ eol) ls) @ eol @ rest))"
      using Cons.prems by (intro match_line) auto
    moreover have "match_range s' (concat (map (\<lambda>l. l @ eol) ls) @ eol @ rest) =
        Inr (length (concat (map (\<lambda>l. l @ eol) ls) @ eol))" for s'
      using Cons.IH [of s'] Cons.prems(1) Cons by auto
    ultimately show ?thesis using eol by auto
  qed
qed

lemmas match_lines = match_eol_lines [where eol = crlf, simplified]

lemma match_segments_concat:
  "match_segments s segs = (case match_range s (concat segs) of Inl _ \<Rightarrow> None | Inr n \<Rightarrow> Some n)"
proof (induction segs arbitrary: s)
  case Nil
  then show ?case by simp
next
  case (Cons seg segs)
  show ?case
  proof (cases "match_range s seg")
    case (Inl s')
    then show ?thesis
      by (cases "match_range s' (concat segs)") (simp_all add: Cons.IH match_range_append)
  next
    case (Inr k)
    then show ?thesis by (simp add: match_range_append)
  qed
qed

section \<open>Properties\<close>



text \<open>Two carriage returns in a row mislead it: a blank line right after them is missed.\<close>

lemma double_CR_missed: "HeaderEndMatch [CR, CR, LF, CR, LF] = None" "first_blank [] [CR, CR, LF, CR, LF] = Some 5"
  by (simp_all add: HeaderEndMatch_def blank_def)

end
