(* ===== verification/Client_Read.thy ===== *)
theory Client_Read
  imports Client_Request Header_End
begin

text \<open>
  How the client of \<open>src/src/http/client_http.hpp\<close> reads a response: \<open>read\<close>, the two
  \<open>read_content\<close>, \<open>read_chunked_transfer_encoded\<close> (theory \<open>Chunked\<close>) and
  \<open>read_server_sent_event\<close>, and how \<open>sync_request\<close> puts the parts together. A run is the list
  of the calls of the callback of the session. With an error, what the content of the
  response holds at that moment is left out, and so is the connection's close by a timer,
  which is a read that fails. Loops that need not end are options.
\<close>

section \<open>Calls of the callback\<close>

datatype client_error = C_protocol | C_message_size | C_permission_denied | C_io io_error

text \<open>\<open>fin\<close> is \<open>content.end\<close> of the response.\<close>

record delivery =
  response_head :: response_message
  response_content :: bytes
  fin :: bool
  failure :: "client_error option"

definition part :: "response_message \<Rightarrow> bytes \<Rightarrow> delivery" where
  "part m content = \<lparr>response_head = m, response_content = content, fin = False, failure = None\<rparr>"

definition whole :: "response_message \<Rightarrow> bytes \<Rightarrow> delivery" where
  "whole m content = \<lparr>response_head = m, response_content = content, fin = True, failure = None\<rparr>"

definition failed :: "response_message \<Rightarrow> client_error \<Rightarrow> delivery" where
  "failed m e = \<lparr>response_head = m, response_content = [], fin = True, failure = Some e\<rparr>"

text \<open>How a run ends: the exchange is over, \<open>closes\<close> when the connection is forgotten as well;
  the session connects again; or an exception leaves the handler and the event loop.\<close>

datatype 'net client_run =
    Delivered "delivery list" bool 'net | Failed_with "delivery list" | Reconnects io_error
  | Run_throws "delivery list"

section \<open>Content of known length\<close>

partial_function (option) read_content_sized ::
  "'net read_exactly \<Rightarrow> nat \<Rightarrow> response_message \<Rightarrow> 'net \<Rightarrow> bytes \<Rightarrow> nat \<Rightarrow> delivery list \<Rightarrow> 'net client_run option"
where
  "read_content_sized read_exactly max_size m net content remaining_length ds =
     (case read_exactly net (min remaining_length (max_size - length content)) of
        Inl e \<Rightarrow> Some (Failed_with (ds @ [failed m (C_io e)]))
      | Inr (bytes_read, net') \<Rightarrow>
          (let content = content @ bytes_read in
           if length content = max_size \<and> length bytes_read < remaining_length
           then read_content_sized read_exactly max_size m net' [] (remaining_length - length bytes_read)
                  (ds @ [part m content])
           else Some (Delivered (ds @ [whole m content]) False net')))"

section \<open>Content until the end of the stream\<close>

text \<open>The end of the stream is no error here; the connection is taken out of the pool.\<close>

partial_function (option) read_content_all ::
  "'net read_all \<Rightarrow> nat \<Rightarrow> response_message \<Rightarrow> 'net \<Rightarrow> bytes \<Rightarrow> delivery list \<Rightarrow> 'net client_run option"
where
  "read_content_all read_all max_size m net content ds =
     (case read_all net (max_size - length content) of
        (bytes_read, ec, net') \<Rightarrow>
          (if ec = None \<or> ec = Some Eof then
             (let content = content @ bytes_read in
              if length content = max_size
              then read_content_all read_all max_size m net' [] (ds @ [part m content])
              else Some (Delivered (ds @ [whole m content]) True net'))
           else Some (Failed_with (ds @ [failed m (C_io (the ec))]))))"

section \<open>Content in chunks\<close>

fun parts_of :: "response_message \<Rightarrow> bytes list \<Rightarrow> delivery list" where
  "parts_of m [] = []"
| "parts_of m [content] = [whole m content]"
| "parts_of m (content # parts) = part m content # parts_of m parts"

definition read_content_chunked ::
  "'net read_until \<Rightarrow> 'net read_exactly \<Rightarrow> nat \<Rightarrow> response_message \<Rightarrow> 'net \<Rightarrow> bytes \<Rightarrow> 'net client_run option"
where
  "read_content_chunked read_until read_exactly max_size m net left =
     map_option (\<lambda>b. case b of
         Parts parts buf net' \<Rightarrow> Delivered (parts_of m parts) False net'
       | Client_bad_size parts \<Rightarrow> Failed_with (map (part m) parts @ [failed m C_protocol])
       | Client_broken parts e \<Rightarrow> Failed_with (map (part m) parts @ [failed m (C_io e)])
       | Client_throws parts \<Rightarrow> Run_throws (map (part m) parts))
     (client_chunks read_until read_exactly (max 18 (length left)) max_size net left [] [])"

section \<open>Server-sent events\<close>

text \<open>The lines up to a blank one, with their line breaks normalized, and the rest.\<close>

function event_lines :: "bytes \<Rightarrow> bytes \<times> bytes" where
  "event_lines events =
     (case getline events of
        None \<Rightarrow> ([], events)
      | Some (line, rest) \<Rightarrow>
          (if line \<noteq> [] \<and> \<not> (last line = CR \<and> length line = 1)
           then (let (content, rest') = event_lines rest
                 in (take (length line - (if last line = CR then 1 else 0)) line @ [LF] @ content, rest'))
           else ([], rest)))"
  by auto
termination
  by (relation "measure length") (auto dest: getline_shorter)

declare event_lines.simps [simp del]

text \<open>Every event is a part of its own; the loop ends when a read fails, with a last call.\<close>

partial_function (option) read_server_sent_event ::
  "'net read_until \<Rightarrow> nat \<Rightarrow> response_message \<Rightarrow> 'net \<Rightarrow> bytes \<Rightarrow> delivery list \<Rightarrow> 'net client_run option"
where
  "read_server_sent_event read_until max_size m net events ds =
     (case read_until net max_size events HeaderEndMatch of
        Inl e \<Rightarrow> Some (Failed_with (ds @ [failed m (C_io e)]))
      | Inr (n, events', net') \<Rightarrow>
          (case event_lines events' of (content, events'') \<Rightarrow>
             read_server_sent_event read_until max_size m net' events'' (ds @ [part m content])))"

section \<open>A response\<close>

definition response_blank :: response_message where
  "response_blank = \<lparr>res_version = [], res_status = [], res_header = []\<rparr>"

definition client_read ::
  "'net read_until \<Rightarrow> 'net read_exactly \<Rightarrow> 'net read_all \<Rightarrow> nat \<Rightarrow> bool \<Rightarrow> 'net \<Rightarrow> 'net client_run option"
where
  "client_read read_until read_exactly read_all max_size attempt_reconnect net =
     (case read_until net max_size [] HeaderEndMatch of
        Inl e \<Rightarrow>
          if attempt_reconnect \<and> e \<noteq> Aborted then Some (Reconnects e)
          else Some (Failed_with [failed response_blank (C_io e)])
      | Inr (bytes_transferred, buf, net1) \<Rightarrow>
     (let num_additional_bytes = size_sub (length buf) bytes_transferred in
      case response_parse buf response_blank of
        None \<Rightarrow> Some (Run_throws [])
      | Some (ok, m, left) \<Rightarrow>
          if \<not> ok then Some (Failed_with [failed m C_protocol])
          else
            (case header_find ''Content-Length'' (res_header m) of
               Some v \<Rightarrow>
                 (case stoul 10 v of
                    Ok content_length \<Rightarrow>
                      if num_additional_bytes < content_length
                      then read_content_sized read_exactly max_size m net1 left
                             (content_length - num_additional_bytes) []
                      else Some (Delivered [whole m left] False net1)
                  | _ \<Rightarrow> Some (Run_throws []))
             | None \<Rightarrow>
                 if header_find ''Transfer-Encoding'' (res_header m) = Some ''chunked''
                 then read_content_chunked read_until read_exactly max_size m net1 left
                 else if str_less (res_version m) ''1.1'' \<or>
                         header_find ''Connection'' (res_header m) = Some ''close''
                 then read_content_all read_all max_size m net1 left []
                 else if header_find ''Content-Type'' (res_header m) = Some ''text/event-stream''
                 then read_server_sent_event read_until max_size m net1 left [whole m []]
                 else Some (Delivered [whole m left] False net1))))"

section \<open>A synchronous request\<close>

text \<open>
  The callback of \<open>sync_request\<close> on the calls of a run: \<open>Value\<close> and \<open>Exception\<close> fulfil the
  promise. After a value the function returns, and the variables the callback refers to are
  gone: a further call is outside defined behaviour. After an exception it ignores calls.
\<close>

datatype sync_result = Value response_message bytes | Exception client_error | Waits | Dangling

fun sync_step :: "nat \<Rightarrow> (response_message \<times> bytes) option \<Rightarrow> delivery list \<Rightarrow> sync_result" where
  "sync_step max_size response [] = Waits"
| "sync_step max_size response (d # ds) =
     (let (response, ec) =
        (case response of
           None \<Rightarrow> ((response_head d, response_content d), failure d)
         | Some (m, content) \<Rightarrow>
             (if failure d = None then
                (if max_size < size_add (length (response_content d)) (length content)
                 then ((m, content), Some C_message_size)
                 else ((m, content @ response_content d), None))
              else ((m, content), failure d)))
      in case ec of
           Some e \<Rightarrow> Exception e
         | None \<Rightarrow>
             (if fin d then (if ds = [] then Value (fst response) (snd response) else Dangling)
              else sync_step max_size (Some response) ds))"

section \<open>A response as it is written\<close>

definition response_head_ok :: "bytes \<Rightarrow> bytes \<Rightarrow> headers \<Rightarrow> bool" where
  "response_head_ok version status header \<longleftrightarrow> CHR '' '' \<notin> set version \<and> plain version \<and> plain status \<and>
     (\<forall>field \<in> set header. field_ok field \<and> CR \<notin> set (fst field) \<and> CR \<notin> set (snd field))"

definition parsed_response :: "bytes \<Rightarrow> bytes \<Rightarrow> headers \<Rightarrow> response_message" where
  "parsed_response version status header = \<lparr>res_version = version, res_status = status, res_header = header\<rparr>"

lemma response_text_lines:
  "response_text version status header =
     concat (map (\<lambda>l. l @ crlf) ((''HTTP/'' @ version @ '' '' @ status) # map (\<lambda>field. fst field @ '': '' @ snd field) header)) @ crlf"
  by (induction header) (simp_all add: response_text_def header_line_def)

lemma response_text_end:
  assumes "response_head_ok version status header"
  shows "HeaderEndMatch (response_text version status header @ rest) = Some (length (response_text version status header))"
proof -
  let ?ls = "(''HTTP/'' @ version @ '' '' @ status) # map (\<lambda>field. fst field @ '': '' @ snd field) header"
  have "\<forall>l \<in> set ?ls. CR \<notin> set l \<and> LF \<notin> set l \<and> l \<noteq> []"
    using assms by (auto simp: response_head_ok_def plain_def field_ok_def)
  from match_lines [OF this, of "(0, 0)" rest] show ?thesis
    unfolding response_text_lines HeaderEndMatch_def by (simp only: append_assoc list.distinct simp_thms) simp
qed

lemma response_text_parsed:
  assumes "response_head_ok version status header"
  shows "response_parse (response_text version status header @ body) response_blank =
    Some (True, parsed_response version status header, body)"
  using assms response_parse_text [of version status header body response_blank]
  by (simp add: response_head_ok_def plain_def parsed_response_def response_blank_def)

lemma client_read_head:
  assumes tr: "transport pending ru re" and h: "response_head_ok version status header"
    and st: "pending net = response_text version status header @ rest"
    and fits: "length (response_text version status header) \<le> max_size"
  obtains y net1 where
    "ru net max_size [] HeaderEndMatch =
      Inr (length (response_text version status header), response_text version status header @ y, net1)"
    and "y @ pending net1 = rest" and "length y \<le> max_size"
proof -
  have st': "[] @ pending net = response_text version status header @ rest" using st by simp
  obtain y net1 where "ru net max_size [] HeaderEndMatch =
      Inr (length (response_text version status header), response_text version status header @ y, net1)"
    "y @ pending net1 = rest" "length (response_text version status header @ y) \<le> max_size"
    by (rule transport_until [where ru = ru and net = net and limit = max_size and buf = "[]" and
        scan = HeaderEndMatch and rest = rest, OF tr scans_HeaderEndMatch _ st' response_text_end [OF h] fits]) simp_all
  then show ?thesis by (intro that) (auto dest: add_leD2)
qed

lemma client_read_unfold:
  assumes "ru net max_size [] HeaderEndMatch =
      Inr (length (response_text version status header), response_text version status header @ y, net1)"
    and h: "response_head_ok version status header"
  shows "client_read ru re ra max_size attempt_reconnect net =
    (let m = parsed_response version status header in
     case header_find ''Content-Length'' header of
       Some v \<Rightarrow>
         (case stoul 10 v of
            Ok content_length \<Rightarrow>
              if length y < content_length
              then read_content_sized re max_size m net1 y (content_length - length y) []
              else Some (Delivered [whole m y] False net1)
          | _ \<Rightarrow> Some (Run_throws []))
     | None \<Rightarrow>
         if header_find ''Transfer-Encoding'' header = Some ''chunked''
         then read_content_chunked ru re max_size m net1 y
         else if str_less version ''1.1'' \<or> header_find ''Connection'' header = Some ''close''
         then read_content_all ra max_size m net1 y []
         else if header_find ''Content-Type'' header = Some ''text/event-stream''
         then read_server_sent_event ru max_size m net1 y [whole m []]
         else Some (Delivered [whole m y] False net1))"
proof -
  have "size_sub (length (response_text version status header @ y))
      (length (response_text version status header)) = length y"
    by (simp add: size_sub_def)
  moreover have "res_header (parsed_response version status header) = header"
    "res_version (parsed_response version status header) = version"
    by (simp_all add: parsed_response_def)
  ultimately show ?thesis
    by (simp only: client_read_def assms(1) sum.case prod.case response_text_parsed [OF h] option.case
        Let_def not_True_eq_False if_False)
qed

text \<open>The calls of a successful run: parts of the content in order, the last one marked.\<close>

definition complete :: "delivery list \<Rightarrow> response_message \<Rightarrow> bytes \<Rightarrow> bool" where
  "complete ds m content \<longleftrightarrow> ds \<noteq> [] \<and> (\<forall>d \<in> set ds. response_head d = m \<and> failure d = None) \<and>
     (\<forall>d \<in> set (butlast ds). \<not> fin d) \<and> fin (last ds) \<and> concat (map response_content ds) = content"

lemma complete_whole [simp]: "complete [whole m c] m content \<longleftrightarrow> c = content"
  by (simp add: complete_def whole_def)

lemma complete_part: "complete ds m content \<Longrightarrow> complete (part m c # ds) m (c @ content)"
  by (auto simp: complete_def part_def)

lemma read_content_sized_ok:
  assumes tr: "transport pending ru re" and "0 < max_size"
    and "length content \<le> max_size" and "pending net = missing @ extra"
  shows "\<exists>ds' net'. read_content_sized re max_size m net content (length missing) ds = Some (Delivered (ds @ ds') False net') \<and>
    complete ds' m (content @ missing) \<and> pending net' = extra \<and> (\<forall>d \<in> set ds'. length (response_content d) \<le> max_size)"
  using assms(3,4)
proof (induction "length missing + (if length content = max_size then 1 else 0)" arbitrary: net content missing ds rule: less_induct)
  case less
  let ?n = "min (length missing) (max_size - length content)"
  have len: "length (take ?n missing) = ?n" by simp
  have "pending net = take ?n missing @ drop ?n missing @ extra" using less.prems(2) by simp
  then obtain net1 where 1: "re net ?n = Inr (take ?n missing, net1)" "pending net1 = drop ?n missing @ extra"
    using transport_exactly [OF tr _ len [symmetric]] by blast
  show ?case
  proof (cases "length missing \<le> max_size - length content")
    case True
    then have "take ?n missing = missing" "drop ?n missing = []" by simp_all
    with 1 True less.prems(1) show ?thesis
      by (intro exI [of _ "[whole m (content @ missing)]"] exI [of _ net1])
        (subst read_content_sized.simps, simp add: Let_def whole_def [of m "content @ missing"] complete_def)
  next
    case False
    then have n: "?n = max_size - length content" by simp
    let ?rest = "drop ?n missing"
    have full: "length (content @ take ?n missing) = max_size" using n len less.prems(1) False by simp
    have "length ?rest + (if length [] = max_size then 1 else 0) <
        length missing + (if length content = max_size then 1 else 0)"
      using n False assms(2) less.prems(1) by auto
    from less.hyps [OF this _ 1(2), of "ds @ [part m (content @ take ?n missing)]"]
    obtain ds' net' where 2: "read_content_sized re max_size m net1 [] (length ?rest) (ds @ [part m (content @ take ?n missing)]) =
        Some (Delivered ((ds @ [part m (content @ take ?n missing)]) @ ds') False net')"
      "complete ds' m ([] @ ?rest)" "pending net' = extra" "\<forall>d \<in> set ds'. length (response_content d) \<le> max_size"
      by auto
    have "length missing - length (take ?n missing) = length ?rest" by simp
    moreover have "length (take ?n missing) < length missing" using n False len by simp
    ultimately have "read_content_sized re max_size m net content (length missing) ds =
        Some (Delivered (ds @ part m (content @ take ?n missing) # ds') False net')"
      by (subst read_content_sized.simps) (simp only: 1(1) sum.case prod.case Let_def full simp_thms if_True 2(1), simp)
    moreover have "complete (part m (content @ take ?n missing) # ds') m (content @ missing)"
      using complete_part [OF 2(2), of "content @ take ?n missing"] by simp
    moreover have "length (response_content (part m (content @ take ?n missing))) \<le> max_size"
      using full by (simp add: part_def)
    ultimately show ?thesis using 2(3,4) by (metis set_ConsD)
  qed
qed

lemma read_content_all_ok:
  assumes tr: "transport_to_end pending ra" and "0 < max_size" and "length content \<le> max_size"
  shows "\<exists>ds' net'. read_content_all ra max_size m net content ds = Some (Delivered (ds @ ds') True net') \<and>
    complete ds' m (content @ pending net) \<and> pending net' = []"
  using assms(3)
proof (induction "length (pending net) + (if length content = max_size then 1 else 0)" arbitrary: net content ds rule: less_induct)
  case less
  let ?room = "max_size - length content"
  obtain net1 where 1: "ra net ?room = (take ?room (pending net), if ?room \<le> length (pending net) then None else Some Eof, net1)"
    "pending net1 = drop ?room (pending net)"
    using tr unfolding transport_to_end_def by blast
  have ec: "(if ?room \<le> length (pending net) then None else Some Eof) = None \<or>
      (if ?room \<le> length (pending net) then None else Some Eof) = Some Eof" by simp
  show ?case
  proof (cases "?room \<le> length (pending net)")
    case True
    have full: "length (content @ take ?room (pending net)) = max_size" using True less.prems by simp
    have "length (pending net1) + (if length [] = max_size then 1 else 0) <
        length (pending net) + (if length content = max_size then 1 else 0)"
      using True less.prems assms(2) 1(2) by auto
    from less.hyps [OF this, of "ds @ [part m (content @ take ?room (pending net))]"]
    obtain ds' net' where 2: "read_content_all ra max_size m net1 [] (ds @ [part m (content @ take ?room (pending net))]) =
        Some (Delivered ((ds @ [part m (content @ take ?room (pending net))]) @ ds') True net')"
      "complete ds' m ([] @ pending net1)" "pending net' = []" by auto
    have "read_content_all ra max_size m net content ds =
        Some (Delivered (ds @ part m (content @ take ?room (pending net)) # ds') True net')"
      by (subst read_content_all.simps) (simp only: 1(1) prod.case Let_def ec full if_True 2(1), simp)
    moreover have "complete (part m (content @ take ?room (pending net)) # ds') m (content @ pending net)"
      using complete_part [OF 2(2), of "content @ take ?room (pending net)"] 1(2) by simp
    ultimately show ?thesis using 2(3) by blast
  next
    case False
    then have t: "take ?room (pending net) = pending net" and "pending net1 = []" using 1(2) by simp_all
    moreover have "length (content @ pending net) \<noteq> max_size" using False by simp
    ultimately show ?thesis using 1(1) False
      by (intro exI [of _ "[whole m (content @ pending net)]"] exI [of _ net1])
        (subst read_content_all.simps, simp add: Let_def)
  qed
qed

lemma parts_of_complete: "parts \<noteq> [] \<Longrightarrow> complete (parts_of m parts) m (concat parts)"
proof (induction m parts rule: parts_of.induct)
  case (3 m content p parts)
  then show ?case using complete_part by simp
qed simp_all

lemma event_line:
  assumes "l \<noteq> []" and "CR \<notin> set l" and "LF \<notin> set l" and "eol = [LF] \<or> eol = crlf"
  shows "event_lines (l @ eol @ rest) = (let (content, rest') = event_lines rest in (l @ [LF] @ content, rest'))"
proof -
  have nl: "last l \<noteq> CR" using assms(1,2) last_in_set by metis
  have "getline (l @ eol @ rest) = Some (l @ butlast eol, rest)"
    using assms(3,4) getline_line [of l rest] getline_line [of "l @ [CR]" rest] by auto
  then show ?thesis
    using assms(1,4) nl by (subst event_lines.simps) (auto simp: split_beta)
qed

lemma event_blank: "eol = [LF] \<or> eol = crlf \<Longrightarrow> event_lines (eol @ rest) = ([], rest)"
  using getline_line [of "[]" rest] getline_line [of "[CR]" rest] by (subst event_lines.simps) auto

text \<open>An event: lines with one kind of line break, and a blank line.\<close>

definition event_text :: "bytes \<Rightarrow> bytes list \<Rightarrow> bytes" where
  "event_text eol ls = concat (map (\<lambda>l. l @ eol) ls) @ eol"

definition event_content :: "bytes list \<Rightarrow> bytes" where
  "event_content ls = concat (map (\<lambda>l. l @ [LF]) ls)"

definition event_ok :: "bytes \<Rightarrow> bytes list \<Rightarrow> bool" where
  "event_ok eol ls \<longleftrightarrow> ls \<noteq> [] \<and> (eol = [LF] \<or> eol = crlf) \<and> (\<forall>l \<in> set ls. CR \<notin> set l \<and> LF \<notin> set l \<and> l \<noteq> [])"

lemma event_lines_text:
  assumes "eol = [LF] \<or> eol = crlf" and "\<forall>l \<in> set ls. CR \<notin> set l \<and> LF \<notin> set l \<and> l \<noteq> []"
  shows "event_lines (event_text eol ls @ y) = (event_content ls, y)"
  using assms(2)
proof (induction ls)
  case Nil
  show ?case using event_blank [OF assms(1), of y] by (simp add: event_text_def event_content_def)
next
  case (Cons l ls)
  have "event_lines (l @ eol @ event_text eol ls @ y) =
      (let (content, rest') = event_lines (event_text eol ls @ y) in (l @ [LF] @ content, rest'))"
    by (rule event_line) (use Cons.prems assms(1) in auto)
  with Cons show ?case by (simp add: event_text_def event_content_def)
qed

lemma event_text_end:
  assumes "event_ok eol ls"
  shows "HeaderEndMatch (event_text eol ls @ rest) = Some (length (event_text eol ls))"
  using match_eol_lines [of ls eol "(0, 0)" rest] assms
  unfolding event_ok_def event_text_def HeaderEndMatch_def by (simp only: append_assoc) simp

lemma read_events:
  assumes tr: "transport pending ru re" and "HeaderEndMatch rest = None"
    and "\<forall>(eol, ls) \<in> set events. event_ok eol ls \<and> length (event_text eol ls) \<le> max_size"
    and "length buf \<le> max_size"
    and "buf @ pending net = concat (map (\<lambda>(eol, ls). event_text eol ls) events) @ rest"
  shows "\<exists>e. read_server_sent_event ru max_size m net buf ds =
    Some (Failed_with (ds @ map (\<lambda>(eol, ls). part m (event_content ls)) events @ [failed m (C_io e)]))"
  using assms(3-)
proof (induction events arbitrary: buf net ds)
  case Nil
  then have none: "HeaderEndMatch (buf @ pending net) = None" using assms(2) by simp
  obtain e where "ru net max_size buf HeaderEndMatch = Inl e"
  proof (cases "ru net max_size buf HeaderEndMatch")
    case (Inr r)
    obtain n buf' net' where "r = (n, buf', net')" by (cases r)
    with Inr have r: "ru net max_size buf HeaderEndMatch = Inr (n, buf', net')" by simp
    note d = transport_untilD [where ru = ru, OF tr scans_HeaderEndMatch Nil.prems(2) r]
    have "HeaderEndMatch (buf' @ pending net') = Some n" by (rule scansD(3) [OF scans_HeaderEndMatch d(1)])
    with none d(3) show ?thesis by simp
  qed (rule that)
  then show ?case by (intro exI [of _ e]) (subst read_server_sent_event.simps, simp)
next
  case (Cons ev events)
  obtain eol ls where ev: "ev = (eol, ls)" by (cases ev)
  have ok: "event_ok eol ls" "length (event_text eol ls) \<le> max_size" using Cons.prems(1) ev by auto
  let ?rest = "concat (map (\<lambda>(eol, ls). event_text eol ls) events) @ rest"
  have st: "buf @ pending net = event_text eol ls @ ?rest" using Cons.prems(3) ev by simp
  obtain y net1 where 1: "ru net max_size buf HeaderEndMatch =
      Inr (length (event_text eol ls), event_text eol ls @ y, net1)"
    "y @ pending net1 = ?rest" "length (event_text eol ls @ y) \<le> max_size"
    by (rule transport_until [where ru = ru and net = net and limit = max_size and buf = buf and
        scan = HeaderEndMatch and rest = ?rest, OF tr scans_HeaderEndMatch Cons.prems(2) st event_text_end [OF ok(1)] ok(2)])
  have "event_lines (event_text eol ls @ y) = (event_content ls, y)"
    by (rule event_lines_text) (use ok(1) in \<open>auto simp: event_ok_def\<close>)
  then have step: "read_server_sent_event ru max_size m net buf ds =
      read_server_sent_event ru max_size m net1 y (ds @ [part m (event_content ls)])"
    by (subst read_server_sent_event.simps) (simp add: 1(1))
  have "length y \<le> max_size" using 1(3) by simp
  from Cons.IH [OF _ this 1(2), of "ds @ [part m (event_content ls)]"] Cons.prems(1) show ?case
    unfolding step by (simp add: ev)
qed

lemma sync_rest:
  assumes "complete ds m content" and "\<forall>d \<in> set ds. length (response_content d) \<le> max_size"
    and "length c \<le> max_size" and "length c + length content < 2 ^ 63"
  shows "sync_step max_size (Some (m, c)) ds =
    (if length c + length content \<le> max_size then Value m (c @ content) else Exception C_message_size)"
  using assms
proof (induction ds arbitrary: c content)
  case Nil
  then show ?case by (simp add: complete_def)
next
  case (Cons d ds)
  let ?x = "response_content d"
  have d: "response_head d = m" "failure d = None" using Cons.prems(1) by (simp_all add: complete_def)
  have content: "content = ?x @ concat (map response_content ds)" using Cons.prems(1) by (simp add: complete_def)
  have add: "size_add (length ?x) (length c) = length ?x + length c"
    using Cons.prems(4) content by (simp add: size_add_def)
  show ?case
  proof (cases "max_size < length ?x + length c")
    case True
    then show ?thesis using content by (simp add: d add)
  next
    case False
    show ?thesis
    proof (cases ds)
      case Nil
      then have "fin d" using Cons.prems(1) by (simp add: complete_def)
      with False Nil content show ?thesis by (simp add: d add)
    next
      case (Cons d' ds')
      have "\<not> fin d" "complete ds m (concat (map response_content ds))"
        using Cons.prems(1) Cons by (auto simp: complete_def)
      then show ?thesis
        using Cons.IH [of "concat (map response_content ds)" "c @ ?x"] Cons.prems False content
        by (simp add: d add)
    qed
  qed
qed

lemma sync_complete:
  assumes "complete ds m content" and "\<forall>d \<in> set ds. length (response_content d) \<le> max_size" and "length content < 2 ^ 63"
  shows "sync_step max_size None ds = (if length content \<le> max_size then Value m content else Exception C_message_size)"
proof (cases ds)
  case Nil
  with assms(1) show ?thesis by (simp add: complete_def)
next
  case (Cons d ds')
  have d: "response_head d = m" "failure d = None" "length (response_content d) \<le> max_size"
    using assms(1,2) Cons by (simp_all add: complete_def)
  have content: "content = response_content d @ concat (map response_content ds')"
    using assms(1) Cons by (simp add: complete_def)
  show ?thesis
  proof (cases "ds' = []")
    case True
    then have "fin d" using assms(1) Cons by (simp add: complete_def)
    with True Cons d content show ?thesis by simp
  next
    case False
    then have "\<not> fin d" "complete ds' m (concat (map response_content ds'))"
      using assms(1) Cons by (auto simp: complete_def)
    then show ?thesis
      using sync_rest [of ds' m "concat (map response_content ds')" max_size "response_content d"] assms(2,3) Cons d content
      by simp
  qed
qed

section \<open>A response the server writes\<close>

lemma status_code_text_plain: "plain (status_code_text code)"
proof -
  have clean: "list_all (\<lambda>(e, t). CR \<notin> set t) status_code_strings"
    by (simp add: status_code_strings_def status_code_names_def)
  have "CR \<notin> set (status_code_text code)"
  proof (cases "map_of status_code_strings code")
    case None
    then show ?thesis by (simp add: status_code_text_def)
  next
    case (Some line)
    from map_of_SomeD [OF this] clean have "CR \<notin> set line" by (auto simp: list_all_iff)
    with Some show ?thesis by (simp add: status_code_text_def)
  qed
  with status_code_text_clean show ?thesis by (simp add: plain_def)
qed

lemma tolower_length: "case_insensitive_equal n ''Content-Length'' = case_insensitive_equal n ''content-length''"
proof -
  have "map tolower ''Content-Length'' = map tolower ''content-length''" by code_simp
  moreover have "case_insensitive_equal n s \<longleftrightarrow> map tolower n = map tolower s" for s
    by (simp add: case_insensitive_equal_def list_eq_iff_nth_eq list_all2_conv_all_nth) auto
  ultimately show ?thesis by metis
qed

lemma framing_found:
  assumes "\<not> has_length header" and "\<not> has_chunked header"
  shows "framing header n False = header @ [(''Content-Length'', to_string n)]"
    and "header_find ''Content-Length'' (framing header n False) = Some (to_string n)"
proof -
  show f: "framing header n False = header @ [(''Content-Length'', to_string n)]"
    using assms by (simp add: framing_def)
  have "header_find ''Content-Length'' header = None"
    using assms(1) unfolding has_length_def
  proof (induction header)
    case (Cons field header)
    then show ?case by (cases field) (auto simp: tolower_length)
  qed simp
  then show "header_find ''Content-Length'' (framing header n False) = Some (to_string n)"
    unfolding f by (simp add: header_find_append case_insensitive_equal_def)
qed

lemma client_reads_sized:
  assumes "transport pending read_until read_exactly" and "response_head_ok version status header"
    and "pending net = response_text version status header @ content"
    and "header_find ''Content-Length'' header = Some v" and "stoul 10 v = Ok (length content)"
    and "length (response_text version status header) \<le> max_size" and "length content < 2 ^ 63"
  shows "\<exists>ds net'. client_read read_until read_exactly read_all max_size attempt_reconnect net = Some (Delivered ds False net') \<and>
    complete ds (parsed_response version status header) content \<and> pending net' = [] \<and>
    sync_step max_size None ds =
      (if length content \<le> max_size then Value (parsed_response version status header) content
       else Exception C_message_size)"
proof -
  let ?m = "parsed_response version status header"
  obtain y net1 where 1: "read_until net max_size [] HeaderEndMatch =
      Inr (length (response_text version status header), response_text version status header @ y, net1)"
    "y @ pending net1 = content" "length y \<le> max_size"
    by (rule client_read_head [OF assms(1-3,6)])
  have "0 < length (response_text version status header)" by (simp add: response_text_def)
  then have pos: "0 < max_size" using assms(6) by linarith
  have "\<exists>ds net'. client_read read_until read_exactly read_all max_size attempt_reconnect net = Some (Delivered ds False net') \<and>
      complete ds ?m content \<and> pending net' = [] \<and> (\<forall>d \<in> set ds. length (response_content d) \<le> max_size)"
  proof (cases "length y < length content")
    case True
    have "content = y @ pending net1" using 1(2) by simp
    then have "length content - length y = length (pending net1)" by simp
    then show ?thesis
      using read_content_sized_ok [OF assms(1) pos 1(3), of net1 "pending net1" "[]" ?m "[]"] True 1(2)
      unfolding client_read_unfold [where ru = read_until and net = net, OF 1(1) assms(2)] assms(4)
      by (simp add: Let_def assms(5))
  next
    case False
    have "y = content" "pending net1 = []" using False 1(2) arg_cong [OF 1(2), of length] by auto
    then show ?thesis
      using 1(3) unfolding client_read_unfold [where ru = read_until and net = net, OF 1(1) assms(2)] assms(4)
      by (simp add: Let_def assms(5)) (simp add: whole_def)
  qed
  then show ?thesis using sync_complete [OF _ _ assms(7)] by blast
qed

section \<open>Properties\<close>

text \<open>
  A response with a length reaches the callback whole, in parts when the buffer is
  smaller than the content, the last one marked, however the network cuts it. A
  synchronous request returns it if it fits the buffer and fails with \<open>message_size\<close> otherwise.
\<close>
lemma client_reads_sized_response:
  assumes "transport pending read_until read_exactly" and "response_head_ok version status header"
    and "pending net = response_text version status header @ content"
    and "header_find ''Content-Length'' header = Some v" and "stoul 10 v = Ok (length content)"
    and "length (response_text version status header) \<le> max_size" and "length content < 2 ^ 63"
  shows "\<exists>ds net'. client_read read_until read_exactly read_all max_size attempt_reconnect net = Some (Delivered ds False net') \<and>
    complete ds (parsed_response version status header) content \<and> pending net' = [] \<and>
    sync_step max_size None ds =
      (if length content \<le> max_size then Value (parsed_response version status header) content
       else Exception C_message_size)"
  by (rule client_reads_sized [OF assms])

text \<open>
  A response without a length that ends with the connection, in the old protocol or with
  the field that says so, reaches the callback up to the last byte, and reading ends.
\<close>
lemma client_reads_closed_response:
  assumes "transport pending read_until read_exactly" and "transport_to_end pending read_all"
    and "response_head_ok version status header" and "pending net = response_text version status header @ content"
    and "header_find ''Content-Length'' header = None" and "header_find ''Transfer-Encoding'' header \<noteq> Some ''chunked''"
    and "str_less version ''1.1'' \<or> header_find ''Connection'' header = Some ''close''"
    and "length (response_text version status header) \<le> max_size"
  shows "\<exists>ds net'. client_read read_until read_exactly read_all max_size attempt_reconnect net = Some (Delivered ds True net') \<and>
    complete ds (parsed_response version status header) content \<and> pending net' = []"
proof -
  obtain y net1 where 1: "read_until net max_size [] HeaderEndMatch =
      Inr (length (response_text version status header), response_text version status header @ y, net1)"
    "y @ pending net1 = content" "length y \<le> max_size"
    by (rule client_read_head [OF assms(1,3,4,8)])
  have "0 < length (response_text version status header)" by (simp add: response_text_def)
  then have pos: "0 < max_size" using assms(8) by linarith
  from read_content_all_ok [OF assms(2) pos 1(3), of "parsed_response version status header" net1 "[]"] 1(2) assms(6,7)
  show ?thesis
    unfolding client_read_unfold [where ru = read_until and net = net, OF 1(1) assms(3)] assms(5)
    by (simp add: Let_def)
qed

text \<open>
  A response in chunks reaches the callback whole and in order, in parts when the buffer
  is smaller than the content, provided each chunk fits.
\<close>
lemma client_reads_chunked_response:
  assumes "transport pending read_until read_exactly" and "response_head_ok version status header"
    and "pending net = response_text version status header @ concat (map chunk_text chunks) @ final @ crlf @ extra"
    and "header_find ''Content-Length'' header = None" and "header_find ''Transfer-Encoding'' header = Some ''chunked''"
    and "\<forall>chunk \<in> set chunks. chunk_ok chunk \<and> length (snd chunk) \<le> max_size" and "size_text final 0"
    and "length (response_text version status header) \<le> max_size" and "length (concat (map snd chunks)) < 2 ^ 63"
  shows "\<exists>ds lost net'. client_read read_until read_exactly read_all max_size attempt_reconnect net = Some (Delivered ds False net') \<and>
    complete ds (parsed_response version status header) (concat (map snd chunks)) \<and> lost @ pending net' = extra"
proof -
  obtain y net1 where 1: "read_until net max_size [] HeaderEndMatch =
      Inr (length (response_text version status header), response_text version status header @ y, net1)"
    "y @ pending net1 = concat (map chunk_text chunks) @ final @ crlf @ extra" "length y \<le> max_size"
    by (rule client_read_head [OF assms(1-3,8)])
  obtain parts buf' net' where 2: "client_chunks read_until read_exactly (max 18 (length y)) max_size net1 y [] [] =
      Some (Parts parts buf' net')" "concat parts = concat (map snd chunks)" "buf' @ pending net' = extra" "parts \<noteq> []"
    using client_chunks_decodes [OF assms(1) _ assms(6,7) _ _ 1(2), of "max 18 (length y)" "[]" "[]"] assms(9) by auto
  then show ?thesis
    unfolding client_read_unfold [where ru = read_until and net = net, OF 1(1) assms(2)] assms(4)
    using assms(5) parts_of_complete [OF 2(4), of "parsed_response version status header"]
    by (auto simp: Let_def read_content_chunked_def)
qed

text \<open>
  A stream of server-sent events reaches the callback event by event, after a first call
  that opens it and before a last one with the error that ends it. A synchronous request
  takes the first call for the whole response and returns an empty content; the calls that
  follow refer to variables that are gone.
\<close>
lemma client_reads_events:
  assumes "transport pending read_until read_exactly" and "response_head_ok version status header"
    and "pending net = response_text version status header @ concat (map (\<lambda>(eol, ls). event_text eol ls) events) @ rest"
    and "header_find ''Content-Length'' header = None" and "header_find ''Transfer-Encoding'' header \<noteq> Some ''chunked''"
    and "\<not> str_less version ''1.1''" and "header_find ''Connection'' header \<noteq> Some ''close''"
    and "header_find ''Content-Type'' header = Some ''text/event-stream''"
    and "\<forall>(eol, ls) \<in> set events. event_ok eol ls \<and> length (event_text eol ls) \<le> max_size"
    and "HeaderEndMatch rest = None" and "length (response_text version status header) \<le> max_size"
  shows "\<exists>e ds. client_read read_until read_exactly read_all max_size attempt_reconnect net = Some (Failed_with ds) \<and>
    ds = whole (parsed_response version status header) [] #
      map (\<lambda>(eol, ls). part (parsed_response version status header) (event_content ls)) events @
      [failed (parsed_response version status header) (C_io e)] \<and>
    sync_step max_size None ds = Dangling"
proof -
  let ?m = "parsed_response version status header"
  obtain y net1 where 1: "read_until net max_size [] HeaderEndMatch =
      Inr (length (response_text version status header), response_text version status header @ y, net1)"
    "y @ pending net1 = concat (map (\<lambda>(eol, ls). event_text eol ls) events) @ rest" "length y \<le> max_size"
    by (rule client_read_head [OF assms(1-3,11)])
  from read_events [OF assms(1,10,9) 1(3,2), of ?m "[whole ?m []]"] assms(5-8) show ?thesis
    unfolding client_read_unfold [where ru = read_until and net = net, OF 1(1) assms(2)] assms(4)
    by (auto simp: Let_def whole_def)
qed

text \<open>
  C25: What a handler of the server writes, the client reads, however the network cuts it: the
  version, the status line of the code, the header with the length added, and exactly the
  content, which is what a synchronous request returns, if the response fits the buffer.
\<close>
theorem server_response_reaches_client:
  assumes "transport pending read_until read_exactly"
    and "\<forall>field \<in> set header. field_ok field \<and> CR \<notin> set (fst field) \<and> CR \<notin> set (snd field)"
    and "\<not> has_length header" and "\<not> has_chunked header"
    and "pending net = streambuf (write_content code content header response_new)"
    and "length (streambuf (write_content code content header response_new)) \<le> max_size" and "length content < 2 ^ 63"
  shows "\<exists>ds net'. client_read read_until read_exactly read_all max_size attempt_reconnect net = Some (Delivered ds False net') \<and>
    pending net' = [] \<and>
    sync_step max_size None ds =
      Value (parsed_response ''1.1'' (status_code_text code)
        (header @ [(''Content-Length'', to_string (length content))])) content"
proof -
  let ?h = "framing header (length content) False"
  have w: "streambuf (write_content code content header response_new) =
      response_text ''1.1'' (status_code_text code) ?h @ content"
    by (simp add: write_content_eq response_new_def)
  have ok: "response_head_ok ''1.1'' (status_code_text code) ?h"
    using assms(2) status_code_text_plain to_string_field_ok [of "''Content-Length''" "length content"] to_string_plain
    unfolding framing_found(1) [OF assms(3,4)] by (auto simp: response_head_ok_def plain_def)
  have num: "stoul 10 (to_string (length content)) = Ok (length content)"
    by (rule stoul_to_string) (use assms(7) in simp)
  have fits: "length (response_text ''1.1'' (status_code_text code) ?h) \<le> max_size" "length content \<le> max_size"
    using assms(6) unfolding w by simp_all
  from client_reads_sized [OF assms(1) ok assms(5) [unfolded w] framing_found(2) [OF assms(3,4)] num fits(1) assms(7),
      of read_all attempt_reconnect]
  show ?thesis
    unfolding framing_found(1) [OF assms(3,4)] using fits(2) by auto
qed

theorem server_response_reaches_client_witness:
  "\<exists>ds net'. client_read segments_until segments_exactly segments_all 1000 True
      (let r = streambuf (write_content 200 ''hello'' [(''X'', ''y'')] response_new) in [take 7 r, drop 7 r]) =
      Some (Delivered ds False net') \<and> concat net' = [] \<and>
    sync_step 1000 None ds =
      Value (parsed_response ''1.1'' (status_code_text 200) ([(''X'', ''y'')] @ [(''Content-Length'', to_string (length ''hello''))])) ''hello''"
proof (rule server_response_reaches_client [OF transport_segments])
  have x: "\<not> has_length [(''X'', ''y'')]" "\<not> has_chunked [(''X'', ''y'')]"
    by (simp_all add: has_length_def has_chunked_def case_insensitive_equal_def)
  then show "\<not> has_length [(''X'', ''y'')]" "\<not> has_chunked [(''X'', ''y'')]" .
  have "length (to_string 5) = 1" by (simp add: to_string.simps)
  moreover have "status_code_text 200 = ''200 OK''"
    by (simp add: status_code_text_def status_code_strings_def status_code_names_def enum_eval)
  ultimately show "length (streambuf (write_content 200 ''hello'' [(''X'', ''y'')] response_new)) \<le> 1000"
    unfolding write_content_eq framing_def using x
    by (simp add: response_new_def framing_def response_text_def header_line_def eval_nat_numeral)
qed (simp_all add: field_ok_def Let_def)

end
