(* ===== verification/Client_Pool.thy ===== *)
theory Client_Pool
  imports Client_Read
begin

text \<open>
  The connections of a client in \<open>src/src/http/client_http.hpp\<close>: \<open>get_connection\<close> reuses one that
  is not in use or makes a new one, the callback of a session marks it unused at the last
  call and prunes the set, \<open>reconnect\<close> replaces one, \<open>stop\<close> drops all. A connection is a number;
  its flags live in a heap, because a session holds on to a connection that is no longer in
  the set. The set is the list of its elements in the order of its iteration. Its lock is
  held during each operation, so they are atomic.
\<close>

section \<open>State\<close>

record connection =
  in_use :: bool
  attempt_reconnect :: bool

record pool =
  connections :: "nat list"
  heap :: "nat \<Rightarrow> connection"
  next_connection :: nat
  host_port :: "(bytes \<times> bytes) option"

definition pool_new :: pool where
  "pool_new = \<lparr>connections = [], heap = (\<lambda>_. \<lparr>in_use = False, attempt_reconnect = True\<rparr>),
     next_connection = 0, host_port = None\<rparr>"

definition create_connection :: "pool \<Rightarrow> nat \<times> pool" where
  "create_connection p =
     (let i = next_connection p
      in (i, p\<lparr>heap := (heap p)(i := \<lparr>in_use = False, attempt_reconnect = True\<rparr>), next_connection := Suc i\<rparr>))"

definition set_flags :: "nat \<Rightarrow> bool \<Rightarrow> bool \<Rightarrow> pool \<Rightarrow> pool" where
  "set_flags i use attempt p = p\<lparr>heap := (heap p)(i := \<lparr>in_use = use, attempt_reconnect = attempt\<rparr>)\<rparr>"

section \<open>Operations\<close>

definition resolve_host :: "client \<Rightarrow> pool \<Rightarrow> pool" where
  "resolve_host c p =
     (case host_port p of
        Some hp \<Rightarrow> p
      | None \<Rightarrow>
          if proxy_server c = [] then p\<lparr>host_port := Some (host c, to_string (port c))\<rparr>
          else (let (h, n) = parse_host_port (proxy_server c) 8080
                in p\<lparr>host_port := Some (h, to_string n)\<rparr>))"

definition get_connection :: "client \<Rightarrow> pool \<Rightarrow> nat \<times> pool" where
  "get_connection c p =
     (case List.find (\<lambda>i. \<not> in_use (heap p i)) (connections p) of
        Some i \<Rightarrow> (i, resolve_host c (set_flags i True True p))
      | None \<Rightarrow>
          (let (i, p') = create_connection p
           in (i, resolve_host c (set_flags i True True (p'\<lparr>connections := connections p' @ [i]\<rparr>)))))"

text \<open>The loop that removes unused connections but keeps one.\<close>

fun prune :: "(nat \<Rightarrow> connection) \<Rightarrow> bool \<Rightarrow> nat \<Rightarrow> nat \<Rightarrow> nat list \<Rightarrow> nat list" where
  "prune h ec c unused_connections [] = []"
| "prune h ec c unused_connections (i # is) =
     (if ec \<and> c = i then prune h ec c unused_connections is
      else if in_use (h i) then i # prune h ec c unused_connections is
      else (let unused_connections = unused_connections + 1
            in if 1 < unused_connections then prune h ec c unused_connections is
               else i # prune h ec c unused_connections is))"

definition session_callback :: "nat \<Rightarrow> bool \<Rightarrow> bool \<Rightarrow> pool \<Rightarrow> pool" where
  "session_callback c is_end ec p =
     (let h = (if is_end then (heap p)(c := (heap p c)\<lparr>in_use := False\<rparr>) else heap p)
      in p\<lparr>heap := h, connections := prune h ec c 0 (connections p)\<rparr>)"

definition reconnect :: "nat \<Rightarrow> pool \<Rightarrow> (nat \<times> pool) option" where
  "reconnect c p =
     (if c \<in> set (connections p) then
        (let p1 = p\<lparr>connections := remove1 c (connections p)\<rparr>;
             (i, p2) = create_connection p1;
             p3 = set_flags i True False p2
         in Some (i, p3\<lparr>connections := connections p3 @ [i]\<rparr>))
      else None)"

definition forget :: "nat \<Rightarrow> pool \<Rightarrow> pool" where
  "forget c p = p\<lparr>connections := remove1 c (connections p)\<rparr>"

definition header_was_read :: "nat \<Rightarrow> pool \<Rightarrow> pool" where
  "header_was_read c p = p\<lparr>heap := (heap p)(c := (heap p c)\<lparr>attempt_reconnect := True\<rparr>)\<rparr>"

definition stop_pool :: "pool \<Rightarrow> pool" where
  "stop_pool p = p\<lparr>connections := []\<rparr>"

section \<open>Sessions\<close>

text \<open>
  The steps of the sessions of a client; \<open>active\<close> are the connections on which a session still
  reads or writes. A call of the callback says whether it is marked as the last one
  (\<open>content.end\<close>), whether it has an error, and whether the session is over after it.
\<close>

inductive pool_step :: "client \<Rightarrow> pool \<times> nat set \<Rightarrow> pool \<times> nat set \<Rightarrow> bool" for c where
  request: "get_connection c p = (i, p') \<Longrightarrow> pool_step c (p, active) (p', insert i active)"
| called: "i \<in> active \<Longrightarrow> (is_end \<longleftrightarrow> over) \<Longrightarrow>
    pool_step c (p, active) (session_callback i is_end ec p, if over then active - {i} else active)"
| reconnected: "i \<in> active \<Longrightarrow> reconnect i p = Some (j, p') \<Longrightarrow>
    pool_step c (p, active) (p', insert j (active - {i}))"
| forgotten: "i \<in> active \<Longrightarrow> pool_step c (p, active) (forget i p, active)"
| header: "i \<in> active \<Longrightarrow> pool_step c (p, active) (header_was_read i p, active)"
| stopped: "pool_step c (p, active) (stop_pool p, active)"

inductive pool_reachable :: "client \<Rightarrow> pool \<times> nat set \<Rightarrow> bool" for c where
  init: "pool_reachable c (pool_new, {})"
| step: "pool_reachable c s \<Longrightarrow> pool_step c s s' \<Longrightarrow> pool_reachable c s'"

section \<open>The invariant\<close>

definition unused :: "pool \<Rightarrow> nat list" where
  "unused p = filter (\<lambda>i. \<not> in_use (heap p i)) (connections p)"

definition pool_ok :: "pool \<times> nat set \<Rightarrow> bool" where
  "pool_ok s \<longleftrightarrow> (case s of (p, active) \<Rightarrow>
     distinct (connections p) \<and> (\<forall>i \<in> set (connections p) \<union> active. i < next_connection p) \<and>
     (\<forall>i \<in> active. in_use (heap p i)) \<and>
     (\<forall>i \<in> set (connections p). in_use (heap p i) \<longrightarrow> i \<in> active) \<and> length (unused p) \<le> 1)"

lemma pool_okD:
  assumes "pool_ok (p, active)"
  shows "distinct (connections p)" and "\<And>i. i \<in> set (connections p) \<Longrightarrow> i < next_connection p"
    and "\<And>i. i \<in> active \<Longrightarrow> i < next_connection p" and "\<And>i. i \<in> active \<Longrightarrow> in_use (heap p i)"
    and "\<And>i. i \<in> set (connections p) \<Longrightarrow> in_use (heap p i) \<Longrightarrow> i \<in> active" and "length (unused p) \<le> 1"
  using assms by (auto simp: pool_ok_def)

lemma resolve_host_simps [simp]:
  "connections (resolve_host c p) = connections p" "heap (resolve_host c p) = heap p"
  "next_connection (resolve_host c p) = next_connection p"
  by (simp_all add: resolve_host_def split_beta Let_def split: option.split)

lemma set_flags_simps [simp]:
  "connections (set_flags i use a p) = connections p" "next_connection (set_flags i use a p) = next_connection p"
  "heap (set_flags i use a p) = (heap p)(i := \<lparr>in_use = use, attempt_reconnect = a\<rparr>)"
  by (simp_all add: set_flags_def)

lemma prune_subset: "set (prune h ec c u is) \<subseteq> set is"
  by (induction h ec c u "is" rule: prune.induct) (auto simp: Let_def)

lemma prune_distinct: "distinct is \<Longrightarrow> distinct (prune h ec c u is)"
  by (induction h ec c u "is" rule: prune.induct) (auto simp: Let_def dest: subsetD [OF prune_subset])

lemma prune_unused: "length (filter (\<lambda>i. \<not> in_use (h i)) (prune h ec c u is)) \<le> 1 - u"
  by (induction h ec c u "is" rule: prune.induct) (auto simp: Let_def)

lemma length_filter_mono: "(\<And>x. x \<in> set xs \<Longrightarrow> P x \<Longrightarrow> Q x) \<Longrightarrow> length (filter P xs) \<le> length (filter Q xs)"
  by (induction xs) (auto simp: le_SucI)

lemma get_connection_cases:
  assumes "get_connection c p = (i, p')"
  obtains (reused) "i \<in> set (connections p)" "\<not> in_use (heap p i)" "connections p' = connections p"
      "heap p' = (heap p)(i := \<lparr>in_use = True, attempt_reconnect = True\<rparr>)" "next_connection p' = next_connection p"
    | (made) "i = next_connection p" "\<forall>j \<in> set (connections p). in_use (heap p j)"
      "connections p' = connections p @ [i]"
      "heap p' = (heap p)(i := \<lparr>in_use = True, attempt_reconnect = True\<rparr>)" "next_connection p' = Suc (next_connection p)"
proof (cases "List.find (\<lambda>i. \<not> in_use (heap p i)) (connections p)")
  case None
  then have "\<forall>j \<in> set (connections p). in_use (heap p j)" by (simp add: find_None_iff)
  with assms None made show ?thesis by (auto simp: get_connection_def create_connection_def Let_def)
next
  case (Some j)
  then have "j \<in> set (connections p)" "\<not> in_use (heap p j)" by (auto simp: find_Some_iff)
  with assms Some reused show ?thesis by (auto simp: get_connection_def)
qed

lemma request_ok:
  assumes "pool_ok (p, active)" and "get_connection c p = (i, p')"
  shows "i \<notin> active" and "pool_ok (p', insert i active)"
proof -
  note ok = pool_okD [OF assms(1)]
  from assms(2) show "i \<notin> active"
    by (cases rule: get_connection_cases) (use ok(3,4) in auto)
  from assms(2) show "pool_ok (p', insert i active)"
  proof (cases rule: get_connection_cases)
    case reused
    have "length (unused p') \<le> length (unused p)"
      unfolding unused_def reused(3,4) by (rule length_filter_mono) (auto split: if_splits)
    with reused ok show ?thesis by (auto simp: pool_ok_def)
  next
    case made
    have "unused p' = []" using made(2) by (auto simp: unused_def made(3,4) filter_empty_conv)
    with made ok show ?thesis by (auto simp: pool_ok_def less_Suc_eq)
  qed
qed

lemma session_callback_ok:
  assumes "pool_ok (p, active)" and "i \<in> active"
  shows "pool_ok (session_callback i is_end ec p, if is_end then active - {i} else active)"
proof -
  note ok = pool_okD [OF assms(1)]
  define h where "h = (if is_end then (heap p)(i := (heap p i)\<lparr>in_use := False\<rparr>) else heap p)"
  have p': "session_callback i is_end ec p = p\<lparr>heap := h, connections := prune h ec i 0 (connections p)\<rparr>"
    by (simp add: session_callback_def h_def Let_def)
  have sub: "\<And>j. j \<in> set (prune h ec i 0 (connections p)) \<Longrightarrow> j \<in> set (connections p)"
    using prune_subset by blast
  have use: "in_use (h j) \<longleftrightarrow> in_use (heap p j) \<and> (is_end \<longrightarrow> j \<noteq> i)" for j
    by (auto simp: h_def)
  have "length (filter (\<lambda>j. \<not> in_use (h j)) (prune h ec i 0 (connections p))) \<le> 1"
    using prune_unused [of h ec i 0] by simp
  then show ?thesis
    using ok assms(2) prune_distinct [OF ok(1)] sub use
    by (auto simp: p' pool_ok_def unused_def)
qed

lemma reconnect_ok:
  assumes "pool_ok (p, active)" and "i \<in> active" and "reconnect i p = Some (j, p')"
  shows "j \<notin> active" and "pool_ok (p', insert j (active - {i}))"
proof -
  note ok = pool_okD [OF assms(1)]
  have p': "j = next_connection p" "connections p' = remove1 i (connections p) @ [j]" "next_connection p' = Suc j"
    "heap p' = (heap p)(j := \<lparr>in_use = True, attempt_reconnect = False\<rparr>)"
    using assms(3) by (auto simp: reconnect_def create_connection_def Let_def split: if_splits)
  show "j \<notin> active" using ok(3) p'(1) by auto
  have fresh: "j \<notin> set (connections p)" using ok(2) p'(1) by auto
  have "length (unused p') \<le> length (filter (\<lambda>k. \<not> in_use (heap p k)) (remove1 i (connections p)))"
    unfolding unused_def p'(2,4) using fresh
    by (auto intro!: length_filter_mono dest: notin_set_remove1)
  also have "\<dots> \<le> length (unused p)"
    unfolding unused_def by (simp add: filter_remove1 length_remove1)
  finally have "length (unused p') \<le> 1" using ok(6) by simp
  then show "pool_ok (p', insert j (active - {i}))"
    using ok fresh p' by (auto simp: pool_ok_def less_Suc_eq dest: notin_set_remove1)
qed

lemma pool_step_ok:
  assumes "pool_step c s s'" and "pool_ok s"
  shows "pool_ok s'"
  using assms
proof cases
  case (request p i p' active)
  with request_ok(2) assms(2) show ?thesis by simp
next
  case (called i active is_end over p ec)
  with session_callback_ok [of p active i is_end ec] assms(2) show ?thesis by simp
next
  case (reconnected i active p j p')
  with reconnect_ok(2) assms(2) show ?thesis by simp
next
  case (forgotten i active p)
  note ok = pool_okD [OF assms(2) [unfolded forgotten(1)]]
  have "length (unused (forget i p)) \<le> length (unused p)"
    by (simp add: forget_def unused_def filter_remove1 length_remove1)
  with forgotten ok show ?thesis
    by (auto simp: pool_ok_def forget_def distinct_remove1 dest: notin_set_remove1)
next
  case (header i active p)
  have "in_use (heap (header_was_read i p) j) = in_use (heap p j)" for j by (simp add: header_was_read_def)
  moreover have "connections (header_was_read i p) = connections p"
    "next_connection (header_was_read i p) = next_connection p" by (simp_all add: header_was_read_def)
  ultimately show ?thesis using assms(2) header by (simp add: pool_ok_def unused_def)
next
  case (stopped p active)
  with assms(2) show ?thesis by (auto simp: pool_ok_def stop_pool_def unused_def)
qed

lemma pool_reachable_ok: "pool_reachable c s \<Longrightarrow> pool_ok s"
proof (induction rule: pool_reachable.induct)
  case init
  show ?case by (simp add: pool_ok_def pool_new_def unused_def)
next
  case (step s s')
  then show ?case using pool_step_ok by blast
qed

lemma pool_reachable_finite: "pool_reachable c s \<Longrightarrow> finite (snd s)"
proof (induction rule: pool_reachable.induct)
  case (step s s')
  from step.hyps(2) step.IH show ?case by cases auto
qed simp

lemma connections_bound:
  assumes "pool_ok (p, active)" and "finite active"
  shows "length (connections p) \<le> card active + 1"
proof -
  note ok = pool_okD [OF assms(1)]
  let ?used = "filter (\<lambda>i. in_use (heap p i)) (connections p)"
  have "set ?used \<subseteq> active" using ok(5) by auto
  then have "card (set ?used) \<le> card active" by (rule card_mono [OF assms(2)])
  moreover have "length ?used = card (set ?used)" using ok(1) by (intro distinct_card [symmetric]) simp
  ultimately have "length ?used \<le> card active" by simp
  moreover have "length (connections p) = length ?used + length (unused p)"
    unfolding unused_def by (rule sum_length_filter_compl [symmetric])
  ultimately show ?thesis using ok(6) by simp
qed

lemma prune_keeps:
  "u + length (filter (\<lambda>i. \<not> in_use (h i)) is) \<le> 1 \<Longrightarrow> prune h False c u is = is"
  by (induction h False c u "is" rule: prune.induct) (auto simp: Let_def)

lemma filter_one: "distinct xs \<Longrightarrow> length (filter (\<lambda>j. j = i) xs) \<le> 1"
  by (induction xs) (auto simp: filter_empty_conv)

definition demo_pool :: pool where
  "demo_pool = snd (get_connection demo_client pool_new)"

lemma demo_pool_reachable: "pool_reachable demo_client (demo_pool, {0})"
proof -
  have "get_connection demo_client pool_new = (0, demo_pool)"
    by (simp add: demo_pool_def get_connection_def pool_new_def create_connection_def Let_def)
  from pool_step.request [OF this, of "{}"] show ?thesis
    by (auto intro: pool_reachable.intros)
qed

lemma demo_pool_connections: "connections demo_pool = [0]" "in_use (heap demo_pool 0)"
  by (simp_all add: demo_pool_def get_connection_def pool_new_def create_connection_def Let_def)

section \<open>Properties\<close>



text \<open>
  The call that opens a stream of server-sent events is marked as the last one although
  the session goes on: it frees the connection, and the next request gets the same one.
\<close>
lemma open_events_share_connection:
  assumes "pool_ok (p, active)" and "i \<in> active" and "i \<in> set (connections p)" and "unused p = []"
  shows "fst (get_connection c (session_callback i (fin (whole m content)) (failure (whole m content) \<noteq> None) p)) = i"
proof -
  note ok = pool_okD [OF assms(1)]
  define h where "h = (heap p)(i := (heap p i)\<lparr>in_use := False\<rparr>)"
  have use: "\<not> in_use (h j) \<longleftrightarrow> j = i" if "j \<in> set (connections p)" for j
    using that assms(4) by (auto simp: h_def unused_def filter_empty_conv)
  have "filter (\<lambda>j. \<not> in_use (h j)) (connections p) = filter (\<lambda>j. j = i) (connections p)"
    by (rule filter_cong) (use use in auto)
  then have "length (filter (\<lambda>j. \<not> in_use (h j)) (connections p)) \<le> 1"
    using filter_one [OF ok(1), of i] by simp
  then have keep: "prune h False i 0 (connections p) = connections p" by (intro prune_keeps) simp
  have p': "session_callback i (fin (whole m content)) (failure (whole m content) \<noteq> None) p =
      p\<lparr>heap := h, connections := connections p\<rparr>"
    by (simp add: session_callback_def whole_def h_def [symmetric] keep)
  have "List.find (\<lambda>j. \<not> in_use (h j)) (connections p) = Some i"
  proof (cases "List.find (\<lambda>j. \<not> in_use (h j)) (connections p)")
    case None
    with use [OF assms(3)] assms(3) show ?thesis by (auto simp: find_None_iff)
  next
    case (Some j)
    then have "\<not> in_use (h j)" "j \<in> set (connections p)" by (auto simp: find_Some_iff)
    with use Some show ?thesis by simp
  qed
  then show ?thesis unfolding p' by (simp add: get_connection_def)
qed

end
