(* ===== verification/Client_Exchange.thy ===== *)
theory Client_Exchange
  imports Client_Pool
begin

text \<open>
  One request of the client of \<open>src/src/http/client_http.hpp\<close> from its connection to the last call
  of its callback: \<open>connect\<close> of the plain socket, \<open>write\<close>, \<open>read\<close> (theory \<open>Client_Read\<close>), and
  \<open>reconnect\<close>, which tries again on a new connection when a kept one turns out to be dead.
  Resolving, connecting and writing are Asio's and parameters. Time limits close the socket,
  which is an operation that fails.
\<close>

section \<open>The network\<close>

text \<open>\<open>is_open i net\<close> is whether the socket of connection \<open>i\<close> is open; the other operations end
  with an error or without. \<open>after_failure\<close> is the network after a read that failed.\<close>

record 'net network =
  is_open :: "nat \<Rightarrow> 'net \<Rightarrow> bool"
  resolve_name :: "bytes \<times> bytes \<Rightarrow> 'net \<Rightarrow> io_error option \<times> 'net"
  connect_socket :: "nat \<Rightarrow> 'net \<Rightarrow> io_error option \<times> 'net"
  write_all :: "nat \<Rightarrow> bytes \<Rightarrow> 'net \<Rightarrow> io_error option \<times> 'net"
  until :: "'net read_until"
  exactly :: "'net read_exactly"
  to_end :: "'net read_all"
  after_failure :: "io_error \<Rightarrow> 'net \<Rightarrow> 'net"

section \<open>Connecting and writing\<close>

definition connect_session :: "'net network \<Rightarrow> pool \<Rightarrow> nat \<Rightarrow> 'net \<Rightarrow> io_error option \<times> 'net" where
  "connect_session N p i net =
     (if \<not> is_open N i net then
        (case resolve_name N (the (host_port p)) net of
           (Some e, net) \<Rightarrow> (Some e, net)
         | (None, net) \<Rightarrow> connect_socket N i net)
      else (None, net))"

text \<open>\<open>connect\<close> is virtual in \<open>ClientBase\<close>: it calls \<open>write\<close>, or the callback with an error, or an
  exception leaves it. A plain client connects the socket only.\<close>

datatype 'net connected = Connected 'net | Connect_fails client_error | Connect_throws

type_synonym 'net connector = "pool \<Rightarrow> nat \<Rightarrow> 'net \<Rightarrow> 'net connected"

definition plain_connect :: "'net network \<Rightarrow> 'net connector" where
  "plain_connect N p i net =
     (case connect_session N p i net of (Some e, _) \<Rightarrow> Connect_fails (C_io e) | (None, net) \<Rightarrow> Connected net)"

datatype 'net written = Written 'net | Write_failed io_error | Write_reconnects io_error 'net

definition write_request :: "'net network \<Rightarrow> bytes \<Rightarrow> pool \<Rightarrow> nat \<Rightarrow> 'net \<Rightarrow> 'net written" where
  "write_request N request p i net =
     (case write_all N i request net of
        (None, net) \<Rightarrow> Written net
      | (Some e, net) \<Rightarrow>
          if attempt_reconnect (heap p i) \<and> e \<noteq> Aborted then Write_reconnects e net else Write_failed e)"

section \<open>A session\<close>

text \<open>
  The calls of the callback, whether an exception left a handler, how often the request was
  handed to the socket, the pool after the calls, and the rest of the stream if the
  connection can be used again. That a header was read is written to the flags of a
  connection, but they are set again before the next request.
\<close>

record 'net session_end =
  calls :: "delivery list"
  escaped :: bool
  writes :: nat
  pool_after :: pool
  net_after :: "'net option"

definition session_calls :: "nat \<Rightarrow> delivery list \<Rightarrow> pool \<Rightarrow> pool" where
  "session_calls i ds p = fold (\<lambda>d. session_callback i (fin d) (failure d \<noteq> None)) ds p"

definition ended :: "nat \<Rightarrow> delivery list \<Rightarrow> bool \<Rightarrow> nat \<Rightarrow> pool \<Rightarrow> 'net option \<Rightarrow> 'net session_end" where
  "ended i ds exc k p net = \<lparr>calls = ds, escaped = exc, writes = k, pool_after = session_calls i ds p, net_after = net\<rparr>"

definition fails :: "nat \<Rightarrow> io_error \<Rightarrow> nat \<Rightarrow> pool \<Rightarrow> 'net session_end" where
  "fails i e k p = ended i [failed response_blank (C_io e)] False k p None"

section \<open>Runs of \<open>read\<close>\<close>

text \<open>Every run makes a call or ends in an exception; only the header's failure connects again.\<close>

fun run_calls :: "bool \<Rightarrow> 'net client_run \<Rightarrow> bool" where
  "run_calls attempt (Delivered ds closes net) \<longleftrightarrow> ds \<noteq> []"
| "run_calls attempt (Failed_with ds) \<longleftrightarrow> ds \<noteq> []"
| "run_calls attempt (Reconnects e) \<longleftrightarrow> attempt"
| "run_calls attempt (Run_throws ds) \<longleftrightarrow> True"

lemma sized_calls: "read_content_sized re k m net content n ds = Some r \<Longrightarrow> run_calls attempt r"
  by (rule read_content_sized.raw_induct [where P = "\<lambda>re k m net content n ds r. run_calls attempt r", rotated], assumption)
    (auto split: sum.splits prod.splits if_splits simp: Let_def)

lemma all_calls: "read_content_all ra k m net content ds = Some r \<Longrightarrow> run_calls attempt r"
  by (rule read_content_all.raw_induct [where P = "\<lambda>ra k m net content ds r. run_calls attempt r", rotated], assumption)
    (auto split: prod.splits if_splits simp: Let_def)

lemma events_calls: "read_server_sent_event ru k m net events ds = Some r \<Longrightarrow> run_calls attempt r"
  by (rule read_server_sent_event.raw_induct [where P = "\<lambda>ru k m net events ds r. run_calls attempt r", rotated], assumption)
    (auto split: sum.splits prod.splits)

lemma parts_of_nonempty: "parts \<noteq> [] \<Longrightarrow> parts_of m parts \<noteq> []"
  by (cases "(m, parts)" rule: parts_of.cases) auto

lemma chunks_nonempty:
  "client_chunks ru re limit k net buf parts body = Some r \<Longrightarrow> (case r of Parts parts buf net \<Rightarrow> parts \<noteq> [] | _ \<Rightarrow> True)"
  by (rule client_chunks.raw_induct [where P = "\<lambda>ru re limit k net buf parts body r. case r of Parts parts buf net \<Rightarrow> parts \<noteq> [] | _ \<Rightarrow> True", rotated], assumption)
    (auto split: sum.splits prod.splits if_splits outcome.splits chunk_read.splits simp: Let_def)

lemma chunked_calls: "read_content_chunked ru re k m net left = Some r \<Longrightarrow> run_calls attempt r"
  unfolding read_content_chunked_def
proof (elim map_option_eq_Some [THEN iffD1, elim_format] exE conjE)
  fix b
  assume b: "client_chunks ru re (max 18 (length left)) k net left [] [] = Some b"
    and r: "(case b of
         Parts parts buf net' \<Rightarrow> Delivered (parts_of m parts) False net'
       | Client_bad_size parts \<Rightarrow> Failed_with (map (part m) parts @ [failed m C_protocol])
       | Client_broken parts e \<Rightarrow> Failed_with (map (part m) parts @ [failed m (C_io e)])
       | Client_throws parts \<Rightarrow> Run_throws (map (part m) parts)) = r"
  from chunks_nonempty [OF b] show ?thesis
    unfolding r [symmetric] by (cases b) (simp_all add: parts_of_nonempty)
qed

lemma client_read_calls:
  assumes "client_read ru re ra k attempt net = Some r"
  shows "run_calls attempt r"
proof (cases "ru net k [] HeaderEndMatch")
  case (Inl e)
  with assms show ?thesis by (auto simp: client_read_def split: if_splits)
next
  case (Inr z)
  obtain n buf net1 where z: "z = (n, buf, net1)" by (cases z) auto
  show ?thesis
  proof (cases "response_parse buf response_blank")
    case None
    with assms show ?thesis by (simp add: client_read_def Inr z) auto
  next
    case (Some w)
    obtain ok m left where w: "w = (ok, m, left)" by (cases w) auto
    from assms show ?thesis
      unfolding client_read_def Inr z sum.case prod.case Let_def Some w option.case
      by (auto split: if_splits option.splits outcome.splits dest: sized_calls all_calls events_calls chunked_calls)
  qed
qed

section \<open>The session with its reconnects\<close>

lemma reconnect_once: "reconnect i p = Some (j, p') \<Longrightarrow> \<not> attempt_reconnect (heap p' j)"
  by (auto simp: reconnect_def create_connection_def Let_def split: if_splits)

lemma write_reconnects: "write_request N request p i net = Write_reconnects e net' \<Longrightarrow> attempt_reconnect (heap p i)"
  by (auto simp: write_request_def split: prod.splits option.splits if_splits)

function run_virtual ::
  "'net connector \<Rightarrow> 'net network \<Rightarrow> nat \<Rightarrow> bytes \<Rightarrow> nat \<Rightarrow> pool \<Rightarrow> 'net \<Rightarrow> nat \<Rightarrow> 'net session_end option"
where
  "run_virtual con N max_size request i p net n =
     (case con p i net of
        Connect_fails e \<Rightarrow> Some (ended i [failed response_blank e] False n p None)
      | Connect_throws \<Rightarrow> Some (ended i [] True n p None)
      | Connected net \<Rightarrow>
     (case write_request N request p i net of
        Write_failed e \<Rightarrow> Some (fails i e (Suc n) p)
      | Write_reconnects e net \<Rightarrow>
          (case reconnect i p of
             None \<Rightarrow> Some (fails i e (Suc n) p)
           | Some (j, p') \<Rightarrow> run_virtual con N max_size request j p' net (Suc n))
      | Written net \<Rightarrow>
     (case client_read (until N) (exactly N) (to_end N) max_size (attempt_reconnect (heap p i)) net of
        None \<Rightarrow> None
      | Some (Reconnects e) \<Rightarrow>
          (case reconnect i p of
             None \<Rightarrow> Some (fails i e (Suc n) p)
           | Some (j, p') \<Rightarrow> run_virtual con N max_size request j p' (after_failure N e net) (Suc n))
      | Some (Delivered ds closes net) \<Rightarrow>
          Some (ended i ds False (Suc n) (if closes then forget i p else p) (if closes then None else Some net))
      | Some (Failed_with ds) \<Rightarrow> Some (ended i ds False (Suc n) p None)
      | Some (Run_throws ds) \<Rightarrow> Some (ended i ds True (Suc n) p None))))"
  by pat_completeness auto
termination
  by (relation "measure (\<lambda>(con, N, k, request, i, p, net, n). if attempt_reconnect (heap p i) then 1 else 0)")
    (auto dest!: reconnect_once write_reconnects client_read_calls)

declare run_virtual.simps [simp del]

definition run_session ::
  "'net network \<Rightarrow> nat \<Rightarrow> bytes \<Rightarrow> nat \<Rightarrow> pool \<Rightarrow> 'net \<Rightarrow> nat \<Rightarrow> 'net session_end option"
where
  "run_session N = run_virtual (plain_connect N) N"

text \<open>A request on a client: the callback is that of an asynchronous request.\<close>

definition send_request ::
  "'net network \<Rightarrow> nat \<Rightarrow> client \<Rightarrow> bytes \<Rightarrow> bytes \<Rightarrow> bytes \<Rightarrow> headers \<Rightarrow> pool \<Rightarrow> 'net \<Rightarrow> 'net session_end option"
where
  "send_request N max_size c meth target content header p net =
     (case get_connection c p of
        (i, p') \<Rightarrow> run_session N max_size (request_bytes c meth target content header) i p' net 0)"

section \<open>Sessions end\<close>

lemma ended_simps [simp]:
  "calls (ended i ds exc k p net) = ds" "escaped (ended i ds exc k p net) = exc" "writes (ended i ds exc k p net) = k"
  by (simp_all add: ended_def)

text \<open>How a session goes on after one attempt.\<close>

lemma run_virtual_cases:
  assumes "\<And>net. client_read (until N) (exactly N) (to_end N) max_size (attempt_reconnect (heap p i)) net \<noteq> None"
  obtains (over) r where "run_virtual con N max_size request i p net n = Some r" "writes r \<le> Suc n" "calls r \<noteq> [] \<or> escaped r"
    | (again) j p' net' where "attempt_reconnect (heap p i)" "\<not> attempt_reconnect (heap p' j)"
      "run_virtual con N max_size request i p net n = run_virtual con N max_size request j p' net' (Suc n)"
proof -
  note eq = run_virtual.simps [of con N max_size request i p net n] and fail = fails_def
  show thesis
  proof (cases "con p i net")
    case (Connect_fails e)
    show thesis by (rule over [of "ended i [failed response_blank e] False n p None"]) (use Connect_fails in \<open>simp_all add: eq\<close>)
  next
    case Connect_throws
    show thesis by (rule over [of "ended i [] True n p None"]) (use Connect_throws in \<open>simp_all add: eq\<close>)
  next
    case c': (Connected net1)
    show thesis
    proof (cases "write_request N request p i net1")
      case (Write_failed e)
      show thesis by (rule over [of "fails i e (Suc n) p"]) (use c' Write_failed in \<open>simp_all add: eq fail\<close>)
    next
      case (Write_reconnects e net2)
      show thesis
      proof (cases "reconnect i p")
        case None
        show thesis by (rule over [of "fails i e (Suc n) p"]) (use c' Write_reconnects None in \<open>simp_all add: eq fail\<close>)
      next
        case (Some z)
        obtain j p' where z: "reconnect i p = Some (j, p')" using Some by (cases z) simp
        show thesis
          by (rule again [OF write_reconnects [OF Write_reconnects] reconnect_once [OF z]])
            (use c' Write_reconnects z in \<open>simp add: eq\<close>)
      qed
    next
      case (Written net2)
      obtain r where r: "client_read (until N) (exactly N) (to_end N) max_size (attempt_reconnect (heap p i)) net2 = Some r"
        using assms by blast
      note ok = client_read_calls [OF r]
      show thesis
      proof (cases r)
        case (Reconnects e)
        show thesis
        proof (cases "reconnect i p")
          case None
          show thesis by (rule over [of "fails i e (Suc n) p"]) (use c' Written r Reconnects None in \<open>simp_all add: eq fail\<close>)
        next
          case (Some z)
          obtain j p' where z: "reconnect i p = Some (j, p')" using Some by (cases z) simp
          show thesis
            by (rule again [OF _ reconnect_once [OF z]]) (use c' Written r Reconnects z ok in \<open>simp_all add: eq\<close>)
        qed
      next
        case (Delivered ds closes net3)
        show thesis by (rule over [of "ended i ds False (Suc n) (if closes then forget i p else p) (if closes then None else Some net3)"])
            (use c' Written r Delivered ok in \<open>simp_all add: eq\<close>)
      next
        case (Failed_with ds)
        show thesis by (rule over [of "ended i ds False (Suc n) p None"]) (use c' Written r Failed_with ok in \<open>simp_all add: eq\<close>)
      next
        case (Run_throws ds)
        show thesis by (rule over [of "ended i ds True (Suc n) p None"]) (use c' Written r Run_throws in \<open>simp_all add: eq\<close>)
      qed
    qed
  qed
qed

lemma run_virtual_ends:
  assumes "\<And>attempt net. client_read (until N) (exactly N) (to_end N) max_size attempt net \<noteq> None"
  shows "\<exists>r. run_virtual con N max_size request i p net n = Some r \<and> writes r \<le> n + 2 \<and> (calls r \<noteq> [] \<or> escaped r)"
proof (rule run_virtual_cases [OF assms, where p = p and i = i and request = request and net = net and n = n])
  fix j p' net'
  assume again: "\<not> attempt_reconnect (heap p' j)"
    "run_virtual con N max_size request i p net n = run_virtual con N max_size request j p' net' (Suc n)"
  show ?thesis
    by (rule run_virtual_cases [OF assms, where p = p' and i = j and request = request and net = net' and n = "Suc n"])
      (use again in auto)
qed fastforce

section \<open>A response in one call\<close>

text \<open>A response that fits the buffer is passed to the callback in one call.\<close>

lemma client_reads_at_once:
  assumes "transport pending read_until read_exactly" and "response_head_ok version status header"
    and "pending net = response_text version status header @ content"
    and "header_find ''Content-Length'' header = Some v" and "stoul 10 v = Ok (length content)"
    and "length (response_text version status header) \<le> max_size" and "length content \<le> max_size"
  obtains net' where "client_read read_until read_exactly read_all max_size attempt net =
      Some (Delivered [whole (parsed_response version status header) content] False net')" and "pending net' = []"
proof -
  obtain y net1 where 1: "read_until net max_size [] HeaderEndMatch =
      Inr (length (response_text version status header), response_text version status header @ y, net1)"
    "y @ pending net1 = content" "length y \<le> max_size"
    by (rule client_read_head [OF assms(1-3,6)])
  show thesis
  proof (cases "length y < length content")
    case True
    define n where "n = length content - length y"
    have n: "length (pending net1) = n" "min n (max_size - length y) = n"
      using arg_cong [OF 1(2), of length] assms(7) by (simp_all add: n_def)
    obtain net2 where 2: "read_exactly net1 n = Inr (pending net1, net2)" "pending net2 = []"
      using transport_exactly [OF assms(1), of net1 "pending net1" "[]" n] n(1) by auto
    have "client_read read_until read_exactly read_all max_size attempt net =
        Some (Delivered [whole (parsed_response version status header) content] False net2)"
      using True 1(2) 2(1) n
      unfolding client_read_unfold [where ru = read_until and net = net, OF 1(1) assms(2)] assms(4)
      by (simp add: Let_def assms(5) n_def [symmetric] read_content_sized.simps [of read_exactly max_size _ net1 y])
    with 2(2) show thesis by (rule that [rotated])
  next
    case False
    then have y: "y = content" "pending net1 = []" using 1(2) arg_cong [OF 1(2), of length] by auto
    have "client_read read_until read_exactly read_all max_size attempt net =
        Some (Delivered [whole (parsed_response version status header) content] False net1)"
      using y unfolding client_read_unfold [where ru = read_until and net = net, OF 1(1) assms(2)] assms(4)
      by (simp add: Let_def assms(5))
    with y(2) show thesis by (rule that [rotated])
  qed
qed

text \<open>What a handler of the server writes is such a response.\<close>

definition written_head :: "nat \<Rightarrow> bytes \<Rightarrow> headers \<Rightarrow> response_message" where
  "written_head code content header = parsed_response ''1.1'' (status_code_text code)
     (header @ [(''Content-Length'', to_string (length content))])"

definition plain_fields :: "headers \<Rightarrow> bool" where
  "plain_fields header \<longleftrightarrow> (\<forall>field \<in> set header. field_ok field \<and> CR \<notin> set (fst field) \<and> CR \<notin> set (snd field)) \<and>
     \<not> has_length header \<and> \<not> has_chunked header"

lemma client_reads_written:
  assumes "transport pending read_until read_exactly" and "plain_fields header"
    and "pending net = streambuf (write_content code content header response_new)"
    and "length (streambuf (write_content code content header response_new)) \<le> max_size" and "length content < 2 ^ 63"
  obtains net' where "client_read read_until read_exactly read_all max_size attempt net =
      Some (Delivered [whole (written_head code content header) content] False net')" and "pending net' = []"
proof -
  let ?h = "framing header (length content) False"
  have f: "\<not> has_length header" "\<not> has_chunked header" using assms(2) by (simp_all add: plain_fields_def)
  note found = framing_found [OF f]
  have w: "streambuf (write_content code content header response_new) =
      response_text ''1.1'' (status_code_text code) ?h @ content"
    by (simp add: write_content_eq response_new_def)
  have ok: "response_head_ok ''1.1'' (status_code_text code) ?h"
    using assms(2) status_code_text_plain to_string_field_ok [of "''Content-Length''" "length content"] to_string_plain
    unfolding found(1) by (auto simp: response_head_ok_def plain_def plain_fields_def)
  have num: "stoul 10 (to_string (length content)) = Ok (length content)"
    by (rule stoul_to_string) (use assms(5) in simp)
  have fits: "length (response_text ''1.1'' (status_code_text code) ?h) \<le> max_size" "length content \<le> max_size"
    using assms(4) unfolding w by simp_all
  show thesis
    by (rule client_reads_at_once [OF assms(1) ok assms(3) [unfolded w] found(2) num fits])
      (rule that, simp_all add: found(1) written_head_def)
qed

section \<open>An attempt that is answered\<close>

lemma plain_connect_ok: "connect_session N p i net = (None, net0) \<Longrightarrow> plain_connect N p i net = Connected net0"
  by (simp add: plain_connect_def)

lemma run_answered:
  assumes "transport pending (until N) (exactly N)" and "con p i net = Connected net0"
    and "write_all N i request net0 = (None, net1)"
    and "plain_fields header" and "pending net1 = streambuf (write_content code content header response_new)"
    and "length (streambuf (write_content code content header response_new)) \<le> max_size" and "length content < 2 ^ 63"
  obtains net2 where "run_virtual con N max_size request i p net n =
      Some (ended i [whole (written_head code content header) content] False (Suc n) p (Some net2))" and "pending net2 = []"
proof -
  obtain net2 where r: "client_read (until N) (exactly N) (to_end N) max_size (attempt_reconnect (heap p i)) net1 =
      Some (Delivered [whole (written_head code content header) content] False net2)" "pending net2 = []"
    by (rule client_reads_written [OF assms(1,4-7)])
  have "run_virtual con N max_size request i p net n =
      Some (ended i [whole (written_head code content header) content] False (Suc n) p (Some net2))"
    by (simp add: run_virtual.simps [of con N max_size request i p net n] assms(2,3) write_request_def r(1))
  with r(2) show thesis by (rule that [rotated])
qed

text \<open>A connection that is refused: nothing is written.\<close>

lemma run_refused:
  assumes "\<And>net'. con p i net \<noteq> Connected net'"
  obtains r where "run_virtual con N max_size request i p net n = Some r" and "writes r = n"
    and "\<forall>d \<in> set (calls r). failure d \<noteq> None" and "calls r \<noteq> [] \<or> escaped r"
proof (cases "con p i net")
  case (Connected net')
  with assms [of net'] show thesis by simp
next
  case (Connect_fails e)
  then show thesis
    by (intro that [of "ended i [failed response_blank e] False n p None"]) (simp_all add: run_virtual.simps [of con] failed_def)
next
  case Connect_throws
  then show thesis by (intro that [of "ended i [] True n p None"]) (simp_all add: run_virtual.simps [of con])
qed

section \<open>The interface of \<open>connect\<close>\<close>

text \<open>What \<open>ClientBase\<close> relies on in the two classes that define \<open>connect\<close>: a connection whose
  socket is open is written to at once. So a kept connection costs no further steps.\<close>

locale base_client =
  fixes con :: "'net connector"
    and N :: "'net network"
  assumes kept: "is_open N i net \<Longrightarrow> con p i net = Connected net"
begin

lemma kept_answers:
  assumes "is_open N i net" and "transport pending (until N) (exactly N)" and "write_all N i request net = (None, net1)"
    and "plain_fields header" and "pending net1 = streambuf (write_content code content header response_new)"
    and "length (streambuf (write_content code content header response_new)) \<le> max_size" and "length content < 2 ^ 63"
  obtains net2 where "run_virtual con N max_size request i p net n =
      Some (ended i [whole (written_head code content header) content] False (Suc n) p (Some net2))" and "pending net2 = []"
  by (rule run_answered [where con = con, OF assms(2) kept [OF assms(1)] assms(3-7)]) (rule that)

end

interpretation plain: base_client "plain_connect N" N for N
  by standard (simp add: plain_connect_def connect_session_def)

section \<open>A network of streams\<close>

text \<open>
  A network to show that the hypotheses can hold: one stream of segments after the other,
  the first one that of the open connection. Connecting takes the next one.
\<close>

definition first_stream :: "bytes list list \<Rightarrow> bytes list" where
  "first_stream net = (case net of [] \<Rightarrow> [] | s # _ \<Rightarrow> s)"

definition streams_until :: "bytes list list read_until" where
  "streams_until net limit buf scan =
     map_sum id (\<lambda>(n, buf, s). (n, buf, s # tl net)) (segments_until (first_stream net) limit buf scan)"

definition streams_exactly :: "bytes list list read_exactly" where
  "streams_exactly net n = map_sum id (\<lambda>(x, s). (x, s # tl net)) (segments_exactly (first_stream net) n)"

definition streams_to_end :: "bytes list list read_all" where
  "streams_to_end net room = (case segments_all (first_stream net) room of (x, e, s) \<Rightarrow> (x, e, s # tl net))"

definition streams :: "nat set \<Rightarrow> bytes list list network" where
  "streams opened = \<lparr>is_open = (\<lambda>i net. i \<in> opened), resolve_name = (\<lambda>_ net. (None, net)),
     connect_socket = (\<lambda>i net. (None, tl net)), write_all = (\<lambda>i request net. (None, net)),
     until = streams_until, exactly = streams_exactly, to_end = streams_to_end, after_failure = (\<lambda>e net. net)\<rparr>"

lemma first_stream_Cons [simp]: "first_stream (s # net) = s"
  by (simp add: first_stream_def)

lemma transport_streams: "transport (\<lambda>net. concat (first_stream net)) streams_until streams_exactly"
proof -
  have "case streams_until net limit buf scan of
      Inl _ \<Rightarrow> (\<forall>n. scan (buf @ concat (first_stream net)) = Some n \<longrightarrow> limit < n)
    | Inr (n, buf', net') \<Rightarrow> scan buf' = Some n \<and> length buf' \<le> limit \<and>
        buf' @ concat (first_stream net') = buf @ concat (first_stream net)"
    if "scans scan" "length buf \<le> limit" for net limit buf scan
    using segments_until_law [OF that, of "first_stream net"]
    by (cases "segments_until (first_stream net) limit buf scan") (auto simp: streams_until_def)
  then show ?thesis
    unfolding transport_def by (auto simp: streams_exactly_def segments_exactly_def)
qed

lemma demo_response_short: "length (streambuf (write_content 200 ''hello'' [] response_new)) \<le> 1000"
proof -
  have "length (to_string 5) = 1" by (simp add: to_string.simps)
  moreover have "status_code_text 200 = ''200 OK''"
    by (simp add: status_code_text_def status_code_strings_def status_code_names_def enum_eval)
  ultimately show ?thesis
    unfolding write_content_eq framing_def
    by (simp add: response_new_def framing_def response_text_def header_line_def eval_nat_numeral
        has_length_def has_chunked_def)
qed

section \<open>Properties\<close>


definition closing_network :: "bytes list list network" where
  "closing_network = (streams {})\<lparr>until := \<lambda>net limit buf scan. Inl Eof\<rparr>"


text \<open>
  A request on a connection that the server has closed meanwhile is sent a second time on a
  new connection, and its response is the one the callback gets, in a single call. The
  request may have been carried out twice, whatever its method.
\<close>
lemma request_on_dead_connection_repeated:
  assumes "transport pending (until N) (exactly N)" and "get_connection c p = (i, p')"
    and "connect_session N p' i net = (None, net0)"
    and "write_all N i (request_bytes c meth target content' header') net0 = (None, net1)"
    and "until N net1 max_size [] HeaderEndMatch = Inl e" and "e \<noteq> Aborted"
    and "reconnect i p' = Some (j, p'')" and "connect_session N p'' j (after_failure N e net1) = (None, net2)"
    and "write_all N j (request_bytes c meth target content' header') net2 = (None, net3)"
    and "plain_fields header" and "pending net3 = streambuf (write_content code content header response_new)"
    and "length (streambuf (write_content code content header response_new)) \<le> max_size" and "length content < 2 ^ 63"
  shows "\<exists>r. send_request N max_size c meth target content' header' p net = Some r \<and> writes r = 2 \<and> \<not> escaped r \<and>
    calls r = [whole (written_head code content header) content]"
proof -
  let ?req = "request_bytes c meth target content' header'"
  have attempt: "attempt_reconnect (heap p' i)"
    using assms(2) by (cases rule: get_connection_cases) simp_all
  have 1: "client_read (until N) (exactly N) (to_end N) max_size True net1 = Some (Reconnects e)"
    using assms(5,6) by (simp add: client_read_def)
  obtain net4 where "run_session N max_size ?req j p'' (after_failure N e net1) 1 =
      Some (ended j [whole (written_head code content header) content] False (Suc 1) p'' (Some net4))"
    unfolding run_session_def by (rule run_answered [where con = "plain_connect N", OF assms(1) plain_connect_ok [OF assms(8)] assms(9-13)])
  then have "run_session N max_size ?req i p' net 0 =
      Some (ended j [whole (written_head code content header) content] False (Suc 1) p'' (Some net4))"
    using attempt plain_connect_ok [OF assms(3)] assms(4,7)
    by (simp add: run_session_def run_virtual.simps [of _ N max_size ?req i] write_request_def 1)
  then show ?thesis by (simp add: send_request_def assms(2))
qed

end
