(* ===== verification/Round_Trip.thy ===== *)
theory Round_Trip
  imports Gateway_Service Client_Exchange
begin

text \<open>
  A client and the gateway together: what the client of \<open>src/src/http/client_http.hpp\<close> writes is
  served by the gateway of \<open>src/src/http-server.cpp\<close>, and what the gateway writes is read by the
  client, over two streams that cut the bytes as they like.
\<close>

section \<open>A request of the client is served\<close>

lemma client_request_served:
  assumes "transport pending read_until read_exactly"
    and "head_ok meth where_to query ''1.1'' (framed c content header)" and "corrected_path c target = target_text where_to query"
    and "pending net = request_bytes c meth target content header"
    and "header_find ''Content-Length'' header = None" and "header_find ''Transfer-Encoding'' header \<noteq> Some ''chunked''"
    and "length (request_text meth (target_text where_to query) ''1.1'' (framed c content header)) \<le> max_size"
    and "length content \<le> max_size" and "length content < 2 ^ 64"
  obtains net' where "serve_request env fs start_time read_until read_exactly max_size net st =
    respond env fs start_time (parsed_request meth where_to query ''1.1'' (framed c content header)) content net' st"
    and "pending net' = []"
proof -
  have st: "pending net = request_bytes c meth target content header @ []" using assms(4) by simp
  from client_request_read [OF assms(1-3) st assms(5-9)] that show ?thesis
    by (auto simp: serve_request_def)
qed

section \<open>A reply of the gateway is read\<close>

text \<open>The callback of a client that reads the reply gets it in one call.\<close>

definition client_gets ::
  "('net \<Rightarrow> bytes) \<Rightarrow> 'net read_until \<Rightarrow> 'net read_exactly \<Rightarrow> 'net read_all \<Rightarrow> nat \<Rightarrow> bytes \<Rightarrow> bytes \<Rightarrow> bytes \<Rightarrow> bool"
where
  "client_gets pending read_until read_exactly read_all max_size reply status content \<longleftrightarrow>
     (\<forall>net. pending net = reply \<longrightarrow>
       (\<exists>net'. client_read read_until read_exactly read_all max_size True net =
          Some (Delivered [whole (parsed_response ''1.1'' status [(''Content-Length'', to_string (length content))]) content]
            False net')))"

definition framed_reply :: "bytes \<Rightarrow> bytes \<Rightarrow> bytes" where
  "framed_reply status content = response_text ''1.1'' status [(''Content-Length'', to_string (length content))] @ content"

lemma framed_reply_read:
  assumes "transport pending read_until read_exactly" and "plain status"
    and "length (framed_reply status content) \<le> max_size" and "length content < 2 ^ 63"
  shows "client_gets pending read_until read_exactly read_all max_size (framed_reply status content) status content"
  unfolding client_gets_def
proof (intro allI impI)
  fix net
  assume st: "pending net = framed_reply status content"
  have h: "response_head_ok ''1.1'' status [(''Content-Length'', to_string (length content))]"
    using assms(2) to_string_field_ok [of "''Content-Length''" "length content"] to_string_plain
    by (simp add: response_head_ok_def plain_def)
  have found: "header_find ''Content-Length'' [(''Content-Length'', to_string (length content))] = Some (to_string (length content))"
    by (simp add: case_insensitive_equal_def)
  have num: "stoul 10 (to_string (length content)) = Ok (length content)"
    by (rule stoul_to_string) (use assms(4) in simp)
  have fits: "length (response_text ''1.1'' status [(''Content-Length'', to_string (length content))]) \<le> max_size"
    "length content \<le> max_size"
    using assms(3) by (simp_all add: framed_reply_def)
  obtain net' where "client_read read_until read_exactly read_all max_size True net =
      Some (Delivered [whole (parsed_response ''1.1'' status [(''Content-Length'', to_string (length content))]) content] False net')"
    by (rule client_reads_at_once [OF assms(1) h st [unfolded framed_reply_def] found num fits])
  then show "\<exists>net'. client_read read_until read_exactly read_all max_size True net =
      Some (Delivered [whole (parsed_response ''1.1'' status [(''Content-Length'', to_string (length content))]) content] False net')"
    by blast
qed

lemma json_reply: "send_json_response env root response_new = map_option
    (\<lambda>text. response_new\<lparr>streambuf := framed_reply ''200 OK'' text\<rparr>) (write_json env root)"
  by (cases "write_json env root")
    (simp_all add: send_json_response_def framed_reply_def response_text_def header_line_def put_def response_new_def)

lemma not_found_reply: "streambuf not_found = framed_reply ''404 Not Found'' bad_observable_handle"
proof -
  have "status_code_text (StatusCode_of client_error_not_found) = ''404 Not Found''"
    by (simp add: status_code_text_def status_code_strings_def status_code_names_def enum_eval StatusCode_of_def)
  then show ?thesis
    by (simp add: not_found_def write_content_eq framed_reply_def framing_def response_new_def has_length_def has_chunked_def)
qed

section \<open>A removal\<close>

lemma removal_replied:
  assumes "gateway_ok st" and "h < 2 ^ 31" and "connection_choice header = None"
    and "write_json env (result_success env) = Some success"
  obtains (absent) "observed st h = None"
      "respond env fs start_time (parsed_request ''POST'' (''/remove-observable/'' @ to_string h) None ''1.1'' header) content net' st =
        Some (Answered [framed_reply ''404 Not Found'' bad_observable_handle] Read_again st net')"
    | (removed) st' where "observed st h \<noteq> None" "observed st' = (observed st)(h := None)" "timer st' = timer st"
      "respond env fs start_time (parsed_request ''POST'' (''/remove-observable/'' @ to_string h) None ''1.1'' header) content net' st =
        Some (Answered [framed_reply ''200 OK'' success] Read_again st' net')"
proof -
  let ?d = "to_string h"
  define m where "m = parsed_request ''POST'' (''/remove-observable/'' @ ?d) None ''1.1'' header"
  have d: "word digit_chars ?d" "?d \<noteq> []" "\<forall>x \<in> set ?d. is_digit x" "group [(1, ?d)] 1 = ?d"
    using to_string_digits [of h] by (simp_all add: word_digits group_def)
  have r: "respond env fs start_time m content net' st = Some (case remove_observable env [(1, ?d)] st of
          Replied response st' \<Rightarrow> Answered [streambuf response] (after_response False response m) st' net'
        | Thrown response st' \<Rightarrow> Answered [streambuf response] (after_response False response m) st' net'
        | Broken \<Rightarrow> Out_of_bounds)"
    unfolding respond_def m_def service_remove [OF d(1)] service.case handle_request_def request.case by (rule option.map(2))
  have again: "after_response False r m = Read_again" if "\<not> close_connection_after_response r" for r
    unfolding m_def by (rule after_default [OF assms(3) that])
  have o: "if observed st h = None then remove_observable env [(1, ?d)] st = Replied not_found st
      else \<exists>st'. remove_observable env [(1, ?d)] st = try_answer env (result_success env) st' \<and>
        observed st' = (observed st)(h := None) \<and> timer st' = timer st"
    using remove_observable_outcome [OF assms(1) d(2-4), of env] assms(2) by (simp add: Let_def digits_val_to_string)
  show thesis
  proof (cases "observed st h")
    case None
    with o have "remove_observable env [(1, ?d)] st = Replied not_found st" by simp
    then have "respond env fs start_time m content net' st =
        Some (Answered [framed_reply ''404 Not Found'' bad_observable_handle] Read_again st net')"
      by (simp only: r handled.case again [OF not_found_close] not_found_reply)
    with None absent show thesis unfolding m_def by blast
  next
    case (Some obs)
    with o obtain st' where st': "remove_observable env [(1, ?d)] st = try_answer env (result_success env) st'"
      "observed st' = (observed st)(h := None)" "timer st' = timer st" by auto
    let ?r = "response_new\<lparr>streambuf := framed_reply ''200 OK'' success\<rparr>"
    have t: "try_answer env (result_success env) st' = Replied ?r st'"
      by (simp add: try_answer_def json_reply assms(4))
    have "\<not> close_connection_after_response ?r" by (simp add: response_new_def)
    from again [OF this] have "respond env fs start_time m content net' st =
        Some (Answered [streambuf ?r] Read_again st' net')"
      by (simp only: r st'(1) t handled.case)
    then have "respond env fs start_time m content net' st =
        Some (Answered [framed_reply ''200 OK'' success] Read_again st' net')" by simp
    with Some st' removed show thesis unfolding m_def by blast
  qed
qed

section \<open>What the gateway answers\<close>

text \<open>The three kinds of replies the handlers write.\<close>

definition is_reply :: "bytes \<Rightarrow> bool" where
  "is_reply buf \<longleftrightarrow> (\<exists>status content. status \<in> {''200 OK'', ''400 Bad Request'', ''404 Not Found''} \<and>
     buf = framed_reply status content)"

lemma bad_request_reply: "streambuf (bad_request message) = framed_reply ''400 Bad Request'' message"
proof -
  have "status_code_text (StatusCode_of client_error_bad_request) = ''400 Bad Request''"
    by (simp add: status_code_text_def status_code_strings_def status_code_names_def enum_eval StatusCode_of_def)
  then show ?thesis
    by (simp add: bad_request_def write_content_eq framed_reply_def framing_def response_new_def has_length_def has_chunked_def)
qed

lemma is_reply_simps [simp]: "is_reply (streambuf (bad_request message))" "is_reply (streambuf not_found)"
  "is_reply (framed_reply ''200 OK'' content)"
  by (auto simp: is_reply_def bad_request_reply not_found_reply)

text \<open>What a handler has written when it ends: a reply, or nothing.\<close>

definition writes_reply :: "('w, 'd) handled \<Rightarrow> bool" where
  "writes_reply r \<longleftrightarrow> (case r of
      Replied response st \<Rightarrow> is_reply (streambuf response) | Thrown response st \<Rightarrow> streambuf response = []
    | Broken \<Rightarrow> True)"

lemma writes_reply_simps [simp]: "writes_reply (Replied response st) \<longleftrightarrow> is_reply (streambuf response)"
  "writes_reply (Thrown response st) \<longleftrightarrow> streambuf response = []" "writes_reply Broken"
  by (simp_all add: writes_reply_def)

lemma answers_write_reply [simp]: "writes_reply (answer env root st)" "writes_reply (try_answer env root st)"
proof -
  have new: "streambuf response_new = []" by (simp add: response_new_def)
  show "writes_reply (answer env root st)" "writes_reply (try_answer env root st)"
    by (cases "write_json env root", simp_all add: answer_def try_answer_def json_reply new)+
qed

lemma with_handle_writes_reply:
  assumes "\<And>h. writes_reply (body h)"
  shows "writes_reply (with_handle path_match st body)"
  using assms by (simp add: with_handle_def response_new_def split: outcome.splits)

lemma add_writes_reply: "pred_option writes_reply (add_new_observable env content st)"
proof (cases "dispatch_add env content")
  case (Inl message)
  then show ?thesis by (simp add: add_new_observable_def)
next
  case (Inr members)
  obtain now w where clock: "clock env (world st) = (now, w)" by (cases "clock env (world st)")
  have new: "streambuf response_new = []" by (simp add: response_new_def)
  show ?thesis
    by (simp add: add_new_observable_def Inr clock)
      (auto simp: Let_def new option.pred_set split: option.splits outcome.splits prod.splits)
qed

lemma handlers_write_reply:
  "writes_reply (update_observable env path_match content st)"
  "writes_reply (remove_observable env path_match st)"
  "writes_reply (get_iotdata env path_match st)"
  "writes_reply (get_iotdata_all env st)" "writes_reply (get_uptime env start_time st)"
  by (auto simp: update_observable_def remove_observable_def get_iotdata_def get_iotdata_all_def get_uptime_def Let_def
      intro!: with_handle_writes_reply split: sum.splits outcome.splits prod.splits)

text \<open>Only \<open>observe-once\<close> may end without an exception and without a reply.\<close>

lemma once_writes_reply: "writes_reply (observe_once env content st) \<or> observe_once env content st = Replied response_new st"
  by (auto simp: observe_once_def Let_def response_new_def split: option.splits prod.splits)

section \<open>Properties\<close>

lemma demo_framed: "framed demo_client [] [] = [(''Host'', ''h:'' @ to_string 8080)]"
  by (simp add: framed_def demo_client_def host_text_def)

lemma demo_lengths: "length (to_string 7) = 1" "length (to_string 8080) = 4" "length (to_string 13) = 2"
  "length (to_string 31) = 2" "length bad_observable_handle = 31"
  by (simp_all add: to_string.simps bad_observable_handle_def)

lemma demo_removal:
  "head_ok ''POST'' (''/remove-observable/'' @ to_string 7) None ''1.1'' (framed demo_client [] [])"
  "length (request_text ''POST'' (''/remove-observable/'' @ to_string 7) ''1.1'' (framed demo_client [] [])) \<le> 100"
  "connection_choice (framed demo_client [] []) = None" "proxy_server demo_client = []"
proof -
  have "CHR '' '' \<notin> set (to_string 7)" "CHR ''?'' \<notin> set (to_string 7)"
    using to_string_digits [of 7] by (auto simp: is_digit_def)
  then show "head_ok ''POST'' (''/remove-observable/'' @ to_string 7) None ''1.1'' (framed demo_client [] [])"
    using to_string_plain [of 7] to_string_plain [of 8080]
    by (auto simp: demo_framed head_ok_def plain_def target_ok_def target_text_def field_ok_def)
  show "length (request_text ''POST'' (''/remove-observable/'' @ to_string 7) ''1.1'' (framed demo_client [] [])) \<le> 100"
    by (simp add: demo_framed request_text_def header_line_def demo_lengths)
  show "connection_choice (framed demo_client [] []) = None" by (simp add: demo_framed case_insensitive_equal_def)
  show "proxy_server demo_client = []" by (simp add: demo_client_def)
qed

lemma demo_none: "observed (gateway_start 0 :: (int, nat) gateway) 7 = None"
  by (simp add: observed_def gateway_start_def observation_module_def sessions_new_def session_def)

text \<open>
  C8: A client that asks to remove an observable with a handle below \<open>2\<^sup>3\<^sup>1\<close> gets exactly one
  response, in one call of its callback, however both directions are cut: the success as
  JSON, and the gateway has dropped exactly that observable; or 404 with the message that
  there is none, and the gateway is unchanged. The connection is read again.
\<close>
theorem client_removes_observable:
  assumes "gateway_ok st" and "transport pending read_until read_exactly"
    and "transport pending' read_until' read_exactly'"
    and "head_ok ''POST'' (''/remove-observable/'' @ to_string h) None ''1.1'' (framed c [] header)"
    and "connection_choice (framed c [] header) = None" and "proxy_server c = []"
    and "header_find ''Content-Length'' header = None" and "header_find ''Transfer-Encoding'' header \<noteq> Some ''chunked''"
    and "pending net = request_bytes c ''POST'' (''/remove-observable/'' @ to_string h) [] header"
    and "length (request_text ''POST'' (''/remove-observable/'' @ to_string h) ''1.1'' (framed c [] header)) \<le> max_size"
    and "h < 2 ^ 31" and "write_json env (result_success env) = Some success" and "length success < 2 ^ 63"
    and "length (framed_reply ''200 OK'' success) \<le> max_size'"
    and "length (framed_reply ''404 Not Found'' bad_observable_handle) \<le> max_size'"
  shows "\<exists>reply st' net'. serve_request env fs start_time read_until read_exactly max_size net st =
      Some (Answered [reply] Read_again st' net') \<and>
    (if observed st h = None
     then st' = st \<and>
       client_gets pending' read_until' read_exactly' read_all' max_size' reply ''404 Not Found'' bad_observable_handle
     else observed st' = (observed st)(h := None) \<and> timer st' = timer st \<and>
       client_gets pending' read_until' read_exactly' read_all' max_size' reply ''200 OK'' success)"
proof -
  have path: "corrected_path c (''/remove-observable/'' @ to_string h) = target_text (''/remove-observable/'' @ to_string h) None"
    using assms(6) by (simp add: corrected_path_def target_text_def)
  have fits: "length (request_text ''POST'' (target_text (''/remove-observable/'' @ to_string h) None) ''1.1'' (framed c [] header)) \<le> max_size"
    using assms(10) by (simp add: target_text_def)
  obtain net' where s: "serve_request env fs start_time read_until read_exactly max_size net st =
      respond env fs start_time (parsed_request ''POST'' (''/remove-observable/'' @ to_string h) None ''1.1'' (framed c [] header)) [] net' st"
    by (rule client_request_served [OF assms(2,4) path assms(9,7,8) fits]) simp_all
  show ?thesis
  proof (rule removal_replied [OF assms(1,11,5,12)])
    assume absent: "observed st h = None" and r: "respond env fs start_time
        (parsed_request ''POST'' (''/remove-observable/'' @ to_string h) None ''1.1'' (framed c [] header)) [] net' st =
      Some (Answered [framed_reply ''404 Not Found'' bad_observable_handle] Read_again st net')"
    have "client_gets pending' read_until' read_exactly' read_all' max_size'
        (framed_reply ''404 Not Found'' bad_observable_handle) ''404 Not Found'' bad_observable_handle"
      by (rule framed_reply_read [OF assms(3) _ assms(15)]) (simp_all add: plain_def bad_observable_handle_def)
    then show ?thesis unfolding s r using absent by auto
  next
    fix st'
    assume removed: "observed st h \<noteq> None" "observed st' = (observed st)(h := None)" "timer st' = timer st"
      and r: "respond env fs start_time
        (parsed_request ''POST'' (''/remove-observable/'' @ to_string h) None ''1.1'' (framed c [] header)) [] net' st =
      Some (Answered [framed_reply ''200 OK'' success] Read_again st' net')"
    have "client_gets pending' read_until' read_exactly' read_all' max_size' (framed_reply ''200 OK'' success) ''200 OK'' success"
      by (rule framed_reply_read [OF assms(3) _ assms(14,13)]) (simp add: plain_def)
    then show ?thesis unfolding s r using removed by auto
  qed
qed

theorem client_removes_observable_witness:
  "\<exists>reply net'. serve_request (demo_env 3) demo_files 0 segments_until segments_exactly 100
      (let r = request_bytes demo_client ''POST'' (''/remove-observable/'' @ to_string 7) [] [] in [take 20 r, drop 20 r])
      (gateway_start 0 :: (int, nat) gateway) = Some (Answered [reply] Read_again (gateway_start 0) net') \<and>
    client_gets concat segments_until segments_exactly segments_all 200 reply ''404 Not Found'' bad_observable_handle"
proof -
  have success: "write_json (demo_env 3) (result_success (demo_env 3)) = Some (concat (result_success (demo_env 3)))"
    "length (concat (result_success (demo_env 3))) = 13"
    by (simp_all add: demo_env_def result_success_def)
  have "\<exists>reply st' net'. serve_request (demo_env 3) demo_files 0 segments_until segments_exactly 100
      (let r = request_bytes demo_client ''POST'' (''/remove-observable/'' @ to_string 7) [] [] in [take 20 r, drop 20 r])
      (gateway_start 0 :: (int, nat) gateway) = Some (Answered [reply] Read_again st' net') \<and>
    (if observed (gateway_start 0 :: (int, nat) gateway) 7 = None
     then st' = gateway_start 0 \<and>
       client_gets concat segments_until segments_exactly segments_all 200 reply ''404 Not Found'' bad_observable_handle
     else observed st' = (observed (gateway_start 0 :: (int, nat) gateway))(7 := None) \<and> timer st' = timer (gateway_start 0 :: (int, nat) gateway) \<and>
       client_gets concat segments_until segments_exactly segments_all 200 reply ''200 OK'' (concat (result_success (demo_env 3))))"
    by (rule client_removes_observable [OF gateway_ok_start transport_segments transport_segments demo_removal(1), where success = "concat (result_success (demo_env 3))"])
      (use demo_removal(2) in \<open>simp_all add: success demo_removal(3,4) demo_lengths Let_def header_line_def framed_reply_def response_text_def\<close>)
  with demo_none show ?thesis by auto
qed



end
