(* ===== verification/Streams.thy ===== *)
theory Streams
  imports Client_Exchange
begin

text \<open>
  Content from a \<open>std::istream\<close>: \<open>Response::write\<close> of \<open>src/src/http/server_http.hpp\<close> and the
  overload of \<open>ClientBase::request\<close> of \<open>src/src/http/client_http.hpp\<close> that take a stream find
  its length by seeking to its end. For a stream that can seek they write what the
  overloads for strings write. The content of a request itself is a stream that cannot.
\<close>

section \<open>Streams\<close>

text \<open>What \<open>tellg\<close> says after a seek to the end, \<^term>\<open>- 1\<close> if the stream cannot seek, and what its
  buffer gives after the seek back to the beginning.\<close>

record input_stream =
  tell_end :: int
  delivers :: bytes

definition seekable :: "input_stream \<Rightarrow> bool" where
  "seekable s \<longleftrightarrow> tell_end s = int (length (delivers s))"

text \<open>A string stream, and the content of a request: the buffer of Asio has no positions.\<close>

definition string_stream :: "bytes \<Rightarrow> input_stream" where
  "string_stream s = \<lparr>tell_end = int (length s), delivers = s\<rparr>"

definition request_content :: "bytes \<Rightarrow> input_stream" where
  "request_content s = \<lparr>tell_end = - 1, delivers = s\<rparr>"

definition int_text :: "int \<Rightarrow> bytes" where
  "int_text i = (if i < 0 then ''-'' @ to_string (nat (- i)) else to_string (nat i))"

section \<open>Writing a response\<close>

text \<open>\<open>write_header\<close> is a template over the type of the size; here the size is the number a
  stream has told.\<close>

definition write_header_told :: "headers \<Rightarrow> int \<Rightarrow> response \<Rightarrow> response" where
  "write_header_told header sz r =
     (let (content_length_written, chunked_transfer_encoding, r') = write_fields header False False r
      in if \<not> content_length_written \<and> \<not> chunked_transfer_encoding \<and>
            \<not> close_connection_after_response r'
         then put (''Content-Length: '' @ int_text sz @ crlf @ crlf) r'
         else put crlf r')"

text \<open>The flag: the response's stream has failed, because nothing could be inserted, and what is
  written to it afterwards is lost.\<close>

definition write_stream :: "StatusCode \<Rightarrow> input_stream \<Rightarrow> headers \<Rightarrow> response \<Rightarrow> response \<times> bool" where
  "write_stream code content header r =
     (let r' = write_header_told header (tell_end content) (write_status_line code r)
      in if tell_end content \<noteq> 0 then (put (delivers content) r', delivers content = []) else (r', False))"

definition write_stream_success :: "input_stream \<Rightarrow> headers \<Rightarrow> response \<Rightarrow> response \<times> bool" where
  "write_stream_success content header r = write_stream (StatusCode_of success_ok) content header r"

definition write_raw :: "bytes \<Rightarrow> nat \<Rightarrow> response \<Rightarrow> response" where
  "write_raw ptr n r = put (take n ptr) r"

definition response_size :: "response \<Rightarrow> nat" where
  "response_size r = length (streambuf r)"

section \<open>Sending a request\<close>

definition stream_length_line :: "headers \<Rightarrow> int \<Rightarrow> bytes" where
  "stream_length_line header content_length =
     (if 0 < content_length then
        (case header_find ''Content-Length'' header of
           Some v \<Rightarrow> []
         | None \<Rightarrow>
             (case header_find ''Transfer-Encoding'' header of
                None \<Rightarrow> ''Content-Length: '' @ int_text content_length @ crlf
              | Some v \<Rightarrow> if v \<noteq> ''chunked'' then ''Content-Length: '' @ int_text content_length @ crlf else []))
      else [])"

definition stream_request_bytes :: "client \<Rightarrow> bytes \<Rightarrow> bytes \<Rightarrow> input_stream \<Rightarrow> headers \<Rightarrow> bytes" where
  "stream_request_bytes c meth target content header =
     create_request_header c meth target header @ stream_length_line header (tell_end content) @ crlf @
     (if 0 < tell_end content then delivers content else [])"

definition send_stream_request ::
  "'net network \<Rightarrow> nat \<Rightarrow> client \<Rightarrow> bytes \<Rightarrow> bytes \<Rightarrow> input_stream \<Rightarrow> headers \<Rightarrow> pool \<Rightarrow> 'net \<Rightarrow> 'net session_end option"
where
  "send_stream_request N max_size c meth target content header p net =
     (case get_connection c p of
        (i, p') \<Rightarrow> run_session N max_size (stream_request_bytes c meth target content header) i p' net 0)"

text \<open>The overloads with fewer arguments.\<close>

definition send_request_no_header ::
  "'net network \<Rightarrow> nat \<Rightarrow> client \<Rightarrow> bytes \<Rightarrow> bytes \<Rightarrow> bytes \<Rightarrow> pool \<Rightarrow> 'net \<Rightarrow> 'net session_end option"
where
  "send_request_no_header N max_size c meth target content p net = send_request N max_size c meth target content [] p net"

definition send_request_no_content ::
  "'net network \<Rightarrow> nat \<Rightarrow> client \<Rightarrow> bytes \<Rightarrow> bytes \<Rightarrow> pool \<Rightarrow> 'net \<Rightarrow> 'net session_end option"
where
  "send_request_no_content N max_size c meth target p net = send_request N max_size c meth target [] [] p net"

definition send_request_root ::
  "'net network \<Rightarrow> nat \<Rightarrow> client \<Rightarrow> bytes \<Rightarrow> pool \<Rightarrow> 'net \<Rightarrow> 'net session_end option"
where
  "send_request_root N max_size c meth p net = send_request N max_size c meth ''/'' [] [] p net"

definition send_stream_no_header ::
  "'net network \<Rightarrow> nat \<Rightarrow> client \<Rightarrow> bytes \<Rightarrow> bytes \<Rightarrow> input_stream \<Rightarrow> pool \<Rightarrow> 'net \<Rightarrow> 'net session_end option"
where
  "send_stream_no_header N max_size c meth target content p net = send_stream_request N max_size c meth target content [] p net"

section \<open>Streams that can seek\<close>

lemma int_text_nat [simp]: "int_text (int n) = to_string n"
  by (simp add: int_text_def)

lemma write_header_told_nat: "write_header_told header (int n) r = write_header header n r"
  by (simp add: write_header_told_def write_header_def split: prod.split)

lemma write_stream_seekable:
  assumes "seekable s"
  shows "write_stream code s header r = (write_content code (delivers s) header r, False)"
  using assms by (auto simp: seekable_def write_stream_def write_content_def write_header_told_nat Let_def)

lemma stream_request_seekable:
  assumes "seekable s"
  shows "stream_request_bytes c meth target s header = request_bytes c meth target (delivers s) header"
  using assms by (auto simp: seekable_def stream_request_bytes_def request_bytes_def stream_length_line_def
      content_length_line_def split: option.split)

text \<open>
  A content given as a stream that can seek is written as the same content given as a
  string: by the server in a response, whose stream stays good, and by the client in a
  request, with the same outcome of the whole request.
\<close>
lemma streams_like_strings:
  assumes "seekable s"
  shows "write_stream code s header r = (write_content code (delivers s) header r, False) \<and>
    send_stream_request N max_size c meth target s header p net =
      send_request N max_size c meth target (delivers s) header p net"
  using write_stream_seekable [OF assms] stream_request_seekable [OF assms]
  by (simp add: send_stream_request_def send_request_def)

section \<open>Streams that cannot\<close>

lemma minus_one: "stoul 10 ''-1'' = Ok (2 ^ 64 - 1)"
proof -
  have "scan_int 10 ''-1'' = Some (True, 1)"
    by (simp add: scan_int_def scan_prefix_def digit_in_def digits_val_def digit_of_def is_space_def)
  then show ?thesis by (simp add: stoul_def)
qed

lemma write_stream_unseekable:
  assumes "tell_end s = - 1" and "\<not> has_length header" and "\<not> has_chunked header"
    and "\<not> close_connection_after_response r"
  shows "write_stream code s header r =
    (put (response_text ''1.1'' (status_code_text code) (header @ [(''Content-Length'', ''-1'')]) @ delivers s) r, delivers s = [])"
proof -
  have "digit_char 1 = CHR ''1''" by (simp add: digit_char_def char_of_eq_iff)
  then have "int_text (- 1) = ''-1''" by (simp add: int_text_def to_string.simps)
  then show ?thesis
    using assms
    by (simp add: write_stream_def write_header_told_def write_fields_eq write_status_line_def response_text_def
        header_line_def put_def Let_def)
qed

text \<open>
  A response to which the content of a request is written as a stream announces a content of
  length \<open>-1\<close>: the client takes that for \<open>2\<^sup>6\<^sup>4 - 1\<close> bytes and goes on reading.
\<close>
lemma echoed_content_never_ends:
  assumes "transport pending (until N) (exactly N)"
    and "pending net = streambuf (fst (write_stream code (request_content content) [] response_new))"
    and "length (response_text ''1.1'' (status_code_text code) [(''Content-Length'', ''-1'')]) \<le> max_size"
    and "length content < 2 ^ 64 - 1"
  shows "\<exists>y net'. y @ pending net' = content \<and>
    client_read (until N) (exactly N) (to_end N) max_size attempt net =
      read_content_sized (exactly N) max_size (parsed_response ''1.1'' (status_code_text code) [(''Content-Length'', ''-1'')])
        net' y (2 ^ 64 - 1 - length y) []"
proof -
  let ?h = "[(''Content-Length'', ''-1'')]"
  have h: "response_head_ok ''1.1'' (status_code_text code) ?h"
    using status_code_text_plain [of code] by (simp add: response_head_ok_def plain_def field_ok_def)
  have bytes: "pending net = response_text ''1.1'' (status_code_text code) ?h @ content"
    using assms(2) write_stream_unseekable [of "request_content content" "[]" response_new code]
    by (simp add: request_content_def has_length_def has_chunked_def response_new_def put_def)
  obtain y net1 where 1: "until N net max_size [] HeaderEndMatch =
      Inr (length (response_text ''1.1'' (status_code_text code) ?h),
        response_text ''1.1'' (status_code_text code) ?h @ y, net1)" "y @ pending net1 = content"
    by (rule client_read_head [OF assms(1) h bytes assms(3)])
  have "length y \<le> length content" using 1(2) by auto
  then have less: "length y < 2 ^ 64 - 1" using assms(4) by linarith
  have found: "header_find ''Content-Length'' ?h = Some ''-1''" by (simp add: case_insensitive_equal_def)
  have "client_read (until N) (exactly N) (to_end N) max_size attempt net =
      read_content_sized (exactly N) max_size (parsed_response ''1.1'' (status_code_text code) ?h) net1 y
        (2 ^ 64 - 1 - length y) []"
    unfolding client_read_unfold [where ru = "until N" and net = net, OF 1(1) h] found Let_def option.case minus_one outcome.case
    using less by (simp only: if_True)
  with 1(2) show ?thesis by blast
qed

end
