(* ===== verification/Client_Sync.thy ===== *)
theory Client_Sync
  imports Client_Exchange
begin

text \<open>
  Synchronous requests of \<open>src/src/http/client_http.hpp\<close>: \<open>sync_request\<close> starts a thread with an
  event loop at its first call, hands the request to the asynchronous one and waits for the
  promise its callback fulfils. Further, who owns the event loop, and the destructor.
\<close>

section \<open>The client as an object\<close>

text \<open>\<open>io_service\<close> is whether there is an event loop, \<open>internal_io_service\<close> whether the client made
  it, \<open>loop_stopped\<close> and \<open>handlers_stopped\<close> what the destructor leaves.\<close>

record client_object =
  pool_of :: pool
  io_service :: bool
  internal_io_service :: bool
  synchronous_request_called :: bool
  loop_stopped :: bool
  handlers_stopped :: bool

definition object_new :: client_object where
  "object_new = \<lparr>pool_of = pool_new, io_service = False, internal_io_service = False,
     synchronous_request_called = False, loop_stopped = False, handlers_stopped = False\<rparr>"

text \<open>The part of \<open>get_connection\<close> that makes an event loop.\<close>

definition ensure_loop :: "client_object \<Rightarrow> client_object" where
  "ensure_loop o1 = (if \<not> io_service o1 then o1\<lparr>io_service := True, internal_io_service := True\<rparr> else o1)"

text \<open>The first synchronous request throws if there is an event loop already.\<close>

definition sync_start :: "client_object \<Rightarrow> client_object option" where
  "sync_start o1 =
     (if \<not> synchronous_request_called o1 then
        (if io_service o1 then None
         else Some (o1\<lparr>io_service := True, internal_io_service := True, synchronous_request_called := True\<rparr>))
      else Some o1)"

definition destroy_client :: "client_object \<Rightarrow> client_object" where
  "destroy_client o1 =
     (let o2 = o1\<lparr>handlers_stopped := True, pool_of := stop_pool (pool_of o1)\<rparr>
      in if internal_io_service o2 then o2\<lparr>loop_stopped := True\<rparr> else o2)"

section \<open>Requests\<close>

text \<open>An asynchronous request whose session runs to its end.\<close>

definition async_request ::
  "'net network \<Rightarrow> nat \<Rightarrow> client \<Rightarrow> bytes \<Rightarrow> bytes \<Rightarrow> bytes \<Rightarrow> headers \<Rightarrow> client_object \<Rightarrow> 'net \<Rightarrow>
   ('net session_end \<times> client_object) option" where
  "async_request N max_size c meth target content header o1 net =
     map_option (\<lambda>r. (r, (ensure_loop o1)\<lparr>pool_of := pool_after r\<rparr>))
       (send_request N max_size c meth target content header (pool_of o1) net)"

text \<open>
  How \<open>sync_request\<close> ends. An exception that leaves a handler leaves the detached thread and
  ends the program; \<open>Blocked\<close>: the promise is never fulfilled; \<open>Late_call\<close>: the callback is
  called after the function has returned.
\<close>

datatype 'net sync_end =
    Refused
  | Returned response_message bytes client_object "'net option"
  | Raised client_error client_object "'net option"
  | Blocked | Late_call | Program_ends

definition sync_request ::
  "'net network \<Rightarrow> nat \<Rightarrow> client \<Rightarrow> bytes \<Rightarrow> bytes \<Rightarrow> bytes \<Rightarrow> headers \<Rightarrow> client_object \<Rightarrow> 'net \<Rightarrow>
   'net sync_end option" where
  "sync_request N max_size c meth target content header o1 net =
     (case sync_start o1 of
        None \<Rightarrow> Some Refused
      | Some o2 \<Rightarrow>
          map_option (\<lambda>(r, o3).
            if escaped r then Program_ends
            else (case sync_step max_size None (calls r) of
                    Value m body \<Rightarrow> Returned m body o3 (net_after r)
                  | Exception e \<Rightarrow> Raised e o3 (net_after r)
                  | Waits \<Rightarrow> Blocked
                  | Dangling \<Rightarrow> Late_call))
          (async_request N max_size c meth target content header o2 net))"

section \<open>Who owns the event loop\<close>

lemma sync_start_loop: "sync_start o1 = Some o2 \<Longrightarrow> synchronous_request_called o2 \<and> pool_of o2 = pool_of o1"
  by (auto simp: sync_start_def split: if_splits)

lemma ensure_loop_simps [simp]:
  "pool_of (ensure_loop o1) = pool_of o1" "io_service (ensure_loop o1)"
  "synchronous_request_called (ensure_loop o1) = synchronous_request_called o1"
  by (simp_all add: ensure_loop_def)

text \<open>A synchronous request on a client that was used asynchronously, or was given an event
  loop, is refused before anything is sent.\<close>

lemma sync_after_async_refused:
  assumes "async_request N max_size c meth target content header o1 net = Some (r, o2)"
    and "\<not> synchronous_request_called o1"
  shows "sync_request N max_size' c meth' target' content' header' o2 net' = Some Refused"
proof -
  have "io_service o2" "\<not> synchronous_request_called o2" using assms by (auto simp: async_request_def)
  then show ?thesis by (simp add: sync_request_def sync_start_def)
qed

text \<open>The destructor stops the event loop exactly if the client made it, and closes every
  connection.\<close>

lemma destroy_client_stops:
  "connections (pool_of (destroy_client o1)) = []" "handlers_stopped (destroy_client o1)"
  "\<not> loop_stopped o1 \<Longrightarrow> loop_stopped (destroy_client o1) = internal_io_service o1"
  by (simp_all add: destroy_client_def stop_pool_def Let_def)

section \<open>One connection for all requests\<close>

lemma get_connection_kept:
  assumes "connections p = [i]" and "\<not> in_use (heap p i)"
  obtains p' where "get_connection c p = (i, p')" "connections p' = [i]"
  using assms that [of "resolve_host c (set_flags i True True p)"] by (simp add: get_connection_def)

lemma session_callback_frees:
  assumes "connections p = [i]"
  shows "connections (session_callback i True False p) = [i]" "\<not> in_use (heap (session_callback i True False p) i)"
  using assms by (simp_all add: session_callback_def Let_def)

text \<open>
  C26: A synchronous request on a client whose only connection is free, or that has none yet,
  returns the response the server has written, status, fields and content, however it is
  cut, and leaves the client in a state in which the next request gets the same
  connection: any number of requests one after the other use one connection.
\<close>
theorem sync_request_returns:
  assumes "transport pending (until N) (exactly N)" and "sync_start o1 = Some o2"
    and "get_connection c (pool_of o1) = (i, p)" and "connections p = [i]"
    and "connect_session N p i net = (None, net0)"
    and "write_all N i (request_bytes c meth target content' header') net0 = (None, net1)"
    and "plain_fields header" and "pending net1 = streambuf (write_content code content header response_new)"
    and "length (streambuf (write_content code content header response_new)) \<le> max_size" and "length content < 2 ^ 63"
  shows "\<exists>o3 net2. sync_request N max_size c meth target content' header' o1 net =
      Some (Returned (written_head code content header) content o3 (Some net2)) \<and> pending net2 = [] \<and>
    sync_start o3 = Some o3 \<and> (\<exists>p'. get_connection c (pool_of o3) = (i, p') \<and> connections p' = [i])"
proof -
  let ?req = "request_bytes c meth target content' header'" and ?m = "written_head code content header"
  let ?p = "session_callback i True False p"
  obtain net2 where "run_session N max_size ?req i p net 0 = Some (ended i [whole ?m content] False 1 p (Some net2))"
    and rest: "pending net2 = []"
    unfolding run_session_def One_nat_def
    by (rule run_answered [where con = "plain_connect N", OF assms(1) plain_connect_ok [OF assms(5)] assms(6-10)])
  moreover have "pool_after (ended i [whole ?m content] False 1 p (Some net2)) = ?p"
    by (simp add: ended_def session_calls_def whole_def)
  moreover have "net_after (ended i [whole ?m content] False 1 p (Some net2)) = Some net2" by (simp add: ended_def)
  ultimately obtain r where r: "send_request N max_size c meth target content' header' (pool_of o2) net = Some r"
    "\<not> escaped r" "calls r = [whole ?m content]" "pool_after r = ?p" "net_after r = Some net2"
    using assms(3) sync_start_loop [OF assms(2)] by (simp add: send_request_def)
  have fits: "length content \<le> max_size" using assms(9) by (simp add: write_content_eq response_new_def)
  have "sync_step max_size None [whole ?m content] = Value ?m content"
    using sync_complete [of "[whole ?m content]" ?m content max_size] fits assms(10) by (simp add: whole_def)
  define o3 where "o3 = (ensure_loop o2)\<lparr>pool_of := ?p\<rparr>"
  have s: "sync_request N max_size c meth target content' header' o1 net = Some (Returned ?m content o3 (Some net2))"
    using \<open>sync_step max_size None _ = _\<close> by (simp add: sync_request_def assms(2) async_request_def r o3_def)
  have "pool_of o3 = ?p" by (simp add: o3_def)
  moreover obtain p' where "get_connection c ?p = (i, p')" "connections p' = [i]"
    using get_connection_kept session_callback_frees [OF assms(4)] by blast
  moreover have "sync_start o3 = Some o3"
    using sync_start_loop [OF assms(2)] by (simp add: sync_start_def o3_def)
  ultimately show ?thesis using s rest by (metis (no_types))
qed

theorem sync_request_returns_witness:
  "\<exists>o3 net2. sync_request (streams {}) 1000 demo_client ''GET'' ''/a'' [] [] object_new
      [[], [streambuf (write_content 200 ''hello'' [] response_new)]] =
      Some (Returned (written_head 200 ''hello'' []) ''hello'' o3 (Some net2)) \<and> concat (first_stream net2) = [] \<and>
    sync_start o3 = Some o3 \<and> (\<exists>p'. get_connection demo_client (pool_of o3) = (0, p') \<and> connections p' = [0])"
proof (rule sync_request_returns [where pending = "\<lambda>net. concat (first_stream net)"])
  let ?net = "[[], [streambuf (write_content 200 ''hello'' [] response_new)]]"
  have none: "\<not> has_length []" "\<not> has_chunked []" by (simp_all add: has_length_def has_chunked_def)
  show "transport (\<lambda>net. concat (first_stream net)) (until (streams {})) (exactly (streams {}))"
    using transport_streams by (simp add: streams_def)
  show "get_connection demo_client (pool_of object_new) = (0, demo_pool)"
    by (simp add: demo_pool_def get_connection_def pool_new_def create_connection_def Let_def object_new_def)
  show "sync_start object_new = Some (object_new\<lparr>io_service := True, internal_io_service := True, synchronous_request_called := True\<rparr>)"
    by (simp add: sync_start_def object_new_def)
  show "length (streambuf (write_content 200 ''hello'' [] response_new)) \<le> 1000" by (rule demo_response_short)
  show "connect_session (streams {}) demo_pool 0 ?net = (None, tl ?net)" by (simp add: connect_session_def streams_def)
  show "write_all (streams {}) 0 (request_bytes demo_client ''GET'' ''/a'' [] []) (tl ?net) = (None, tl ?net)"
    by (simp add: streams_def)
  show "plain_fields []" by (simp add: plain_fields_def none)
qed (simp_all add: demo_pool_connections)

end
