(* ===== verification/Timers.thy ===== *)
theory Timers
  imports Prelude "HOL-Library.Sublist"
begin

text \<open>
  The time limits of a connection, in \<open>src/src/http/server_http.hpp\<close> and
  \<open>src/src/http/client_http.hpp\<close>: \<open>set_timeout\<close> replaces the timer of the connection by one whose
  handler closes the socket, \<open>cancel_timeout\<close> cancels its wait. A wait that is cancelled, or
  whose timer is destroyed, ends with an error; one that has expired before cannot be
  cancelled any more, its handler is in the queue of the event loop. The two classes are
  the same code.
\<close>

section \<open>State and operations\<close>

text \<open>The time in seconds, whether there is a timer, when its wait ends if it waits, the
  handlers that will be called with or without an error (\<^term>\<open>True\<close>: the wait has expired),
  whether the connection is alive and whether its socket has been closed.\<close>

record deadline =
  time_now :: int
  has_timer :: bool
  expiry :: "int option"
  handlers :: "bool list"
  connection_alive :: bool
  socket_closed :: bool

definition deadline_new :: "int \<Rightarrow> deadline" where
  "deadline_new t = \<lparr>time_now = t, has_timer = False, expiry = None, handlers = [], connection_alive = True, socket_closed = False\<rparr>"

text \<open>The wait of the timer ends with an error: it is cancelled or its timer destroyed.\<close>

definition abort_wait :: "deadline \<Rightarrow> deadline" where
  "abort_wait st = (case expiry st of None \<Rightarrow> st | Some e \<Rightarrow> st\<lparr>expiry := None, handlers := handlers st @ [False]\<rparr>)"

definition close_socket :: "deadline \<Rightarrow> deadline" where
  "close_socket st = st\<lparr>socket_closed := True\<rparr>"

definition set_timeout :: "int \<Rightarrow> deadline \<Rightarrow> deadline" where
  "set_timeout seconds st =
     (if seconds = 0 then (abort_wait st)\<lparr>has_timer := False\<rparr>
      else (abort_wait st)\<lparr>has_timer := True, expiry := Some (time_now st + seconds)\<rparr>)"

definition cancel_timeout :: "deadline \<Rightarrow> deadline" where
  "cancel_timeout st = (if has_timer st then abort_wait st else st)"

definition wait_handler :: "bool \<Rightarrow> deadline \<Rightarrow> deadline" where
  "wait_handler expired st = (if expired then (if connection_alive st then close_socket st else st) else st)"

section \<open>Runs\<close>

text \<open>The calls of the program, the destruction of the connection, and what happens in between:
  time passes, the wait expires, the event loop calls the first handler of its queue.\<close>

datatype timer_event = Set_timeout int | Cancel_timeout | Release | Pass nat | Expire | Handler

fun quiet :: "timer_event \<Rightarrow> bool" where
  "quiet (Pass d) = True"
| "quiet Expire = True"
| "quiet Handler = True"
| "quiet _ = False"

fun timer_step :: "timer_event \<Rightarrow> deadline \<Rightarrow> deadline" where
  "timer_step (Set_timeout s) st = set_timeout s st"
| "timer_step Cancel_timeout st = cancel_timeout st"
| "timer_step Release st = (abort_wait st)\<lparr>has_timer := False, connection_alive := False\<rparr>"
| "timer_step (Pass d) st = st\<lparr>time_now := time_now st + int d\<rparr>"
| "timer_step Expire st = (case expiry st of None \<Rightarrow> st
     | Some e \<Rightarrow> if e \<le> time_now st then st\<lparr>expiry := None, handlers := handlers st @ [True]\<rparr> else st)"
| "timer_step Handler st = (case handlers st of [] \<Rightarrow> st | x # xs \<Rightarrow> wait_handler x (st\<lparr>handlers := xs\<rparr>))"

definition run_events :: "timer_event list \<Rightarrow> deadline \<Rightarrow> deadline" where
  "run_events evs st = fold timer_step evs st"

lemma run_simps [simp]:
  "run_events [] st = st" "run_events (e # evs) st = run_events evs (timer_step e st)" "run_events (xs @ ys) st = run_events ys (run_events xs st)"
  by (simp_all add: run_events_def)

fun elapsed :: "timer_event list \<Rightarrow> int" where
  "elapsed [] = 0"
| "elapsed (Pass d # evs) = int d + elapsed evs"
| "elapsed (e # evs) = elapsed evs"

lemma elapsed_append [simp]: "elapsed (xs @ ys) = elapsed xs + elapsed ys"
  by (induction xs rule: elapsed.induct) simp_all

section \<open>A connection is closed only when a limit is over\<close>

lemma abort_wait_simps [simp]:
  "time_now (abort_wait st) = time_now st" "has_timer (abort_wait st) = has_timer st" "expiry (abort_wait st) = None"
  "connection_alive (abort_wait st) = connection_alive st" "socket_closed (abort_wait st) = socket_closed st"
  "True \<in> set (handlers (abort_wait st)) \<longleftrightarrow> True \<in> set (handlers st)"
  by (auto simp: abort_wait_def split: option.split)

text \<open>Somewhere in a run_events a limit was set, left alone until it was over, and expired.\<close>

definition overdue :: "timer_event list \<Rightarrow> bool" where
  "overdue evs \<longleftrightarrow> (\<exists>pre s mid post. evs = pre @ Set_timeout s # mid @ Expire # post \<and> s \<noteq> 0 \<and>
     list_all quiet mid \<and> s \<le> elapsed mid)"

lemma overdue_later: "overdue evs \<Longrightarrow> overdue (evs @ later)"
  unfolding overdue_def by (metis append.assoc append_Cons)

text \<open>The limit that is running at the end of a run_events, with the time since it was set.\<close>

definition running :: "timer_event list \<Rightarrow> int \<Rightarrow> int \<Rightarrow> bool" where
  "running evs s t \<longleftrightarrow> (\<exists>pre mid. evs = pre @ Set_timeout s # mid \<and> s \<noteq> 0 \<and> list_all quiet mid \<and> t = elapsed mid)"

lemma running_set: "s \<noteq> 0 \<Longrightarrow> running (evs @ [Set_timeout s]) s 0"
  unfolding running_def by (rule exI [of _ evs], rule exI [of _ "[]"]) simp

lemma running_later:
  assumes "running evs s t" and "quiet e"
  shows "running (evs @ [e]) s (t + elapsed [e])"
proof -
  obtain pre mid where "evs = pre @ Set_timeout s # mid" "s \<noteq> 0" "list_all quiet mid" "t = elapsed mid"
    using assms(1) by (auto simp: running_def)
  with assms(2) show ?thesis
    unfolding running_def by (intro exI [of _ pre] exI [of _ "mid @ [e]"]) simp
qed

lemma running_over: "running evs s t \<Longrightarrow> s \<le> t \<Longrightarrow> overdue (evs @ [Expire])"
  unfolding running_def overdue_def by (metis append.assoc append_Cons append_Nil)

definition timely :: "timer_event list \<Rightarrow> deadline \<Rightarrow> bool" where
  "timely evs st \<longleftrightarrow> (socket_closed st \<or> True \<in> set (handlers st) \<longrightarrow> overdue evs) \<and>
     (\<forall>e. expiry st = Some e \<longrightarrow> (\<exists>s t. running evs s t \<and> e - time_now st = s - t)) \<and> (\<not> has_timer st \<longrightarrow> expiry st = None)"

lemma timely_step:
  assumes "timely evs st"
  shows "timely (evs @ [e]) (timer_step e st)"
proof -
  note old = assms [unfolded timely_def]
  show ?thesis
  proof (cases e)
    case (Set_timeout s)
    have "\<exists>s' t. running (evs @ [Set_timeout s]) s' t \<and> s = s' - t" if "s \<noteq> 0"
      using running_set [OF that, of evs] by (intro exI [of _ s] exI [of _ 0]) simp
    then show ?thesis
      using Set_timeout old overdue_later [of evs "[e]"] by (auto simp: timely_def set_timeout_def)
  next
    case Cancel_timeout
    then show ?thesis using old overdue_later [of evs "[e]"] by (auto simp: timely_def cancel_timeout_def)
  next
    case Release
    then show ?thesis using old overdue_later [of evs "[e]"] by (auto simp: timely_def)
  next
    case (Pass d)
    have "\<exists>s t. running (evs @ [e]) s t \<and> x - time_now (timer_step e st) = s - t" if x: "expiry st = Some x" for x
    proof -
      obtain s t where "running evs s t" "x - time_now st = s - t" using old x by blast
      with running_later [of evs s t e] Pass show ?thesis by (intro exI [of _ s] exI [of _ "t + int d"]) simp
    qed
    then show ?thesis using old overdue_later [of evs "[e]"] Pass by (auto simp: timely_def)
  next
    case Expire
    show ?thesis
    proof (cases "expiry st")
      case None
      then show ?thesis using old overdue_later [of evs "[e]"] Expire by (auto simp: timely_def)
    next
      case (Some x)
      then obtain s t where r: "running evs s t" "x - time_now st = s - t" using old by blast
      show ?thesis
      proof (cases "x \<le> time_now st")
        case True
        then have "overdue (evs @ [e])" using running_over [OF r(1)] r(2) Expire by simp
        then show ?thesis using True Some Expire by (simp add: timely_def)
      next
        case False
        then show ?thesis
          using old overdue_later [of evs "[e]"] running_later [OF r(1), of e] r(2) Expire Some
          by (auto simp: timely_def)
      qed
    qed
  next
    case Handler
    have run_events: "\<exists>s t. running (evs @ [e]) s t \<and> x - time_now st = s - t" if x: "expiry st = Some x" for x
    proof -
      obtain s t where "running evs s t" "x - time_now st = s - t" using old x by blast
      with running_later [of evs s t e] Handler show ?thesis by (intro exI [of _ s] exI [of _ t]) simp
    qed
    then show ?thesis
      using old overdue_later [of evs "[e]"] Handler
      by (cases "handlers st") (auto simp: timely_def wait_handler_def close_socket_def)
  qed
qed

lemma timely_run: "timely evs (run_events evs (deadline_new t))"
proof (induction evs rule: rev_induct)
  case Nil
  then show ?case by (simp add: timely_def deadline_new_def)
next
  case (snoc e evs)
  from timely_step [OF this, of e] show ?case by simp
qed

lemma closed_overdue: "socket_closed (run_events evs (deadline_new t)) \<Longrightarrow> overdue evs"
  using timely_run [of evs t] unfolding timely_def by blast

section \<open>A limit that is over closes the connection\<close>

definition due :: "deadline \<Rightarrow> bool" where
  "due st \<longleftrightarrow> connection_alive st \<and> (socket_closed st \<or> True \<in> set (handlers st))"

lemma queue_closes:
  assumes "due st" and "length (handlers st) \<le> n"
  shows "socket_closed (run_events (replicate n Handler) st)"
  using assms
proof (induction n arbitrary: st)
  case 0
  then show ?case by (simp add: due_def)
next
  case (Suc n)
  show ?case
  proof (cases "handlers st")
    case Nil
    with Suc show ?thesis by (simp add: due_def)
  next
    case (Cons x xs)
    with Suc.prems show ?thesis
      by (auto simp: due_def wait_handler_def close_socket_def intro!: Suc.IH)
  qed
qed

text \<open>While only time passes, the limit waits until it is over or has expired.\<close>

lemma waits_or_due:
  assumes "list_all quiet mid" and "connection_alive st" and "expiry st = Some e \<or> due st"
  shows "connection_alive (run_events mid st) \<and> time_now (run_events mid st) = time_now st + elapsed mid \<and> (expiry (run_events mid st) = Some e \<or> due (run_events mid st))"
  using assms
proof (induction mid arbitrary: st)
  case Nil
  then show ?case by simp
next
  case (Cons x mid)
  have "connection_alive (timer_step x st) \<and> time_now (timer_step x st) = time_now st + elapsed [x] \<and> (expiry (timer_step x st) = Some e \<or> due (timer_step x st))"
    using Cons.prems
    by (cases x; cases "handlers st"; cases "expiry st") (auto simp: due_def wait_handler_def close_socket_def)
  moreover have "elapsed (x # mid) = elapsed [x] + elapsed mid" using elapsed_append [of "[x]" mid] by simp
  ultimately show ?case using Cons.IH [of "timer_step x st"] Cons.prems(1) by simp
qed

text \<open>A limit that has expired closes the connection even if it is cancelled, or another one is
  set, before its handler is called.\<close>

lemma late_cancel_closes:
  assumes "connection_alive st" and "expiry st = Some e" and "e \<le> time_now st" and "handlers st = []"
  shows "socket_closed (run_events [Expire, Cancel_timeout, Handler] st)" "socket_closed (run_events [Expire, Set_timeout s, Handler] st)"
  using assms by (simp_all add: cancel_timeout_def set_timeout_def abort_wait_def wait_handler_def close_socket_def)

section \<open>The limits of the server\<close>

text \<open>The calls of one request: \<open>read\<close> sets the limit for the header; its handler the one for the
  content and the response, whatever the outcome; the response that has been sent cancels
  it. The connection is read again or, in all other cases, released.\<close>

datatype request_end = Answered_again | Answered_last | Dropped

fun request_calls :: "int \<Rightarrow> int \<Rightarrow> request_end \<Rightarrow> timer_event list" where
  "request_calls timeout_request timeout_content Answered_again =
     [Set_timeout timeout_request, Set_timeout timeout_content, Cancel_timeout]"
| "request_calls timeout_request timeout_content Answered_last =
     [Set_timeout timeout_request, Set_timeout timeout_content, Cancel_timeout, Release]"
| "request_calls timeout_request timeout_content Dropped =
     [Set_timeout timeout_request, Set_timeout timeout_content, Release]"

definition server_calls :: "int \<Rightarrow> int \<Rightarrow> request_end list \<Rightarrow> timer_event list" where
  "server_calls timeout_request timeout_content ends = concat (map (request_calls timeout_request timeout_content) ends)"

lemma server_limits: "Set_timeout s \<in> set (server_calls tr tc ends) \<Longrightarrow> s = tr \<or> s = tc"
proof -
  have "Set_timeout s \<in> set (request_calls tr tc r) \<Longrightarrow> s = tr \<or> s = tc" for r by (cases r) auto
  then show "Set_timeout s \<in> set (server_calls tr tc ends) \<Longrightarrow> s = tr \<or> s = tc" by (auto simp: server_calls_def)
qed

section \<open>The limits of the client\<close>

text \<open>Resolving and connecting have a limit each, writing and reading one together, which the
  last call of the callback cancels.\<close>

definition client_calls :: "int \<Rightarrow> int \<Rightarrow> bool \<Rightarrow> timer_event list" where
  "client_calls timeout timeout_connect is_open =
     (if is_open then [] else [Set_timeout timeout_connect, Cancel_timeout, Set_timeout timeout_connect, Cancel_timeout]) @
     [Set_timeout timeout, Cancel_timeout]"

text \<open>
  Without a limit for connecting there is none, whatever the limit of a request: as long as
  the host name is not resolved or the server does not accept, no time closes the socket.
\<close>
lemma connecting_has_no_limit:
  assumes "list_all quiet mid"
  shows "\<not> socket_closed (run_events (hd (client_calls timeout 0 False) # mid) (deadline_new t))"
    "\<not> socket_closed (run_events (take 3 (client_calls timeout 0 False) @ mid) (deadline_new t))"
proof -
  have none: "\<not> socket_closed (run_events (evs @ mid) (deadline_new t))" if "\<And>s. s \<noteq> 0 \<Longrightarrow> Set_timeout s \<notin> set evs" for evs
  proof
    assume "socket_closed (run_events (evs @ mid) (deadline_new t))"
    then have "overdue (evs @ mid)" by (rule closed_overdue)
    then obtain pre s mid' post where e: "evs @ mid = pre @ Set_timeout s # mid' @ Expire # post" "s \<noteq> 0"
      unfolding overdue_def by blast
    have "Set_timeout s \<in> set (evs @ mid)" unfolding e(1) by simp
    with that [OF e(2)] assms show False by (auto simp: list_all_iff)
  qed
  show "\<not> socket_closed (run_events (hd (client_calls timeout 0 False) # mid) (deadline_new t))"
    using none [of "[Set_timeout 0]"] by (simp add: client_calls_def)
  show "\<not> socket_closed (run_events (take 3 (client_calls timeout 0 False) @ mid) (deadline_new t))"
    using none [of "[Set_timeout 0, Cancel_timeout, Set_timeout 0]"] by (simp add: client_calls_def)
qed

section \<open>Properties\<close>

text \<open>
  C33: Time closes a connection of the server only for lateness: one of the two configured
  limits was set, was neither renewed nor cancelled for its whole time, and expired; in
  between the program has made no call on the timer.
\<close>
theorem closed_for_lateness:
  assumes "prefix (filter (\<lambda>e. \<not> quiet e) evs) (server_calls timeout_request timeout_content ends)"
    and "socket_closed (run_events evs (deadline_new t))"
  shows "\<exists>pre s mid post. evs = pre @ Set_timeout s # mid @ Expire # post \<and> s \<in> {timeout_request, timeout_content} \<and>
    s \<noteq> 0 \<and> list_all quiet mid \<and> s \<le> elapsed mid"
proof -
  obtain pre s mid post where evs: "evs = pre @ Set_timeout s # mid @ Expire # post" "s \<noteq> 0" "list_all quiet mid" "s \<le> elapsed mid"
    using closed_overdue [OF assms(2)] by (auto simp: overdue_def)
  then have "Set_timeout s \<in> set (filter (\<lambda>e. \<not> quiet e) evs)" by simp
  then have "Set_timeout s \<in> set (server_calls timeout_request timeout_content ends)"
    using assms(1) set_mono_prefix by blast
  with evs server_limits show ?thesis by blast
qed

theorem closed_for_lateness_witness:
  "\<exists>pre s mid post. [Set_timeout 5, Pass 3, Pass 2, Expire, Set_timeout 300, Handler] =
      pre @ Set_timeout s # mid @ Expire # post \<and> s \<in> {5, 300} \<and> s \<noteq> 0 \<and> list_all quiet mid \<and> s \<le> elapsed mid"
  by (rule closed_for_lateness [where ends = "[Dropped]" and t = 0])
    (simp_all add: server_calls_def deadline_new_def set_timeout_def abort_wait_def wait_handler_def close_socket_def)

text \<open>
  C34: A limit that is set on a connection and neither renewed nor cancelled closes it: once
  its time has passed and the wait has expired, as soon as the event loop has called the
  handlers that were in its queue.
\<close>
theorem limit_closes:
  assumes "connection_alive st" and "s \<noteq> 0" and "list_all quiet mid" and "s \<le> elapsed mid"
    and "length (handlers (run_events (Set_timeout s # mid @ [Expire]) st)) \<le> n"
  shows "socket_closed (run_events (Set_timeout s # mid @ Expire # replicate n Handler) st)"
proof -
  let ?st = "run_events mid (set_timeout s st)"
  have new: "connection_alive (set_timeout s st)" "expiry (set_timeout s st) = Some (time_now st + s)" "time_now (set_timeout s st) = time_now st"
    using assms(1,2) by (simp_all add: set_timeout_def)
  from waits_or_due [OF assms(3) new(1)] new(2,3)
  have st: "connection_alive ?st" "time_now ?st = time_now st + elapsed mid" "expiry ?st = Some (time_now st + s) \<or> due ?st" by auto
  then have "due (timer_step Expire ?st)" using assms(4) by (auto simp: due_def split: option.split)
  from queue_closes [OF this] assms(5) show ?thesis by simp
qed

theorem limit_closes_witness:
  "socket_closed (run_events (Set_timeout 5 # [Pass 3, Handler, Pass 2] @ Expire # replicate 2 Handler) (deadline_new 0))"
  by (rule limit_closes)
    (simp_all add: deadline_new_def set_timeout_def abort_wait_def wait_handler_def close_socket_def)

end
