(* ===== verification/Server_Connections.thy ===== *)
theory Server_Connections
  imports Transport
begin

text \<open>
  The life of a server and of its connections in \<open>src/src/http/server_http.hpp\<close>: \<open>start\<close> with its
  endpoint and threads, \<open>create_connection\<close> whose shared pointer takes the connection out of
  the set before it deletes it, \<open>accept\<close> and its handler, the upgrade of a connection, and
  \<open>stop\<close>; and \<open>LockGuard\<close> of \<open>src/src/http/mutex.hpp\<close>, under which the set is used. A
  connection is its address, which the allocator chooses among those not in use.
\<close>

section \<open>The guard of a mutex\<close>

text \<open>A mutex is whether it is locked; unlocking one that is not locked is undefined. A lock
  that is held elsewhere is waited for, so the constructor starts from an unlocked one.\<close>

record lock_guard =
  locked :: bool
  mutex_locked :: bool

definition guard_new :: "lock_guard" where
  "guard_new = \<lparr>locked = True, mutex_locked = True\<rparr>"

definition mutex_unlock :: "lock_guard \<Rightarrow> lock_guard outcome" where
  "mutex_unlock g = (if mutex_locked g then Ok (g\<lparr>mutex_locked := False\<rparr>) else Undefined)"

definition guard_unlock :: "lock_guard \<Rightarrow> lock_guard outcome" where
  "guard_unlock g = (case mutex_unlock g of Ok g \<Rightarrow> Ok (g\<lparr>locked := False\<rparr>) | Throw \<Rightarrow> Throw | Undefined \<Rightarrow> Undefined)"

definition guard_destroy :: "lock_guard \<Rightarrow> lock_guard outcome" where
  "guard_destroy g = (if locked g then mutex_unlock g else Ok g)"

text \<open>The two uses: the guard of a block, and the one of \<open>reconnect\<close>, unlocked before its end.
  The mutex is free afterwards, and no use unlocks it twice.\<close>

lemma guard_of_block: "guard_destroy guard_new = Ok (guard_new\<lparr>mutex_locked := False\<rparr>)"
  by (simp add: guard_destroy_def guard_new_def mutex_unlock_def)

lemma guard_unlocked_early:
  "\<exists>g. guard_unlock guard_new = Ok g \<and> guard_destroy g = Ok g \<and> \<not> mutex_locked g \<and> guard_unlock g = Undefined"
  by (simp add: guard_destroy_def guard_new_def mutex_unlock_def guard_unlock_def)

section \<open>Starting\<close>

datatype endpoint_address = Any_v6 | Any_v4 | Address bytes

text \<open>Parsing an address and opening the acceptor for it are Asio's: they may throw.\<close>

datatype open_error = Family_not_supported | Other_open_error

definition start_endpoint ::
  "bytes \<Rightarrow> (endpoint_address \<Rightarrow> open_error option) \<Rightarrow> endpoint_address option"
where
  "start_endpoint address open_for =
     (let endpoint = (if address \<noteq> [] then Address address else Any_v6)
      in case open_for endpoint of
           None \<Rightarrow> Some endpoint
         | Some e \<Rightarrow>
             if e = Family_not_supported \<and> address = []
             then (case open_for Any_v4 of None \<Rightarrow> Some Any_v4 | Some _ \<Rightarrow> None)
             else None)"

text \<open>The threads that run an internal event loop: those started for it, and the caller.\<close>

definition start_threads :: "nat \<Rightarrow> nat \<times> bool" where
  "start_threads thread_pool_size = (length [1..<thread_pool_size], 0 < thread_pool_size)"

lemma start_threads_total: "(case start_threads n of (started, main) \<Rightarrow> started + (if main then 1 else 0)) = n"
  by (simp add: start_threads_def)

lemma start_endpoint_v4:
  "start_endpoint [] open_for = Some Any_v4 \<longleftrightarrow>
     open_for Any_v6 = Some Family_not_supported \<and> open_for Any_v4 = None"
  by (auto simp: start_endpoint_def split: option.splits)

section \<open>Connections\<close>

text \<open>
  \<open>conn_set\<close> is the set of raw pointers, \<open>live\<close> the connections that exist, \<open>shut\<close> those whose
  socket was closed, \<open>upgraded\<close> those handed over to \<open>on_upgrade\<close>, \<open>accepting\<close> the connection
  the acceptor waits for, if it does, \<open>errors\<close> the number of calls of \<open>on_error\<close>.
\<close>

record server =
  conn_set :: "nat set"
  live :: "nat set"
  shut :: "nat set"
  upgraded :: "nat set"
  accepting :: "nat option"
  serving :: "nat set"
  errors :: nat

definition server_new :: server where
  "server_new = \<lparr>conn_set = {}, live = {}, shut = {}, upgraded = {}, accepting = None, serving = {}, errors = 0\<rparr>"

definition create_server_connection :: "nat \<Rightarrow> server \<Rightarrow> server" where
  "create_server_connection a s = s\<lparr>conn_set := insert a (conn_set s), live := insert a (live s)\<rparr>"

text \<open>The deleter of the shared pointer; what is kept of the connection goes with it.\<close>

definition delete_connection :: "nat \<Rightarrow> server \<Rightarrow> server" where
  "delete_connection a s = s\<lparr>conn_set := conn_set s - {a}, live := live s - {a}, shut := shut s - {a},
     upgraded := upgraded s - {a}\<rparr>"

definition upgrade_connection :: "nat \<Rightarrow> server \<Rightarrow> server" where
  "upgrade_connection a s = s\<lparr>conn_set := conn_set s - {a}, upgraded := insert a (upgraded s)\<rparr>"

text \<open>\<open>stop\<close> reads every pointer of the set: undefined if one is dangling.\<close>

definition stop_server :: "server \<Rightarrow> server outcome" where
  "stop_server s =
     (if conn_set s \<subseteq> live s then Ok (s\<lparr>shut := shut s \<union> conn_set s, conn_set := {}\<rparr>) else Undefined)"

definition accept :: "nat \<Rightarrow> server \<Rightarrow> server" where
  "accept a s = (create_server_connection a s)\<lparr>accepting := Some a\<rparr>"

text \<open>The handler of an accepted connection \<open>c\<close>: unless it was aborted, the next one is waited
  for first, at address \<open>a\<close>. The connection is served, or it goes with its session.\<close>

definition accept_handler :: "io_error option \<Rightarrow> nat \<Rightarrow> nat \<Rightarrow> server \<Rightarrow> server" where
  "accept_handler ec c a s =
     (let s = s\<lparr>accepting := None\<rparr>;
          s = (if ec \<noteq> Some Aborted then accept a s else s)
      in if ec = None then s\<lparr>serving := insert c (serving s)\<rparr>
         else delete_connection c (s\<lparr>errors := Suc (errors s)\<rparr>))"

definition finish_connection :: "nat \<Rightarrow> server \<Rightarrow> server" where
  "finish_connection c s = delete_connection c (s\<lparr>serving := serving s - {c}\<rparr>)"

section \<open>Runs\<close>

inductive server_step :: "server \<Rightarrow> server \<Rightarrow> bool" where
  started: "accepting s = None \<Longrightarrow> a \<notin> live s \<Longrightarrow> server_step s (accept a s)"
| accepted: "accepting s = Some c \<Longrightarrow> a \<notin> live s \<Longrightarrow> server_step s (accept_handler ec c a s)"
| upgrade: "c \<in> serving s \<Longrightarrow> server_step s (upgrade_connection c s)"
| finished: "c \<in> serving s \<Longrightarrow> server_step s (finish_connection c s)"
| stopped: "stop_server s = Ok s' \<Longrightarrow> server_step s s'"

inductive server_reachable :: "server \<Rightarrow> bool" where
  init: "server_reachable server_new"
| step: "server_reachable s \<Longrightarrow> server_step s s' \<Longrightarrow> server_reachable s'"

section \<open>The invariant\<close>

text \<open>No pointer dangles, and every connection can be reached, is closed or was handed over.\<close>

definition server_ok :: "server \<Rightarrow> bool" where
  "server_ok s \<longleftrightarrow> conn_set s \<subseteq> live s \<and> live s \<subseteq> conn_set s \<union> shut s \<union> upgraded s \<and>
     live s = serving s \<union> set_option (accepting s) \<and> (\<forall>c. accepting s = Some c \<longrightarrow> c \<notin> serving s) \<and>
     upgraded s \<subseteq> live s \<and> shut s \<subseteq> live s"

lemma server_step_ok: "server_step s s' \<Longrightarrow> server_ok s \<Longrightarrow> server_ok s'"
proof (induction rule: server_step.induct)
  case (accepted s c a ec)
  then show ?case
    by (cases "ec = None"; cases "ec = Some Aborted")
      (auto simp: server_ok_def accept_handler_def accept_def create_server_connection_def delete_connection_def Let_def)
next
  case (stopped s s')
  then show ?case by (auto simp: server_ok_def stop_server_def split: if_splits)
qed (auto simp: server_ok_def accept_def create_server_connection_def upgrade_connection_def finish_connection_def
    delete_connection_def split: option.splits)

lemma server_ok_errors [simp]: "server_ok (s\<lparr>errors := n\<rparr>) \<longleftrightarrow> server_ok s"
  by (simp add: server_ok_def)

lemma server_new_ok: "server_ok server_new"
  by (simp add: server_ok_def server_new_def)

lemma server_reachable_ok: "server_reachable s \<Longrightarrow> server_ok s"
  by (induction rule: server_reachable.induct) (blast intro: server_new_ok server_step_ok)+

section \<open>An acceptor that keeps failing\<close>

text \<open>Runs of the handler with the error \<open>e\<close>, the connections at the addresses \<open>as\<close>.\<close>

fun accept_failures :: "io_error \<Rightarrow> nat list \<Rightarrow> server \<Rightarrow> server" where
  "accept_failures e [] s = s"
| "accept_failures e (a # as) s =
     (case accepting s of
        None \<Rightarrow> s
      | Some c \<Rightarrow> accept_failures e as (accept_handler (Some e) c a s))"

text \<open>
  Only \<open>operation_aborted\<close> ends the waiting for connections. With any other error, such as the
  one of an acceptor that \<open>stop\<close> has closed between an accepted connection and its handler, the
  handler waits again at once, for as long as the event loop runs.
\<close>

lemma accept_failures_go_on:
  "accepting s \<noteq> None \<Longrightarrow> e \<noteq> Aborted \<Longrightarrow>
     accepting (accept_failures e as s) \<noteq> None \<and> errors (accept_failures e as s) = errors s + length as \<and>
     serving (accept_failures e as s) = serving s"
proof (induction as arbitrary: s)
  case (Cons a as)
  then obtain c where c: "accepting s = Some c" by blast
  let ?s = "accept_handler (Some e) c a s"
  have "accepting ?s \<noteq> None" "errors ?s = Suc (errors s)" "serving ?s = serving s"
    using Cons.prems(2)
    by (simp_all add: accept_handler_def accept_def create_server_connection_def delete_connection_def Let_def)
  with Cons.IH [of ?s] Cons.prems(2) show ?case by (simp add: c)
qed simp

lemma accept_aborted_ends:
  "accepting s = Some c \<Longrightarrow> accepting (accept_handler (Some Aborted) c a s) = None"
  by (simp add: accept_handler_def delete_connection_def Let_def)

section \<open>Properties\<close>



end
