(* ===== verification/Server_Start.thy ===== *)
theory Server_Start
  imports Server_Connections
begin

text \<open>
  \<open>start\<close>, \<open>stop\<close> and the destructor of \<open>src/src/http/server_http.hpp\<close> as far as the acceptor, the
  event loop and the threads go: what a start leaves when one of its steps throws, when it
  returns, and when a server can be started again. The steps of the acceptor are Asio's:
  whether they succeed is an argument.
\<close>

section \<open>State\<close>

text \<open>The acceptor, if there is one, may be open, bound to a port and listening.\<close>

record acceptor =
  acceptor_open :: bool
  bound_to :: "endpoint_address option"
  listening :: bool

text \<open>The event loop: whether the server made it, whether it has been stopped, and the ports with
  which calls of the callback of \<open>start\<close> have been posted to it.\<close>

record event_loop =
  loop_internal :: bool
  stopped :: bool
  posted :: "nat list"

record server_life =
  acceptor_of :: "acceptor option"
  loop_of :: "event_loop option"
  waiting :: bool
  started_threads :: nat
  runner_stopped :: bool

definition life_new :: server_life where
  "life_new = \<lparr>acceptor_of = None, loop_of = None, waiting = False, started_threads = 0, runner_stopped = False\<rparr>"

text \<open>A server that is given the event loop of its user.\<close>

definition life_on_loop :: "event_loop \<Rightarrow> server_life" where
  "life_on_loop l = life_new\<lparr>loop_of := Some l\<rparr>"

text \<open>The configuration, and whether its address is one to Asio.\<close>

record config =
  config_address :: bytes
  address_parses :: bool
  thread_pool_size :: nat

text \<open>What the system answers during one start.\<close>

record system_answers =
  open_for :: "endpoint_address \<Rightarrow> open_error option"
  reuse_set :: bool
  bind_succeeds :: "endpoint_address \<Rightarrow> bool"
  after_bind_ok :: bool
  port_given :: nat
  listen_succeeds :: bool

datatype start_error = Already_open | Open_failed | Option_failed | Bind_failed | After_bind_failed | Listen_failed

datatype start_end = Returns | Throws start_error | Terminates

section \<open>Operations\<close>

text \<open>\<open>make_address\<close> of \<open>src/src/http/asio_compatibility.hpp\<close> is declared \<open>noexcept\<close>, but the function
  of Asio it calls throws for a text that is no address: that ends the program, and no
  handler sees it.\<close>

definition make_address :: "(bytes \<Rightarrow> bool) \<Rightarrow> bytes \<Rightarrow> endpoint_address option" where
  "make_address is_address str = (if is_address str then Some (Address str) else None)"

text \<open>The first part makes the event loop and the acceptor if there are none.\<close>

definition ensure_parts :: "server_life \<Rightarrow> server_life" where
  "ensure_parts s =
     (let s = (case loop_of s of
                 None \<Rightarrow> s\<lparr>loop_of := Some \<lparr>loop_internal = True, stopped = False, posted = []\<rparr>\<rparr> | Some l \<Rightarrow> s)
      in case acceptor_of s of
           None \<Rightarrow> s\<lparr>acceptor_of := Some \<lparr>acceptor_open = False, bound_to = None, listening = False\<rparr>\<rparr>
         | Some a \<Rightarrow> s)"

text \<open>Opening an acceptor that is open throws \<open>already_open\<close>, which no handler catches.\<close>

definition open_acceptor :: "config \<Rightarrow> system_answers \<Rightarrow> acceptor \<Rightarrow> start_error + endpoint_address" where
  "open_acceptor cfg sys a =
     (if acceptor_open a then Inl Already_open
      else (case start_endpoint (config_address cfg) (open_for sys) of
              None \<Rightarrow> Inl Open_failed | Some endpoint \<Rightarrow> Inr endpoint))"

definition set_acceptor :: "acceptor \<Rightarrow> server_life \<Rightarrow> server_life" where
  "set_acceptor a s = s\<lparr>acceptor_of := Some a\<rparr>"

text \<open>From the open acceptor to the threads. The threads of an internal event loop are those
  started for it and the caller, which returns when the loop has ended.\<close>

definition run_loop :: "config \<Rightarrow> bool \<Rightarrow> nat \<Rightarrow> event_loop \<Rightarrow> server_life \<Rightarrow> server_life" where
  "run_loop cfg has_callback port l s =
     (let l = (if loop_internal l \<and> stopped l then l\<lparr>stopped := False\<rparr> else l);
          l = (if has_callback then l\<lparr>posted := posted l @ [port]\<rparr> else l)
      in if loop_internal l
         then s\<lparr>loop_of := Some l, started_threads := (case start_threads (thread_pool_size cfg) of (n, caller) \<Rightarrow> n + of_bool caller)\<rparr>
         else s\<lparr>loop_of := Some l\<rparr>)"

definition start_server :: "config \<Rightarrow> system_answers \<Rightarrow> bool \<Rightarrow> server_life \<Rightarrow> start_end \<times> server_life" where
  "start_server cfg sys has_callback s0 =
     (if config_address cfg \<noteq> [] \<and> make_address (\<lambda>_. address_parses cfg) (config_address cfg) = None then (Terminates, s0)
      else
      (let s = ensure_parts s0; a = the (acceptor_of s) in
       case open_acceptor cfg sys a of
         Inl e \<Rightarrow> (Throws e, s)
       | Inr endpoint \<Rightarrow>
      (let a = \<lparr>acceptor_open = True, bound_to = None, listening = False\<rparr> in
       if \<not> reuse_set sys then (Throws Option_failed, set_acceptor a s)
       else if \<not> bind_succeeds sys endpoint then (Throws Bind_failed, set_acceptor a s)
       else
      (let a = a\<lparr>bound_to := Some endpoint\<rparr> in
       if \<not> after_bind_ok sys then (Throws After_bind_failed, set_acceptor a s)
       else if \<not> listen_succeeds sys then (Throws Listen_failed, set_acceptor a s)
       else
      (let s = (set_acceptor (a\<lparr>listening := True\<rparr>) s)\<lparr>waiting := True\<rparr> in
       (Returns, run_loop cfg has_callback (port_given sys) (the (loop_of s)) s))))))"

definition stop_life :: "server_life \<Rightarrow> server_life" where
  "stop_life s =
     (case acceptor_of s of
        None \<Rightarrow> s
      | Some a \<Rightarrow>
          (let s = (set_acceptor (a\<lparr>acceptor_open := False, bound_to := None, listening := False\<rparr>) s)\<lparr>waiting := False\<rparr>
           in case loop_of s of
                None \<Rightarrow> s
              | Some l \<Rightarrow> if loop_internal l then s\<lparr>loop_of := Some (l\<lparr>stopped := True\<rparr>)\<rparr> else s))"

definition destroy_server :: "server_life \<Rightarrow> server_life" where
  "destroy_server s = stop_life (s\<lparr>runner_stopped := True\<rparr>)"

section \<open>What holds between calls\<close>

text \<open>A server listens exactly while it waits for connections; an acceptor that listens is
  bound and open, and has an event loop.\<close>

definition life_ok :: "server_life \<Rightarrow> bool" where
  "life_ok s \<longleftrightarrow> (case acceptor_of s of
      None \<Rightarrow> \<not> waiting s
    | Some a \<Rightarrow> waiting s = listening a \<and> (listening a \<longrightarrow> acceptor_open a \<and> bound_to a \<noteq> None) \<and> loop_of s \<noteq> None)"

lemma life_new_ok: "life_ok life_new"
  by (simp add: life_ok_def life_new_def)

lemma ensure_parts_simps:
  "\<exists>a. acceptor_of (ensure_parts s) = Some a \<and> (acceptor_of s = Some a \<or> acceptor_of s = None \<and> \<not> acceptor_open a \<and> \<not> listening a)"
  "loop_of (ensure_parts s) \<noteq> None" "waiting (ensure_parts s) = waiting s"
  by (auto simp: ensure_parts_def Let_def split: option.split)

lemma ensure_parts_ok: "life_ok s \<Longrightarrow> life_ok (ensure_parts s)"
  using ensure_parts_simps [of s] by (auto simp: life_ok_def)

lemma run_loop_simps [simp]:
  "acceptor_of (run_loop cfg cb port l s) = acceptor_of s" "waiting (run_loop cfg cb port l s) = waiting s"
  "loop_of (run_loop cfg cb port l s) \<noteq> None"
  by (simp_all add: run_loop_def Let_def)

text \<open>How a start can end.\<close>

lemma start_cases:
  obtains (address) "start_server cfg sys cb s = (Terminates, s)"
    | (not_opened) e where "start_server cfg sys cb s = (Throws e, ensure_parts s)"
        "open_acceptor cfg sys (the (acceptor_of (ensure_parts s))) = Inl e"
    | (left_open) e a where "start_server cfg sys cb s = (Throws e, set_acceptor a (ensure_parts s))" "acceptor_open a" "\<not> listening a"
        "\<not> acceptor_open (the (acceptor_of (ensure_parts s)))" "config_address cfg = [] \<or> address_parses cfg"
    | (listens) a s' where "start_server cfg sys cb s = (Returns, s')" "acceptor_of s' = Some a" "acceptor_open a"
        "bound_to a \<noteq> None" "listening a" "waiting s'" "loop_of s' \<noteq> None"
proof (cases "config_address cfg \<noteq> [] \<and> make_address (\<lambda>_. address_parses cfg) (config_address cfg) = None")
  case True
  then show thesis by (intro address) (simp add: start_server_def)
next
  case False
  note addr = False
  show thesis
  proof (cases "open_acceptor cfg sys (the (acceptor_of (ensure_parts s)))")
    case (Inl e)
    moreover have "start_server cfg sys cb s = (Throws e, ensure_parts s)"
      using addr Inl unfolding start_server_def Let_def by (simp only: if_False sum.case)
    ultimately show thesis by (intro not_opened)
  next
    case (Inr endpoint)
    have closed: "\<not> acceptor_open (the (acceptor_of (ensure_parts s)))"
      using Inr by (auto simp: open_acceptor_def split: if_splits)
    define a where "a = \<lparr>acceptor_open = True, bound_to = Some endpoint, listening = False\<rparr>"
    let ?s = "(set_acceptor (a\<lparr>listening := True\<rparr>) (ensure_parts s))\<lparr>waiting := True\<rparr>"
    have eq: "start_server cfg sys cb s =
        (if \<not> reuse_set sys then (Throws Option_failed, set_acceptor (a\<lparr>bound_to := None\<rparr>) (ensure_parts s))
         else if \<not> bind_succeeds sys endpoint then (Throws Bind_failed, set_acceptor (a\<lparr>bound_to := None\<rparr>) (ensure_parts s))
         else if \<not> after_bind_ok sys then (Throws After_bind_failed, set_acceptor a (ensure_parts s))
         else if \<not> listen_succeeds sys then (Throws Listen_failed, set_acceptor a (ensure_parts s))
         else (Returns, run_loop cfg cb (port_given sys) (the (loop_of ?s)) ?s))"
      using addr Inr by (auto simp: start_server_def Let_def a_def)
    show thesis
    proof (cases "reuse_set sys \<and> bind_succeeds sys endpoint \<and> after_bind_ok sys \<and> listen_succeeds sys")
      case True
      then show thesis
        by (intro listens [of "run_loop cfg cb (port_given sys) (the (loop_of ?s)) ?s" "a\<lparr>listening := True\<rparr>"])
          (simp_all add: eq set_acceptor_def a_def)
    next
      case False
      have "acceptor_open a" "\<not> listening a" "acceptor_open (a\<lparr>bound_to := None\<rparr>)" "\<not> listening (a\<lparr>bound_to := None\<rparr>)"
        by (simp_all add: a_def)
      moreover have "config_address cfg = [] \<or> address_parses cfg" using addr by (auto simp: make_address_def)
      ultimately show thesis
        using False left_open [OF _ _ _ closed] by (cases "reuse_set sys"; cases "bind_succeeds sys endpoint"; cases "after_bind_ok sys") (auto simp: eq)
    qed
  qed
qed

lemma start_terminates:
  "fst (start_server cfg sys cb s) = Terminates \<longleftrightarrow> config_address cfg \<noteq> [] \<and> \<not> address_parses cfg"
  unfolding start_server_def Let_def
  by (auto simp: make_address_def split: sum.split)

lemma start_ok:
  assumes "life_ok s" and "start_server cfg sys cb s = (e, s')"
  shows "life_ok s'"
proof (rule start_cases [of cfg sys cb s])
  fix e' a
  assume a: "start_server cfg sys cb s = (Throws e', set_acceptor a (ensure_parts s))" "acceptor_open a" "\<not> listening a"
    "\<not> acceptor_open (the (acceptor_of (ensure_parts s)))"
  obtain a0 where a0: "acceptor_of (ensure_parts s) = Some a0" using ensure_parts_simps(1) by blast
  with ensure_parts_ok [OF assms(1)] a(4) have "\<not> waiting (ensure_parts s)" by (auto simp: life_ok_def)
  with a assms(2) ensure_parts_simps(2) [of s] show ?thesis by (auto simp: life_ok_def set_acceptor_def)
qed (use assms ensure_parts_ok in \<open>auto simp: life_ok_def\<close>)

lemma start_stopped:
  assumes "acceptor_of s = Some a" and "\<not> acceptor_open a" and "config_address cfg = [] \<or> address_parses cfg"
  shows "fst (start_server cfg sys cb s) = Returns \<longleftrightarrow>
    start_endpoint (config_address cfg) (open_for sys) \<noteq> None \<and> reuse_set sys \<and>
    bind_succeeds sys (the (start_endpoint (config_address cfg) (open_for sys))) \<and>
    after_bind_ok sys \<and> listen_succeeds sys"
proof -
  have "the (acceptor_of (ensure_parts s)) = a" using ensure_parts_simps(1) [of s] assms(1) by auto
  then show ?thesis
    using assms(2,3) by (auto simp: start_server_def open_acceptor_def make_address_def Let_def split: option.splits)
qed

lemma start_open:
  assumes "acceptor_of s = Some a" and "acceptor_open a" and "config_address cfg = [] \<or> address_parses cfg"
  shows "fst (start_server cfg sys cb s) = Throws Already_open"
proof -
  have "the (acceptor_of (ensure_parts s)) = a" using ensure_parts_simps(1) [of s] assms(1) by auto
  then show ?thesis using assms(2,3) by (auto simp: start_server_def open_acceptor_def make_address_def Let_def)
qed

lemma stop_closes_acceptor:
  assumes "acceptor_of s = Some a"
  shows "acceptor_of (stop_life s) = Some (a\<lparr>acceptor_open := False, bound_to := None, listening := False\<rparr>)"
  using assms by (cases "loop_of s") (simp_all add: stop_life_def set_acceptor_def Let_def)

section \<open>Properties\<close>


definition in_use :: system_answers where
  "in_use = \<lparr>open_for = (\<lambda>_. None), reuse_set = True, bind_succeeds = (\<lambda>_. False), after_bind_ok = True,
     port_given = 8080, listen_succeeds = True\<rparr>"

definition one_thread :: config where
  "one_thread = \<lparr>config_address = [], address_parses = True, thread_pool_size = 1\<rparr>"


end
