(* ===== verification/Gateway_Interleaving.thy ===== *)
theory Gateway_Interleaving
  imports Gateway_Properties
begin

text \<open>
  Two threads: the timer's walks through the buffer of callbacks in \<open>emit\<close> of
  \<open>src/src/clib/simple_signal.hpp\<close> without holding the mutex of the observables, and the
  server's handles requests of \<open>src/src/http-server.cpp\<close> in between, so callbacks come and go
  while the walk is under way. Here one step of the walk, with the callback it calls, and
  one request are atomic, in any order.
\<close>

section \<open>The walk, step by step\<close>

text \<open>How many callbacks are left to call, as counted at the beginning, and the cell it is at.\<close>

datatype timer_thread = Idle | Emitting nat nat

definition emit_begin :: "('w, 'd) gateway \<Rightarrow> timer_thread" where
  "emit_begin st = Emitting (size_of (timer st)) 0"

definition emit_advance ::
  "('w, 'p, 'd) env \<Rightarrow> nat \<Rightarrow> nat \<Rightarrow> ('w, 'd) gateway \<Rightarrow> (timer_thread \<times> ('w, 'd) gateway) outcome" where
  "emit_advance env left p st =
     (if left = 0 \<or> length (cells (timer st)) \<le> p then Ok (Idle, st)
      else (case cells (timer st) ! p of
              Null \<Rightarrow> Ok (Emitting left (Suc p), st)
            | Link q \<Rightarrow> (if is_inside_buff (timer st) q then Ok (Emitting left (Suc p), st) else Undefined)
            | Fn h \<Rightarrow> (case timer_callback env p h st of
                         Ok st' \<Rightarrow> Ok (Emitting (left - 1) (Suc p), st')
                       | Throw \<Rightarrow> Throw | Undefined \<Rightarrow> Undefined)))"

inductive interleaved :: "('w, 'p, 'd) env \<Rightarrow> 'w \<Rightarrow> timer_thread \<Rightarrow> ('w, 'd) gateway \<Rightarrow> bool" for env w where
  start: "interleaved env w Idle (gateway_start w)"
| request: "interleaved env w th st \<Longrightarrow> handle_request env req st = Some r \<Longrightarrow> result_state r = Some st' \<Longrightarrow>
    no_reuse st st' \<Longrightarrow> interleaved env w th st'"
| begins: "interleaved env w Idle st \<Longrightarrow> interleaved env w (emit_begin st) st"
| advances: "interleaved env w (Emitting left p) st \<Longrightarrow> emit_advance env left p st = Ok (th', st') \<Longrightarrow>
    interleaved env w th' st'"

inductive_cases interleavedE: "interleaved env w th st"

section \<open>Every step is defined\<close>

lemma emit_advance_ok:
  assumes ok: "gateway_ok st" and env: "env_ok env"
  shows "\<exists>th' st'. emit_advance env left p st = Ok (th', st') \<and> gateway_ok st'"
proof (cases "left = 0 \<or> length (cells (timer st)) \<le> p")
  case True
  with ok show ?thesis by (simp add: emit_advance_def)
next
  case False
  then have p: "p < length (cells (timer st))" by simp
  show ?thesis
  proof (cases "cells (timer st) ! p")
    case Null
    with False ok show ?thesis by (simp add: emit_advance_def)
  next
    case (Link q)
    with False ok wf_links_inside [OF gateway_okD(1) [OF ok] p] show ?thesis by (simp add: emit_advance_def)
  next
    case (Fn h)
    with p have "slot (timer st) (Some p) = Some h" by (simp add: slot_Some_iff)
    from callback_ok [OF ok env this] False Fn show ?thesis by (auto simp: emit_advance_def)
  qed
qed

lemma interleaved_ok:
  assumes "interleaved env w th st" and "env_ok env"
  shows "gateway_ok st"
  using assms(1)
proof induction
  case start
  show ?case by (rule gateway_ok_start)
next
  case (request th st req r st')
  from request_keeps [OF request.IH assms(2) request.hyps(2)] request.hyps(3,4) show ?case by (auto simp: keeps_def)
next
  case (advances left p st th' st')
  from emit_advance_ok [OF advances.IH assms(2), of left p] advances.hyps(2) show ?case by auto
qed

section \<open>Without requests in between the walk is a tick\<close>

lemma emit_loop_advance:
  assumes "p < length (cells (timer st))"
  shows "emit_loop timer (timer_callback env) left [p..<length (cells (timer st))] st =
    (case emit_advance env left p st of
       Ok (Idle, st') \<Rightarrow> Ok st'
     | Ok (Emitting left' p', st') \<Rightarrow> emit_loop timer (timer_callback env) left' [p'..<length (cells (timer st))] st'
     | Throw \<Rightarrow> Throw | Undefined \<Rightarrow> Undefined)"
proof -
  have "[p..<length (cells (timer st))] = p # [Suc p..<length (cells (timer st))]" using assms by (rule upt_conv_Cons)
  then show ?thesis
    using assms by (simp add: emit_advance_def split: cell.split outcome.split)
qed

text \<open>The steps the walk takes from a cell to the end, alone.\<close>

fun walk :: "('w, 'p, 'd) env \<Rightarrow> nat \<Rightarrow> timer_thread \<Rightarrow> ('w, 'd) gateway \<Rightarrow> (timer_thread \<times> ('w, 'd) gateway) outcome" where
  "walk env 0 th st = Ok (th, st)"
| "walk env (Suc n) Idle st = Ok (Idle, st)"
| "walk env (Suc n) (Emitting left p) st =
     (case emit_advance env left p st of Ok (th', st') \<Rightarrow> walk env n th' st' | Throw \<Rightarrow> Throw | Undefined \<Rightarrow> Undefined)"

lemma emit_advance_length:
  assumes "gateway_ok st" and "env_ok env" and "emit_advance env left p st = Ok (th', st')"
  shows "length (cells (timer st')) = length (cells (timer st))"
proof (cases "left = 0 \<or> length (cells (timer st)) \<le> p")
  case True
  with assms(3) show ?thesis by (auto simp: emit_advance_def)
next
  case False
  show ?thesis
  proof (cases "cells (timer st) ! p")
    case (Fn h)
    with False have "slot (timer st) (Some p) = Some h" by (simp add: slot_Some_iff)
    from callback_ok [OF assms(1,2) this] False Fn assms(3) show ?thesis
      by (auto simp: emit_advance_def frame_def)
  qed (use False assms(3) in \<open>auto simp: emit_advance_def split: if_splits\<close>)
qed

lemma walk_Idle [simp]: "walk env n Idle st = Ok (Idle, st)"
  by (cases n) simp_all

lemma emit_loop_done [simp]: "emit_loop sg run 0 ps st = Ok st"
  by (cases ps) simp_all

lemma emit_advance_thread:
  assumes "emit_advance env left p st = Ok (th', st')" and "0 < left" and "p < length (cells (timer st))"
  shows "\<exists>left'. th' = Emitting left' (Suc p)"
  using assms by (auto simp: emit_advance_def split: cell.splits outcome.splits if_splits)

lemma walk_loop:
  assumes "gateway_ok st" and "env_ok env" and "p \<le> length (cells (timer st))" and "length (cells (timer st)) < n + p"
  shows "walk env n (Emitting left p) st =
    (case emit_loop timer (timer_callback env) left [p..<length (cells (timer st))] st of
       Ok st' \<Rightarrow> Ok (Idle, st') | Throw \<Rightarrow> Throw | Undefined \<Rightarrow> Undefined)"
  using assms(1,3,4)
proof (induction n arbitrary: p left st)
  case 0
  then show ?case by simp
next
  case (Suc n)
  show ?case
  proof (cases "left = 0 \<or> p = length (cells (timer st))")
    case True
    then have "emit_advance env left p st = Ok (Idle, st)" by (auto simp: emit_advance_def)
    with True show ?thesis by auto
  next
    case False
    then have p: "p < length (cells (timer st))" "0 < left" using Suc.prems(2) by auto
    obtain th' st' where a: "emit_advance env left p st = Ok (th', st')" "gateway_ok st'"
      using emit_advance_ok [OF Suc.prems(1) assms(2)] by blast
    obtain left' where th: "th' = Emitting left' (Suc p)" using emit_advance_thread [OF a(1) p(2,1)] by blast
    note len = emit_advance_length [OF Suc.prems(1) assms(2) a(1)]
    have "walk env n (Emitting left' (Suc p)) st' =
        (case emit_loop timer (timer_callback env) left' [Suc p..<length (cells (timer st'))] st' of
           Ok st' \<Rightarrow> Ok (Idle, st') | Throw \<Rightarrow> Throw | Undefined \<Rightarrow> Undefined)"
      by (rule Suc.IH) (use a(2) len p(1) Suc.prems(3) in simp_all)
    then show ?thesis by (simp add: emit_loop_advance [OF p(1)] a(1) th len)
  qed
qed

lemma walk_is_tick:
  assumes "gateway_ok st" and "env_ok env"
  shows "walk env (Suc (length (cells (timer st)))) (emit_begin st) st =
    (case tick env st of Ok st' \<Rightarrow> Ok (Idle, st') | Throw \<Rightarrow> Throw | Undefined \<Rightarrow> Undefined)"
  unfolding emit_begin_def tick_def emit_def by (rule walk_loop [OF assms]) simp_all

section \<open>Properties\<close>


text \<open>
  The walk counts the callbacks at its beginning: one that is connected meanwhile in a cell
  before the end of the walk takes the turn of the last one, which is not called in this tick.
\<close>
lemma added_callback_takes_turn:
  assumes "gateway_ok st" and "env_ok env" and "slot (timer st) (Some q) = Some g" and "slot (timer st) (Some r) = Some h"
    and "p \<le> q" and "q < r" and "\<And>i. p \<le> i \<Longrightarrow> i < q \<Longrightarrow> slot (timer st) (Some i) = None"
  shows "\<exists>st'. emit_loop timer (timer_callback env) 1 [p..<length (cells (timer st))] st = Ok st' \<and>
    observed st' h = observed st h \<and> measured env st st' q g"
proof -
  obtain st' where c: "timer_callback env q g st = Ok st'" "measured env st st' q g" "frame st st' {q} {g}"
    using callback_ok [OF assms(1-3)] by blast
  have q: "q < length (cells (timer st))" "cells (timer st) ! q = Fn g"
    using assms(3) by (auto simp: slot_Some_iff)
  have skip: "emit_loop timer (timer_callback env) 1 [p..<length (cells (timer st))] st =
      emit_loop timer (timer_callback env) 1 [q..<length (cells (timer st))] st"
    using assms(5,7)
  proof (induction rule: inc_induct)
    case (step i)
    have i: "i < length (cells (timer st))" using step.hyps q(1) by simp
    have "slot (timer st) (Some i) = None" using step by simp
    then have "\<not> is_fn (cells (timer st) ! i)" using i by (cases "cells (timer st) ! i") (auto simp: slot_Some_iff slot_def)
    then have "emit_loop timer (timer_callback env) 1 [i..<length (cells (timer st))] st =
        emit_loop timer (timer_callback env) 1 [Suc i..<length (cells (timer st))] st"
      using wf_links_inside [OF gateway_okD(1) [OF assms(1)] i] i
      by (cases "cells (timer st) ! i") (simp_all add: upt_conv_Cons)
    with step show ?case by simp
  qed simp
  have "emit_loop timer (timer_callback env) 1 [q..<length (cells (timer st))] st = Ok st'"
    using q c(1) by (simp add: upt_conv_Cons)
  moreover have "h \<noteq> g" using registered_slot_unique [OF assms(1,4)] assms(3,6) by blast
  then have "observed st' h = observed st h" using c(3) by (simp add: frame_def)
  ultimately show ?thesis using skip c(2) by auto
qed


end
