(* ===== verification/Lock_Step.thy ===== *)
theory Lock_Step
  imports Client_Request
begin

text \<open>
  A client of \<open>src/src/http/client_http.hpp\<close> and a server of \<open>src/src/http/server_http.hpp\<close> on one
  connection: the client sends its next request when it has the reply to the last one, the
  server reads the connection again after a response. What a server does with one request
  is an argument; the interface \<open>lock_step\<close> says what it promises, and that the conversation is
  then the one the requests mean is proved once for every server.
\<close>

section \<open>The calls of a client\<close>

record client_call =
  call_method :: bytes
  call_path :: bytes
  call_query :: "bytes option"
  call_content :: bytes
  call_header :: headers

definition call_bytes :: "client \<Rightarrow> client_call \<Rightarrow> bytes" where
  "call_bytes c call = request_bytes c (call_method call) (target_text (call_path call) (call_query call))
     (call_content call) (call_header call)"

definition call_message :: "client \<Rightarrow> client_call \<Rightarrow> request_message" where
  "call_message c call = parsed_request (call_method call) (call_path call) (call_query call) ''1.1''
     (framed c (call_content call) (call_header call))"

definition call_ok :: "client \<Rightarrow> nat \<Rightarrow> client_call \<Rightarrow> bool" where
  "call_ok c max_size call \<longleftrightarrow>
     head_ok (call_method call) (call_path call) (call_query call) ''1.1'' (framed c (call_content call) (call_header call)) \<and>
     corrected_path c (target_text (call_path call) (call_query call)) = target_text (call_path call) (call_query call) \<and>
     header_find ''Content-Length'' (call_header call) = None \<and>
     header_find ''Transfer-Encoding'' (call_header call) \<noteq> Some ''chunked'' \<and>
     length (request_text (call_method call) (target_text (call_path call) (call_query call)) ''1.1''
       (framed c (call_content call) (call_header call))) \<le> max_size \<and>
     length (call_content call) \<le> max_size \<and> length (call_content call) < 2 ^ 64"

lemma call_read:
  assumes "transport pending read_until read_exactly" and "call_ok c max_size call" and "pending net = call_bytes c call"
  shows "\<exists>net'. server_read read_until read_exactly max_size net =
    Some (Ready (call_message c call) (call_content call) net') \<and> pending net' = []"
proof -
  from assms(2) have ok:
    "head_ok (call_method call) (call_path call) (call_query call) ''1.1'' (framed c (call_content call) (call_header call))"
    "corrected_path c (target_text (call_path call) (call_query call)) = target_text (call_path call) (call_query call)"
    "header_find ''Content-Length'' (call_header call) = None"
    "header_find ''Transfer-Encoding'' (call_header call) \<noteq> Some ''chunked''"
    "length (request_text (call_method call) (target_text (call_path call) (call_query call)) ''1.1''
       (framed c (call_content call) (call_header call))) \<le> max_size"
    "length (call_content call) \<le> max_size" "length (call_content call) < 2 ^ 64"
    by (auto simp only: call_ok_def)
  have "pending net = request_bytes c (call_method call) (target_text (call_path call) (call_query call))
      (call_content call) (call_header call) @ []" using assms(3) by (simp add: call_bytes_def)
  from client_request_read [OF assms(1) ok(1,2) this ok(3-7)] show ?thesis by (auto simp: call_message_def)
qed

section \<open>The conversation\<close>

text \<open>One turn of the server: its reply in pieces, and the connection is read again; or what it
  has sent before it dropped the connection; or the server is gone.\<close>

datatype ('s, 'net) turn = Again "bytes list" 's 'net | Last "bytes list list" 's | Gone

datatype 's talk_end = Reads_again 's | Dropped 's | Server_gone

text \<open>The replies to all requests, and how the connection ended.\<close>

fun converse ::
  "('net \<Rightarrow> 's \<Rightarrow> ('s, 'net) turn option) \<Rightarrow> ('net \<Rightarrow> 'call \<Rightarrow> 'net) \<Rightarrow> 'call list \<Rightarrow> 'net \<Rightarrow> 's \<Rightarrow>
   (bytes list list \<times> 's talk_end) option"
where
  "converse serve sent_to [] net st = Some ([], Reads_again st)"
| "converse serve sent_to (call # later) net st =
     (case serve (sent_to net call) st of
        None \<Rightarrow> None
      | Some (Again bufs st' net') \<Rightarrow>
          map_option (\<lambda>(replies, e). (bufs # replies, e)) (converse serve sent_to later net' st')
      | Some (Last replies st') \<Rightarrow> Some (replies, Dropped st')
      | Some Gone \<Rightarrow> Some ([], Server_gone))"

text \<open>The same without a network: each request is answered as it is meant.\<close>

fun replied ::
  "('call \<Rightarrow> 's \<Rightarrow> ('s, unit) turn option) \<Rightarrow> 'call list \<Rightarrow> 's \<Rightarrow> (bytes list list \<times> 's talk_end) option"
where
  "replied meaning [] st = Some ([], Reads_again st)"
| "replied meaning (call # later) st =
     (case meaning call st of
        None \<Rightarrow> None
      | Some (Again bufs st' _) \<Rightarrow> map_option (\<lambda>(replies, e). (bufs # replies, e)) (replied meaning later st')
      | Some (Last replies st') \<Rightarrow> Some (replies, Dropped st')
      | Some Gone \<Rightarrow> Some ([], Server_gone))"

fun on_net :: "'net \<Rightarrow> ('s, unit) turn \<Rightarrow> ('s, 'net) turn" where
  "on_net net (Again bufs st _) = Again bufs st net"
| "on_net net (Last replies st) = Last replies st"
| "on_net net Gone = Gone"

section \<open>The interface\<close>

text \<open>\<open>serve\<close> takes one request from a connection, on which \<open>sent_to\<close> has put the bytes of a
  call. The law: on an idle connection a good call is served as it is meant, and the
  connection is idle again. Then so is every conversation.\<close>

locale lock_step =
  fixes serve :: "'net \<Rightarrow> 's \<Rightarrow> ('s, 'net) turn option"
    and meaning :: "'call \<Rightarrow> 's \<Rightarrow> ('s, unit) turn option"
    and sent_to :: "'net \<Rightarrow> 'call \<Rightarrow> 'net"
    and idle :: "'net \<Rightarrow> bool"
    and good :: "'call \<Rightarrow> bool"
  assumes served: "idle net \<Longrightarrow> good call \<Longrightarrow>
    \<exists>net'. idle net' \<and> serve (sent_to net call) st = map_option (on_net net') (meaning call st)"
begin

lemma converse_replied:
  assumes "idle net" and "list_all good later"
  shows "converse serve sent_to later net st = replied meaning later st"
  using assms
proof (induction later arbitrary: net st)
  case Nil
  then show ?case by simp
next
  case (Cons call later)
  obtain net' where s: "idle net'" "serve (sent_to net call) st = map_option (on_net net') (meaning call st)"
    using served [of net call st] Cons.prems by auto
  show ?case
  proof (cases "meaning call st")
    case (Some t)
    then show ?thesis using s Cons.IH [OF s(1)] Cons.prems(2) by (cases t) auto
  qed (simp add: s(2))
qed

end

end
