(* ===== verification/Gateway_Dialogue.thy ===== *)
theory Gateway_Dialogue
  imports Round_Trip Lock_Step
begin

text \<open>
  A persistent connection: a client of \<open>src/src/http/client_http.hpp\<close> that sends its next request
  when it has the reply to the last one, and the gateway, whose \<open>write\<close> of
  \<open>src/src/http/server_http.hpp\<close> reads the connection again after a response. The dialogue is
  the sequence of the answers to the requests. A client that does not wait is another
  matter: what follows a request in the same buffer counts as its content.
\<close>

section \<open>The dialogue\<close>

text \<open>A turn of the gateway. \<open>arrive\<close> adds what the client sends to the stream.\<close>

fun turn_of :: "('w, 'd, 'net) served \<Rightarrow> (('w, 'd) gateway, 'net) turn" where
  "turn_of (Answered bufs Read_again st net) = Again bufs st net"
| "turn_of (Answered bufs Drop st net) = Last [bufs] st"
| "turn_of (Unanswered_request e st) = Last [] st"
| "turn_of Ends_server = Gone"
| "turn_of Out_of_bounds = Gone"

definition dialogue ::
  "('w, 'p, 'd) env \<Rightarrow> files \<Rightarrow> time_point \<Rightarrow> 'net read_until \<Rightarrow> 'net read_exactly \<Rightarrow> nat \<Rightarrow> ('net \<Rightarrow> bytes \<Rightarrow> 'net) \<Rightarrow>
   client \<Rightarrow> client_call list \<Rightarrow> 'net \<Rightarrow> ('w, 'd) gateway \<Rightarrow> (bytes list list \<times> ('w, 'd) gateway talk_end) option"
where
  "dialogue env fs start_time read_until read_exactly max_size arrive c =
     converse (\<lambda>net st. map_option turn_of (serve_request env fs start_time read_until read_exactly max_size net st))
       (\<lambda>net call. arrive net (call_bytes c call))"

text \<open>The same without a network: each request is answered as it is meant.\<close>

definition answers ::
  "('w, 'p, 'd) env \<Rightarrow> files \<Rightarrow> time_point \<Rightarrow> client \<Rightarrow> client_call list \<Rightarrow> ('w, 'd) gateway \<Rightarrow>
   (bytes list list \<times> ('w, 'd) gateway talk_end) option"
where
  "answers env fs start_time c = replied (\<lambda>call st.
     map_option turn_of (respond env fs start_time (call_message c call) (call_content call) () st))"

section \<open>The answer does not depend on the network\<close>

fun with_net :: "'net \<Rightarrow> ('w, 'd, unit) served \<Rightarrow> ('w, 'd, 'net) served" where
  "with_net net (Answered bufs k st _) = Answered bufs k st net"
| "with_net net (Unanswered_request e st) = Unanswered_request e st"
| "with_net net Ends_server = Ends_server"
| "with_net net Out_of_bounds = Out_of_bounds"

lemma respond_with_net:
  "respond env fs start_time m content net st = map_option (with_net net) (respond env fs start_time m content () st)"
proof -
  have "(case handled of
              Replied response st' \<Rightarrow> Answered [streambuf response] (after_response False response m) st' net
            | Thrown response st' \<Rightarrow> Answered [streambuf response] (after_response False response m) st' net
            | Broken \<Rightarrow> Out_of_bounds) =
        with_net net (case handled of
              Replied response st' \<Rightarrow> Answered [streambuf response] (after_response False response m) st' ()
            | Thrown response st' \<Rightarrow> Answered [streambuf response] (after_response False response m) st' ()
            | Broken \<Rightarrow> Out_of_bounds)" for handled :: "('a, 'b) handled"
    by (cases handled) simp_all
  then show ?thesis by (simp add: respond_def option.map_comp comp_def split: service.split)
qed

lemma call_served:
  assumes "transport pending read_until read_exactly" and "call_ok c max_size call" and "pending net = call_bytes c call"
  obtains net' where "serve_request env fs start_time read_until read_exactly max_size net st =
    map_option (with_net net') (respond env fs start_time (call_message c call) (call_content call) () st)"
    and "pending net' = []"
proof -
  obtain net' where "serve_request env fs start_time read_until read_exactly max_size net st =
      respond env fs start_time (call_message c call) (call_content call) net' st" and "pending net' = []"
    using call_read [OF assms] by (auto simp: serve_request_def)
  then show thesis unfolding respond_with_net [of _ _ _ _ _ net'] by (rule that)
qed

lemma turn_with_net: "turn_of (with_net net r) = on_net net (turn_of r)"
proof (cases r)
  case (Answered bufs k st net')
  then show ?thesis by (cases k) simp_all
qed simp_all

text \<open>The gateway keeps the law of \<open>lock_step\<close> over every network that delivers what is sent.\<close>

interpretation gw: lock_step
  "\<lambda>net st. map_option turn_of (serve_request env fs start_time read_until read_exactly max_size net st)"
  "\<lambda>call st. map_option turn_of (respond env fs start_time (call_message c call) (call_content call) () st)"
  "\<lambda>net call. arrive net (call_bytes c call)"
  "\<lambda>net. transport pending read_until read_exactly \<and> (\<forall>net x. pending (arrive net x) = pending net @ x) \<and> pending net = []"
  "call_ok c max_size"
  for env fs start_time read_until read_exactly max_size arrive c pending
proof (standard, goal_cases)
  case (1 net call st)
  then have t: "transport pending read_until read_exactly" and ok: "call_ok c max_size call"
    and p: "pending (arrive net (call_bytes c call)) = call_bytes c call" by simp_all
  obtain net' where "serve_request env fs start_time read_until read_exactly max_size (arrive net (call_bytes c call)) st =
      map_option (with_net net') (respond env fs start_time (call_message c call) (call_content call) () st)" "pending net' = []"
    by (rule call_served [OF t ok p])
  with 1 show ?case by (intro exI [of _ net']) (simp add: option.map_comp comp_def turn_with_net)
qed

section \<open>A client that does not wait\<close>

text \<open>A second request in the same segment is taken for content of the first one, and is not
  answered: the stream is empty when the connection is read again.\<close>

lemma pipelined_request_in_content:
  assumes "transport pending read_until read_exactly" and "head_ok meth target query version header"
    and "pending net = request_text meth (target_text target query) version header @ body @ next_request"
    and "header_find ''Content-Length'' header = Some v" and "stoul 10 v = Ok (length body)"
    and "length (request_text meth (target_text target query) version header) \<le> max_size" and "length body \<le> max_size"
  shows "\<exists>eaten net'. serve_request env fs start_time read_until read_exactly max_size net st =
      respond env fs start_time (parsed_request meth target query version header) (body @ eaten) net' st \<and>
    eaten @ pending net' = next_request"
  using serve_sized [OF assms] by metis

section \<open>Properties\<close>

text \<open>
  C10: On a persistent connection, over any network that delivers what is sent, however it cuts
  it, a client that waits for each reply gets to each request exactly the answer meant for
  it, in order: the bytes between two requests are never mixed, and the gateway changes as
  if the requests were handed to it one after the other without a network.
\<close>
theorem dialogue_in_order:
  assumes "transport pending read_until read_exactly" and "\<And>net x. pending (arrive net x) = pending net @ x"
    and "list_all (call_ok c max_size) reqs" and "pending net = []"
  shows "dialogue env fs start_time read_until read_exactly max_size arrive c reqs net st = answers env fs start_time c reqs st"
  unfolding dialogue_def answers_def by (rule gw.converse_replied [where pending = pending]) (use assms in auto)

definition demo_call :: client_call where
  "demo_call = \<lparr>call_method = ''POST'', call_path = ''/remove-observable/'' @ to_string 7, call_query = None,
     call_content = [], call_header = []\<rparr>"

theorem dialogue_in_order_witness:
  "dialogue (demo_env 3) demo_files 0 segments_until segments_exactly 100 (\<lambda>net x. net @ [take 20 x, drop 20 x]) demo_client
      [demo_call, demo_call] [] (gateway_start 0) =
    answers (demo_env 3) demo_files 0 demo_client [demo_call, demo_call] (gateway_start 0)"
proof (rule dialogue_in_order [OF transport_segments])
  show "list_all (call_ok demo_client 100) [demo_call, demo_call]"
    using demo_removal by (simp add: call_ok_def demo_call_def target_text_def corrected_path_def)
qed simp_all

end
