(* ===== verification/Observable_Lifecycle.thy ===== *)
theory Observable_Lifecycle
  imports Gateway_Properties
begin

text \<open>
  The life of an observable in the gateway of \<open>src/src/http-server.cpp\<close>, across its requests
  and the ticks of the timer: it is added, measured by every tick, reported by
  \<open>get-iotdata\<close>, removed, and its callback is retired by the tick after that. Between these
  steps other requests and ticks may come in any order.
\<close>

section \<open>The measurements of one observable\<close>

text \<open>\<open>history env obs0 n obs\<close>: \<open>obs\<close> is \<open>obs0\<close>, which had no values, after \<open>n\<close> calls of its
  callback: it keeps the latest fifty of at most \<open>n\<close> measurements, of exactly \<open>n\<close> if it has
  no interval to wait for.\<close>

definition history :: "('w, 'p, 'd) env \<Rightarrow> 'd observable \<Rightarrow> nat \<Rightarrow> 'd observable \<Rightarrow> bool" where
  "history env obs0 n obs \<longleftrightarrow>
     (\<exists>ms l. obs = obs0\<lparr>vals := drop (length ms - 50) ms, latest_observation := l\<rparr> \<and>
        length ms \<le> n \<and> (interval obs0 = 0 \<longrightarrow> length ms = n) \<and>
        (\<forall>m \<in> set ms. \<exists>w. snd m = fst (measured_value env obs0 w)))"

lemma history_none: "vals obs0 = [] \<Longrightarrow> history env obs0 0 obs0"
  by (auto simp: history_def intro: exI [of _ "latest_observation obs0"])

lemma measured_value_source [simp]:
  "measured_value env (obs\<lparr>vals := vs, latest_observation := l\<rparr>) = measured_value env obs"
  by (rule ext, cases "protocol obs") (simp_all add: measured_value_def Let_def split: prod.split option.split)

lemma drop_latest:
  "drop (Suc (length (drop (length xs - 50) xs)) - 50) (drop (length xs - 50) xs @ [x]) =
    drop (Suc (length xs) - 50) (xs @ [x])"
proof (cases "length xs < 50")
  case False
  then have "Suc (length xs - 50) = length xs - 49" by arith
  with False show ?thesis by (simp add: Suc_diff_le)
qed simp

lemma history_observe:
  assumes "circular_push (push_back env)" and "history env obs0 n obs"
  shows "history env obs0 (Suc n) (fst (observe env obs w))"
proof -
  obtain ms l where obs: "obs = obs0\<lparr>vals := drop (length ms - 50) ms, latest_observation := l\<rparr>"
    and n: "length ms \<le> n" "interval obs0 = 0 \<Longrightarrow> length ms = n"
    and ms: "\<forall>m \<in> set ms. \<exists>w. snd m = fst (measured_value env obs0 w)"
    using assms(2) by (auto simp: history_def)
  obtain now w1 where clock: "clock env w = (now, w1)" by fastforce
  show ?thesis
  proof (cases "interval obs \<le> as_unsigned (seconds_of (now - latest_observation obs))")
    case False
    then have "interval obs0 \<noteq> 0" by (auto simp: obs)
    moreover have "fst (observe env obs w) = obs" using False by (simp add: observe_def clock)
    ultimately show ?thesis unfolding history_def using obs n(1) ms by (intro exI conjI) auto
  next
    case True
    obtain v w2 where v: "measured_value env obs w1 = (v, w2)" by fastforce
    obtain t w3 where t: "clock env w2 = (t, w3)" by fastforce
    obtain l' w4 where l': "clock env w3 = (l', w4)" by fastforce
    have "length (vals obs) \<le> 50" by (simp add: obs)
    from addValue_keeps_recent(1) [OF assms(1) this, of t v]
    have vals: "vals (addValue (push_back env) t v obs) = drop (Suc (length ms) - 50) (ms @ [(t, v)])"
      using drop_latest [of ms "(t, v)"] by (simp add: obs)
    have "fst (observe env obs w) = (addValue (push_back env) t v obs)\<lparr>latest_observation := l'\<rparr>"
      using True by (simp add: observe_def clock v t l')
    also have "\<dots> = obs0\<lparr>vals := drop (Suc (length ms) - 50) (ms @ [(t, v)]), latest_observation := l'\<rparr>"
      using vals by (simp add: addValue_def obs)
    finally have o: "fst (observe env obs w) =
      obs0\<lparr>vals := drop (length (ms @ [(t, v)]) - 50) (ms @ [(t, v)]), latest_observation := l'\<rparr>" by simp
    have "v = fst (measured_value env obs0 w1)" using v by (simp add: obs)
    then have "\<forall>m \<in> set (ms @ [(t, v)]). \<exists>w. snd m = fst (measured_value env obs0 w)" using ms by auto
    with o n show ?thesis unfolding history_def by (intro exI [of _ "ms @ [(t, v)]"] exI [of _ l'] conjI) auto
  qed
qed

section \<open>Requests that concern other observables\<close>

fun concerns :: "nat \<Rightarrow> request \<Rightarrow> bool" where
  "concerns h (Update path_match content) = (case stoi (group path_match 1) of Ok v \<Rightarrow> as_unsigned v = h | _ \<Rightarrow> False)"
| "concerns h (Remove path_match) = (case stoi (group path_match 1) of Ok v \<Rightarrow> as_unsigned v = h | _ \<Rightarrow> False)"
| "concerns h req = False"

definition leaves :: "nat \<Rightarrow> ('w, 'd) gateway \<Rightarrow> ('w, 'd) handled \<Rightarrow> bool" where
  "leaves h st r \<longleftrightarrow> (\<forall>st'. result_state r = Some st' \<longrightarrow>
     observed st' h = observed st h \<and> (registered st h \<longrightarrow> registered st' h))"

lemma registered_simps [simp]:
  "registered (st\<lparr>observables := t\<rparr>) = registered st" "registered (st\<lparr>draws := k\<rparr>) = registered st"
  "registered (st\<lparr>world := w\<rparr>) = registered st" "registered (st\<lparr>observable_callbacks := cbs\<rparr>) = registered st"
  by (simp_all add: fun_eq_iff registered_def)

lemma leaves_same: "result_state r = Some st \<Longrightarrow> leaves h st r"
  by (simp add: leaves_def)

lemma leaves_simps [simp]: "leaves h st (Replied response st)" "leaves h st (Thrown response st)" "leaves h st Broken"
  by (simp_all add: leaves_def)

lemma leaves_world: "result_state r = Some (st\<lparr>world := w\<rparr>) \<Longrightarrow> leaves h st r"
  by (simp add: leaves_def observed_def registered_def)

lemma leaves_table:
  "result_state r = Some (st\<lparr>observables := t\<rparr>) \<Longrightarrow> session t h = session (observables st) h \<Longrightarrow> leaves h st r"
  by (simp add: leaves_def observed_def registered_def)

lemma leaves_with_handle:
  assumes "\<And>v. stoi (group path_match 1) = Ok v \<Longrightarrow> leaves h st (body (as_unsigned v))"
  shows "leaves h st (with_handle path_match st body)"
  using assms by (simp add: with_handle_def split: outcome.split)

lemma update_leaves:
  assumes "gateway_ok st" and "\<not> concerns h (Update path_match content)"
  shows "leaves h st (update_observable env path_match content st)"
  unfolding update_observable_def
proof (rule leaves_with_handle)
  fix v assume "stoi (group path_match 1) = Ok v"
  then have "as_unsigned v \<noteq> h" using assms(2) by simp
  then show "leaves h st (case dispatch_update env content of
         Inl message \<Rightarrow> Replied (bad_request message) st
       | Inr (location, device, param) \<Rightarrow>
      (case modify (observables st) (as_unsigned v)
              (\<lambda>obs. (relocate location obs)\<lparr>device_name := device, param_name := param\<rparr>) of
         Throw \<Rightarrow> Replied not_found st
       | Undefined \<Rightarrow> Broken
       | Ok table' \<Rightarrow>
           try_answer env (result_success env) (st\<lparr>observables := table'\<rparr>)))"
    by (auto dest!: ses.upd_ok [OF gateway_okD(2) [OF assms(1)]] intro!: leaves_table
        split: sum.split outcome.split)
qed

lemma remove_leaves:
  assumes "gateway_ok st" and "\<not> concerns h (Remove path_match)"
  shows "leaves h st (remove_observable env path_match st)"
  unfolding remove_observable_def
proof (rule leaves_with_handle)
  fix v assume "stoi (group path_match 1) = Ok v"
  then have "as_unsigned v \<noteq> h" using assms(2) by simp
  then show "leaves h st (case remove (observables st) (as_unsigned v) of
         Throw \<Rightarrow> Replied not_found st
       | Undefined \<Rightarrow> Broken
       | Ok table' \<Rightarrow>
           try_answer env (result_success env) (st\<lparr>observables := table'\<rparr>))"
    by (auto dest!: ses.del_ok [OF gateway_okD(2) [OF assms(1)]] intro!: leaves_table split: outcome.split)
qed

lemma add_leaves:
  assumes "gateway_ok st" and "observed st h \<noteq> None" and "add_new_observable env content st = Some r"
  shows "leaves h st r"
  using assms(1,3)
proof (cases rule: add_cases)
  case same
  then show ?thesis by (rule leaves_same)
next
  case (connected g v t k w sl tm)
  have "h \<noteq> g" using assms(2) connected(4) by auto
  moreover have "slot tm (Some p) = Some h" if "slot (timer st) (Some p) = Some h" for p
    using sig.conn_ok [OF gateway_okD(1) [OF assms(1)] connected(6)] that by auto
  ultimately show ?thesis
    using connected(5,7) by (simp add: leaves_def observed_def) (auto simp: registered_def)
next
  case (orphan g v t k w cbs)
  have "h \<noteq> g" using assms(2) orphan(3) by auto
  then show ?thesis using orphan(4,6) by (simp add: leaves_def observed_def)
qed

lemma other_request_leaves:
  assumes "gateway_ok st" and "observed st h \<noteq> None" and "handle_request env req st = Some r" and "\<not> concerns h req"
  shows "leaves h st r"
proof -
  have "leaves h st (case r of (root, w) \<Rightarrow> case root of
      None \<Rightarrow> Thrown response_new (st\<lparr>world := w\<rparr>) | Some root \<Rightarrow> answer env root (st\<lparr>world := w\<rparr>))" for r
    by (cases r) (auto intro!: leaves_world split: option.split)
  then have once: "leaves h st (observe_once env content st)" for content
    by (auto simp: observe_once_def Let_def split: option.split)
  have up: "leaves h st (get_uptime env start_time st)" for start_time
    by (rule leaves_world [where w = "snd (clock env (world st))"]) (simp add: get_uptime_def case_prod_beta Let_def)
  have read: "leaves h st (get_iotdata env path_match st)" for path_match
    unfolding get_iotdata_def by (rule leaves_with_handle) (auto intro!: leaves_same split: outcome.split)
  have read_all: "leaves h st (get_iotdata_all env st)" by (rule leaves_same) (simp add: get_iotdata_all_def Let_def)
  show ?thesis
    using assms(3,4) once up read read_all update_leaves [OF assms(1)] remove_leaves [OF assms(1)] add_leaves [OF assms(1,2)]
    by (cases req) (auto simp: handle_request_def)
qed

section \<open>Undisturbed\<close>

text \<open>\<open>n\<close> ticks, and any requests that do not concern \<open>h\<close> and draw no handle too early.\<close>

inductive undisturbed :: "('w, 'p, 'd) env \<Rightarrow> nat \<Rightarrow> nat \<Rightarrow> ('w, 'd) gateway \<Rightarrow> ('w, 'd) gateway \<Rightarrow> bool" for env h where
  rest: "undisturbed env h 0 st st"
| asked: "undisturbed env h n st st1 \<Longrightarrow> handle_request env req st1 = Some r \<Longrightarrow> result_state r = Some st2 \<Longrightarrow>
    no_reuse st1 st2 \<Longrightarrow> \<not> concerns h req \<Longrightarrow> undisturbed env h n st st2"
| clocked: "undisturbed env h n st st1 \<Longrightarrow> tick env st1 = Ok st2 \<Longrightarrow> undisturbed env h (Suc n) st st2"

inductive_cases undisturbedE: "undisturbed env h n st st'"

lemma tick_of_registered:
  assumes "gateway_ok st" and "env_ok env" and "tick env st = Ok st'" and "registered st h" and "observed st h = Some obs"
  shows "gateway_ok st'" and "registered st' h" and "\<exists>w. observed st' h = Some (fst (observe env obs w))"
  using tick_fates [OF assms(1,2)] assms(3-) by (auto dest!: spec [of _ h])

lemma undisturbed_history:
  assumes "undisturbed env h n st st'" and "env_ok env" and "circular_push (push_back env)"
    and "gateway_ok st" and "registered st h" and "observed st h = Some obs0" and "vals obs0 = []"
  shows "gateway_ok st' \<and> registered st' h \<and> (\<exists>obs. observed st' h = Some obs \<and> history env obs0 n obs)"
  using assms(1,4-)
proof induction
  case (rest st)
  then show ?case by (simp add: history_none)
next
  case (asked n st st1 req r st2)
  then obtain obs where 1: "gateway_ok st1" "registered st1 h" "observed st1 h = Some obs" "history env obs0 n obs" by blast
  then have "leaves h st1 r" using other_request_leaves [OF 1(1) _ asked.hyps(2,5)] by simp
  moreover have "gateway_ok st2"
    using request_keeps [OF 1(1) assms(2) asked.hyps(2)] asked.hyps(3,4) by (auto simp: keeps_def)
  ultimately show ?case using 1 asked.hyps(3) by (simp add: leaves_def)
next
  case (clocked n st st1 st2)
  then obtain obs where 1: "gateway_ok st1" "registered st1 h" "observed st1 h = Some obs" "history env obs0 n obs" by blast
  from tick_of_registered [OF 1(1) assms(2) clocked.hyps(2) 1(2,3)] history_observe [OF assms(3) 1(4)]
  show ?case by auto
qed

section \<open>Settled states\<close>

text \<open>No callback waits for its retirement: so it is at the start, and after every tick.\<close>

definition settled :: "('w, 'd) gateway \<Rightarrow> bool" where
  "settled st \<longleftrightarrow> (\<forall>h. registered st h \<longrightarrow> observed st h \<noteq> None)"

lemma settled_start: "settled (gateway_start w)"
  by (simp add: settled_def registered_def gateway_start_def)

lemma tick_settles:
  assumes "gateway_ok st" and "env_ok env" and "tick env st = Ok st'"
  shows "settled st'"
  unfolding settled_def
proof (intro allI impI)
  fix h assume "registered st' h"
  with tick_fates [OF assms(1,2)] assms(3) show "observed st' h \<noteq> None"
    by (auto dest!: spec [of _ h] split: if_splits option.splits)
qed

lemma settled_no_reuse: "settled st \<Longrightarrow> no_reuse st st'"
  by (auto simp: settled_def no_reuse_def)

section \<open>Adding and removing\<close>

lemma dispatch_members:
  assumes "dispatch_add env content = Inr members"
  obtains root seconds where "read_json env content = Some root" and "get_size env root ''interval'' = Some seconds"
    and "\<And>obs. interval (members obs) = seconds" and "\<And>obs. vals (members obs) = vals obs"
  using assms by (auto simp: dispatch_add_def split: option.splits if_splits)

lemma get_iotdata_number:
  assumes "h < 2 ^ 31"
  shows "get_iotdata env [(1, to_string h)] st =
    (case observed st h of None \<Rightarrow> Replied not_found st | Some obs \<Rightarrow> try_answer env (observable2json env obs h) st)"
  unfolding get_iotdata_def with_handle_number [OF assms] by (simp add: get_session observed_def split: option.split)

text \<open>What removing an observable leads to: it is not found any more, and the next tick retires
  its callback.\<close>

definition retired :: "('w, 'p, 'd) env \<Rightarrow> nat \<Rightarrow> ('w, 'd) gateway \<Rightarrow> bool" where
  "retired env h st \<longleftrightarrow> observed st h = None \<and> get_iotdata env [(1, to_string h)] st = Replied not_found st \<and>
     (\<exists>st'. tick env st = Ok st' \<and> observed st' h = None \<and> \<not> registered st' h)"

lemma removed_is_retired:
  assumes "gateway_ok st" and "env_ok env" and "registered st h" and "observed st h \<noteq> None"
  obtains st' where "remove_observable env [(1, to_string h)] st = try_answer env (result_success env) st'"
    and "observed st' = (observed st)(h := None)" and "retired env h st'"
proof -
  obtain p where p: "slot (timer st) (Some p) = Some h" using assms(3) by (auto simp: registered_def)
  have h: "h < 2 ^ 31" using gateway_okD(5) [OF assms(1) p] by simp
  have d: "to_string h \<noteq> []" "\<forall>x \<in> set (to_string h). is_digit x" "group [(1, to_string h)] 1 = to_string h"
    using to_string_digits [of h] by (simp_all add: group_def)
  obtain st' where r: "remove_observable env [(1, to_string h)] st = try_answer env (result_success env) st'"
    and o: "observed st' = (observed st)(h := None)" and t: "timer st' = timer st"
    using remove_observable_outcome [OF assms(1) d, of env] h assms(4) by (auto simp: Let_def digits_val_to_string)
  have "no_reuse st st'" using o by (auto simp: no_reuse_def split: if_splits)
  then have "gateway_ok st'"
    using remove_keeps [OF assms(1), of env "[(1, to_string h)]"] unfolding r by (simp add: keeps_def)
  from tick_fates [OF this assms(2)] obtain st2 where s: "tick env st' = Ok st2"
    "if registered st' h then (case observed st' h of None \<Rightarrow> observed st2 h = None \<and> \<not> registered st2 h
       | Some obs \<Rightarrow> (\<exists>w. observed st2 h = Some (fst (observe env obs w))) \<and> registered st2 h)
     else observed st2 h = observed st' h \<and> \<not> registered st2 h" by blast
  then have "retired env h st'"
    unfolding retired_def get_iotdata_number [OF h] by (simp add: o split: if_splits)
  with r o show thesis by (rule that)
qed

lemma reported:
  assumes "gateway_ok st" and "registered st h" and "observed st h = Some obs"
  shows "get_iotdata env [(1, to_string h)] st = try_answer env (observable2json env obs h) st"
proof -
  obtain p where "slot (timer st) (Some p) = Some h" using assms(2) by (auto simp: registered_def)
  then have "h < 2 ^ 31" using gateway_okD(5) [OF assms(1)] by fastforce
  then show ?thesis unfolding get_iotdata_number [OF \<open>h < 2 ^ 31\<close>] by (simp add: assms(3))
qed

section \<open>The whole life\<close>

text \<open>
  An observable that is added while there is room, with no retirement pending, is
  registered under a new handle. However many ticks and requests that do not concern it
  follow, \<open>get-iotdata\<close> on its handle reports the members it was added with and the latest
  fifty of its measurements, one for each tick if its interval is zero and at most one for
  each tick otherwise. Removing it succeeds, it is not found from then on, and the next tick
  retires its callback.
\<close>
lemma observable_lifecycle:
  assumes "gateway_ok st" and "settled st" and "env_ok env" and "circular_push (push_back env)"
    and "fair (keygen env) 10000" and "dispatch_add env content = Inr members"
    and "count (observables st) < 10000" and "size_of (timer st) < upper_limit (timer st)"
  shows "\<exists>h st1. add_new_observable env content st =
      Some (answer env (put_int env ''handle'' (int h) (result_success env)) st1) \<and>
    observed st h = None \<and> h \<le> 10000 \<and> gateway_ok st1 \<and>
    (\<forall>n st2. undisturbed env h n st1 st2 \<longrightarrow>
      (\<exists>obs st3. history env (members (observable_new (fst (clock env (world st))) (junk_interval env))) n obs \<and>
        get_iotdata env [(1, to_string h)] st2 = try_answer env (observable2json env obs h) st2 \<and>
        remove_observable env [(1, to_string h)] st2 = try_answer env (result_success env) st3 \<and>
        observed st3 = (observed st2)(h := None) \<and> retired env h st3))"
proof -
  let ?o = "observable_new (fst (clock env (world st))) (junk_interval env)"
  obtain h st1 where a: "add_new_observable env content st =
      Some (answer env (put_int env ''handle'' (int h) (result_success env)) st1)"
    and h: "observed st h = None" "registered st1 h" "observed st1 = (observed st)(h \<mapsto> members ?o)"
    using accepted_is_registered [OF assms(1,5-8)] by blast
  have ok: "gateway_ok st1"
    using add_keeps [OF assms(1,3) a] settled_no_reuse [OF assms(2)] by (simp add: keeps_def)
  have none: "vals (members ?o) = []"
    by (rule dispatch_members [OF assms(6)]) (simp add: observable_new_def)
  have "\<exists>obs st3. history env (members ?o) n obs \<and>
      get_iotdata env [(1, to_string h)] st2 = try_answer env (observable2json env obs h) st2 \<and>
      remove_observable env [(1, to_string h)] st2 = try_answer env (result_success env) st3 \<and>
      observed st3 = (observed st2)(h := None) \<and> retired env h st3" if u: "undisturbed env h n st1 st2" for n st2
  proof -
    obtain obs where o: "gateway_ok st2" "registered st2 h" "observed st2 h = Some obs" "history env (members ?o) n obs"
      using undisturbed_history [OF u assms(3,4) ok h(2) _ none] h(3) by auto
    with removed_is_retired [OF o(1) assms(3) o(2)] reported [OF o(1-3)] show ?thesis by (metis option.distinct(1))
  qed
  moreover have "h \<le> 10000" using gateway_okD(5) [OF ok] h(2) by (auto simp: registered_def)
  ultimately show ?thesis using a h(1) ok by blast
qed

text \<open>An environment whose observables have the interval zero.\<close>

definition demo_always :: "(int, bytes list, nat) env" where
  "demo_always = (demo_env 10000)\<lparr>get_size := \<lambda>tree key. Some 0\<rparr>"

end
