(* ===== verification/Gateway_Observed.thy ===== *)
theory Gateway_Observed
  imports Gateway_Dialogue Observable_Lifecycle
begin

text \<open>
  The use the gateway is for, over the network: a client of \<open>src/src/http/client_http.hpp\<close> adds an
  observable by a request to \<open>src/src/http-server.cpp\<close>, the timer measures it, the client asks for
  its values and removes it. What the client gets is the JSON text of what the gateway has
  measured meanwhile.
\<close>

section \<open>The requests\<close>

definition plain_call :: "bytes \<Rightarrow> bytes \<Rightarrow> bytes \<Rightarrow> client_call" where
  "plain_call meth target content =
     \<lparr>call_method = meth, call_path = target, call_query = None, call_content = content, call_header = []\<rparr>"

definition add_call :: "bytes \<Rightarrow> client_call" where
  "add_call content = plain_call ''POST'' ''/add-new-observable'' content"

definition get_call :: "nat \<Rightarrow> client_call" where
  "get_call h = plain_call ''GET'' (''/get-iotdata/'' @ to_string h) []"

definition remove_call :: "nat \<Rightarrow> client_call" where
  "remove_call h = plain_call ''POST'' (''/remove-observable/'' @ to_string h) []"

lemma word_to_string: "word digit_chars (to_string h)"
  using to_string_digits [of h] by (simp add: word_digits)

lemma number_to_string: "with_number prefix (prefix @ to_string h)" "number prefix (prefix @ to_string h) = [(1, to_string h)]"
  using word_to_string by (auto simp: with_number_def number_def)

lemma services:
  "service_of start_time (call_message c (add_call content)) content' = Request (Add content')"
  "service_of start_time (call_message c (get_call h)) content' = Request (Get_iotdata [(1, to_string h)])"
  "service_of start_time (call_message c (remove_call h)) content' = Request (Remove [(1, to_string h)])"
  using number_to_string(1) [of "''/get-iotdata/''" h] number_to_string(2) [of "''/get-iotdata/''" h]
    service_remove [OF word_to_string]
  by (simp_all add: service_route add_call_def get_call_def remove_call_def plain_call_def call_message_def
      parsed_request_def Let_def)

section \<open>An exchange\<close>

text \<open>The call, once it is in the stream, is replied to by the status 200 and a text, the
  connection is read again, and \<open>st'\<close> is the new state.\<close>

definition exchanged ::
  "('w, 'p, 'd) env \<Rightarrow> files \<Rightarrow> time_point \<Rightarrow> ('net \<Rightarrow> bytes) \<Rightarrow> 'net read_until \<Rightarrow> 'net read_exactly \<Rightarrow> nat \<Rightarrow> client \<Rightarrow>
   client_call \<Rightarrow> ('w, 'd) gateway \<Rightarrow> bytes \<Rightarrow> ('w, 'd) gateway \<Rightarrow> bool" where
  "exchanged env fs start_time pending read_until read_exactly max_size c call st reply st' \<longleftrightarrow>
     (\<forall>net. pending net = call_bytes c call \<longrightarrow>
       (\<exists>net'. serve_request env fs start_time read_until read_exactly max_size net st =
          Some (Answered [framed_reply ''200 OK'' reply] Read_again st' net') \<and> pending net' = []))"

lemma json_handled:
  assumes "r = answer env root st' \<or> r = try_answer env root st'" and "write_json env root = Some reply"
  obtains response where "r = Replied response st'" and "streambuf response = framed_reply ''200 OK'' reply"
    and "\<not> close_connection_after_response response"
proof -
  let ?r = "response_new\<lparr>streambuf := framed_reply ''200 OK'' reply\<rparr>"
  have "send_json_response env root response_new = Some ?r" by (simp add: json_reply assms(2))
  then have "r = Replied ?r st'" using assms(1) by (auto simp: answer_def try_answer_def)
  moreover have "\<not> close_connection_after_response ?r" by simp
  ultimately show thesis by (intro that [of ?r]) simp_all
qed

lemma json_exchanged:
  assumes "transport pending read_until read_exactly" and "call_ok c max_size call"
    and "connection_choice (framed c (call_content call) (call_header call)) = None"
    and "service_of start_time (call_message c call) (call_content call) = Request req"
    and "handle_request env req st = Some r" and "r = answer env root st' \<or> r = try_answer env root st'"
    and "write_json env root = Some reply"
  shows "exchanged env fs start_time pending read_until read_exactly max_size c call st reply st'"
  unfolding exchanged_def
proof (intro allI impI)
  fix net assume p: "pending net = call_bytes c call"
  obtain response where resp: "r = Replied response st'" "streambuf response = framed_reply ''200 OK'' reply"
    "\<not> close_connection_after_response response"
    by (rule json_handled [OF assms(6,7)])
  have "after_response False response (call_message c call) = Read_again"
    unfolding call_message_def by (rule after_default [OF assms(3) resp(3)])
  then have m: "respond env fs start_time (call_message c call) (call_content call) () st =
      Some (Answered [framed_reply ''200 OK'' reply] Read_again st' ())"
    using resp(1,2) by (simp add: respond_def assms(4,5))
  obtain net' where "serve_request env fs start_time read_until read_exactly max_size net st =
      map_option (with_net net') (respond env fs start_time (call_message c call) (call_content call) () st)" "pending net' = []"
    by (rule call_served [OF assms(1,2) p])
  then show "\<exists>net'. serve_request env fs start_time read_until read_exactly max_size net st =
      Some (Answered [framed_reply ''200 OK'' reply] Read_again st' net') \<and> pending net' = []"
    by (simp add: m)
qed

lemma framed_keeps: "connection_choice (framed c content []) = None"
  by (simp add: framed_def case_insensitive_equal_def)

lemma call_parts [simp]:
  "call_content (add_call content) = content" "call_content (get_call h) = []" "call_content (remove_call h) = []"
  "call_header (add_call content) = []" "call_header (get_call h) = []" "call_header (remove_call h) = []"
  by (simp_all add: add_call_def get_call_def remove_call_def plain_call_def)

section \<open>Properties\<close>


lemma demo_calls:
  "call_ok demo_client 100 (add_call [])"
  "h \<le> 10000 \<Longrightarrow> call_ok demo_client 100 (get_call h) \<and> call_ok demo_client 100 (remove_call h)"
proof -
  have plain: "call_ok demo_client 100 (plain_call meth target [])"
    if "meth \<in> {''GET'', ''POST''}" and "length target \<le> 30" and "plain target" and "target_ok target None" and "target \<noteq> []"
    for meth target
    using that to_string_plain [of 8080] demo_removal(4)
    by (auto simp: call_ok_def plain_call_def demo_framed head_ok_def plain_def target_text_def field_ok_def corrected_path_def
        request_text_def header_line_def demo_lengths)
  show "call_ok demo_client 100 (add_call [])"
    unfolding add_call_def by (rule plain) (simp_all add: plain_def target_ok_def)
  assume "h \<le> 10000"
  then have "length (to_string h) \<le> 5" by (intro length_to_string) simp_all
  moreover have "CHR '' '' \<notin> set (to_string h)" "CHR ''?'' \<notin> set (to_string h)"
    using to_string_digits [of h] by (auto simp: is_digit_def)
  ultimately show "call_ok demo_client 100 (get_call h) \<and> call_ok demo_client 100 (remove_call h)"
    unfolding get_call_def remove_call_def using to_string_plain [of h]
    by (intro conjI plain) (simp_all add: plain_def target_ok_def)
qed


end
