(* ===== verification/Device_Value.thy ===== *)
theory Device_Value
  imports Client_Exchange Gateway_Properties
begin

text \<open>
  The gateway with the client it uses: \<open>http_response2json\<close> of \<open>src/src/http-server.cpp\<close> makes a
  client for the address of a device, sends a request without content and runs the event
  loop until the session is over. Here the request of the environment of theory \<open>Gateway\<close>
  is that session.
\<close>

section \<open>The request to a device\<close>

definition max_response_streambuf_size :: nat where
  "max_response_streambuf_size = 2 ^ 64 - 1"

definition http_request :: "'net network \<Rightarrow> bytes \<Rightarrow> bytes \<Rightarrow> 'net \<Rightarrow> 'net session_end option" where
  "http_request N device_location device_path net =
     send_request N max_response_streambuf_size (client_new device_location 80 True) ''GET'' device_path [] [] pool_new net"

text \<open>What the calls without an error get; nothing when an exception leaves the event loop.\<close>

definition fetched :: "'net session_end \<Rightarrow> bytes list option" where
  "fetched r = (if escaped r then None
     else Some (map response_content (filter (\<lambda>d. failure d = None) (calls r))))"

definition uses_client :: "('w, 'p, 'd) env \<Rightarrow> 'net network \<Rightarrow> ('w \<Rightarrow> 'net) \<Rightarrow> bool" where
  "uses_client env N net_of \<longleftrightarrow> (\<forall>device_location device_path w r.
     http_request N device_location device_path (net_of w) = Some r \<longrightarrow>
     fst (fetch env False device_location device_path w) = fetched r)"

section \<open>The first connection\<close>

definition first_pool :: "client \<Rightarrow> pool" where
  "first_pool c = snd (get_connection c pool_new)"

lemma first_connection: "get_connection c pool_new = (0, first_pool c)"
  by (simp add: first_pool_def get_connection_def pool_new_def create_connection_def Let_def)

text \<open>The network up to the response: the connection is made and the request written.\<close>

definition request_arrives :: "'net network \<Rightarrow> bytes \<Rightarrow> bytes \<Rightarrow> 'net \<Rightarrow> 'net \<Rightarrow> bool" where
  "request_arrives N device_location device_path net net' \<longleftrightarrow>
     (let c = client_new device_location 80 True
      in \<exists>net0. connect_session N (first_pool c) 0 net = (None, net0) \<and>
           write_all N 0 (request_bytes c ''GET'' device_path [] []) net0 = (None, net'))"

lemma http_request_answered:
  assumes "transport pending (until N) (exactly N)" and "request_arrives N device_location device_path net net1"
    and "plain_fields header" and "pending net1 = streambuf (write_content code content header response_new)"
    and "length (streambuf (write_content code content header response_new)) < 2 ^ 63"
  shows "\<exists>r. http_request N device_location device_path net = Some r \<and> \<not> escaped r \<and>
    calls r = [whole (written_head code content header) content]"
proof -
  let ?c = "client_new device_location 80 True"
  let ?req = "request_bytes ?c ''GET'' device_path [] []"
  obtain net0 where 1: "connect_session N (first_pool ?c) 0 net = (None, net0)" "write_all N 0 ?req net0 = (None, net1)"
    using assms(2) by (auto simp: request_arrives_def Let_def)
  have fits: "length (streambuf (write_content code content header response_new)) \<le> max_response_streambuf_size"
    "length content < 2 ^ 63"
    using assms(5) by (simp_all add: max_response_streambuf_size_def write_content_eq response_new_def)
  obtain net2 where "run_session N max_response_streambuf_size ?req 0 (first_pool ?c) net 0 =
      Some (ended 0 [whole (written_head code content header) content] False (Suc 0) (first_pool ?c) (Some net2))"
    unfolding run_session_def by (rule run_answered [where con = "plain_connect N", OF assms(1) plain_connect_ok [OF 1(1)] 1(2) assms(3,4) fits])
  then show ?thesis by (simp add: http_request_def send_request_def first_connection)
qed

lemma measured_from_contents:
  assumes "protocol obs = (if https then ProtocolHTTPS else ProtocolHTTP)"
    and "fst (fetch env https (hostname obs) (path obs) w) = Some [content]" and "read_json env content = Some root"
    and "get_double env root (param_location obs) = Some v"
  shows "fst (measured_value env obs w) = v"
proof -
  obtain w' where "fetch env https (hostname obs) (path obs) w = (Some [content], w')"
    using assms(2) by (cases "fetch env https (hostname obs) (path obs) w") simp
  then show ?thesis
    using assms(1,3,4) by (cases https) (simp_all add: measured_value_def http_response2json_def https_response2json_def response2json_def)
qed

lemma measured_from_device:
  assumes "uses_client env N net_of" and "transport pending (until N) (exactly N)"
    and "request_arrives N (hostname obs) (path obs) (net_of w) net1" and "plain_fields header"
    and "pending net1 = streambuf (write_content code content header response_new)"
    and "length (streambuf (write_content code content header response_new)) < 2 ^ 63"
    and "protocol obs = ProtocolHTTP" and "read_json env content = Some root"
    and "get_double env root (param_location obs) = Some v"
  shows "fst (measured_value env obs w) = v"
proof -
  obtain r where r: "http_request N (hostname obs) (path obs) (net_of w) = Some r" "\<not> escaped r"
    "calls r = [whole (written_head code content header) content]"
    using http_request_answered [OF assms(2-6)] by blast
  then have "fst (fetch env False (hostname obs) (path obs) w) = fetched r"
    using assms(1) by (simp add: uses_client_def)
  moreover have "fetched r = Some [content]" using r(2,3) by (simp add: fetched_def whole_def)
  ultimately show ?thesis using measured_from_contents [where https = False] assms(7-9) by simp
qed

section \<open>An environment with a device\<close>

text \<open>The world is the network; a property tree is a byte string, whose number is its length.\<close>

definition device_env :: "(bytes list list, bytes, nat) env" where
  "device_env = \<lparr>clock = (\<lambda>w. (10 ^ 10, w)),
     fetch = (\<lambda>https l p w. (case http_request (streams {}) l p w of None \<Rightarrow> None | Some r \<Rightarrow> fetched r, w)),
     keygen = (\<lambda>n k. k mod Suc n), push_back = ring_push, read_json = Some, write_json = Some,
     get_string = (\<lambda>tree key. None), get_size = (\<lambda>tree key. None), get_double = (\<lambda>tree key. Some (length tree)),
     empty_tree = [], put_string = (\<lambda>key s tree. tree), put_int = (\<lambda>key i tree. tree), put_double = (\<lambda>key v tree. tree),
     push_child = (\<lambda>c tree. tree), add_child = (\<lambda>key c tree. tree), time_text = (\<lambda>t. []), zero_value = 0,
     junk_interval = 0, freed_word = (\<lambda>w. 0), left_first = False\<rparr>"

definition device_network :: "bytes list list" where
  "device_network = [[], [streambuf (write_content 200 ''hello'' [] response_new)]]"

definition device_observable :: "nat observable" where
  "device_observable = (observable_new 0 1)\<lparr>protocol := ProtocolHTTP, hostname := ''a.b'', path := ''/x''\<rparr>"

lemma device_uses_client: "uses_client device_env (streams {}) id"
  by (simp add: uses_client_def device_env_def)

lemma device_reached: "request_arrives (streams {}) l p device_network (tl device_network)"
  by (simp add: request_arrives_def Let_def connect_session_def streams_def)

section \<open>Properties\<close>

text \<open>
  C5: When an observable is due and its device answers the request with a response of any
  status whose content has a number at the location of the parameter, that number becomes
  the latest of the fifty values, whatever way the response is cut on the network.
\<close>
theorem device_value_recorded:
  assumes "uses_client env N net_of" and "transport pending (until N) (exactly N)"
    and "circular_push (push_back env)" and "length (vals obs) \<le> 50" and "clock env w = (now, w1)"
    and "interval obs \<le> as_unsigned (seconds_of (now - latest_observation obs))"
    and "protocol obs = ProtocolHTTP" and "request_arrives N (hostname obs) (path obs) (net_of w1) net1"
    and "plain_fields header" and "pending net1 = streambuf (write_content code content header response_new)"
    and "length (streambuf (write_content code content header response_new)) < 2 ^ 63"
    and "read_json env content = Some root" and "get_double env root (param_location obs) = Some v"
  shows "\<exists>t. vals (fst (observe env obs w)) = drop (Suc (length (vals obs)) - 50) (vals obs @ [(t, v)])"
  using observe_due [OF assms(3-6)] measured_from_device [OF assms(1,2,8,9,10,11,7,12,13)] by simp

theorem device_value_recorded_witness:
  "\<exists>t. vals (fst (observe device_env device_observable device_network)) = [(t, 5)]"
proof -
  have "\<exists>t. vals (fst (observe device_env device_observable device_network)) =
      drop (Suc (length (vals device_observable)) - 50) (vals device_observable @ [(t, 5)])"
  proof (rule device_value_recorded [OF device_uses_client, where code = 200 and content = "''hello''" and header = "[]" and
      pending = "\<lambda>net. concat (first_stream net)" and now = "10 ^ 10" and root = "''hello''"])
    show "transport (\<lambda>net. concat (first_stream net)) (until (streams {})) (exactly (streams {}))"
      using transport_streams by (simp add: streams_def)
    show "length (streambuf (write_content 200 ''hello'' [] response_new)) < 2 ^ 63"
      by (rule le_less_trans [OF demo_response_short]) simp
    show "request_arrives (streams {}) (hostname device_observable) (path device_observable) (id device_network) (tl device_network)"
      by (simp add: device_reached)
    show "interval device_observable \<le> as_unsigned (seconds_of (10 ^ 10 - latest_observation device_observable))"
      by (simp add: device_observable_def observable_new_def as_unsigned_def seconds_of_def)
  qed (simp_all add: device_env_def device_observable_def observable_new_def plain_fields_def device_network_def
      first_stream_def has_length_def has_chunked_def circular_ring_push)
  then show ?thesis by (simp add: device_observable_def observable_new_def)
qed

end
