(* ===== verification/Tls.thy ===== *)
theory Tls
  imports Client_Exchange Server_Connections
begin

text \<open>
  The TLS variants of \<open>src/src/http/client_https.hpp\<close> and \<open>src/src/http/server_https.hpp\<close>: the
  context of a client, its \<open>connect\<close> with the tunnel through a proxy and the handshake, the
  session id context of a server and its handler of accepted connections. OpenSSL is behind
  the operations of the network.
\<close>

section \<open>The context of a client\<close>

datatype context_call =
    Use_certificate_chain bytes | Use_private_key bytes | Verify_host bytes
  | Load_verify_file bytes | Default_verify_paths | Verify_peer | Verify_none | Verify_client

text \<open>The calls on the context; those that open a file may throw.\<close>

definition tls_context :: "bytes \<Rightarrow> bool \<Rightarrow> bytes \<Rightarrow> bytes \<Rightarrow> bytes \<Rightarrow> context_call list" where
  "tls_context host_name verify_certificate certification_file private_key_file verify_file =
     (if 0 < length certification_file \<and> 0 < length private_key_file
      then [Use_certificate_chain certification_file, Use_private_key private_key_file] else []) @
     (if verify_certificate then [Verify_host host_name] else []) @
     (if 0 < length verify_file then [Load_verify_file verify_file] else [Default_verify_paths]) @
     (if verify_certificate then [Verify_peer] else [Verify_none])"

definition client_tls :: "bytes \<Rightarrow> client" where
  "client_tls server_port_path = client_new server_port_path 443 False"

section \<open>Connecting\<close>

text \<open>Operations on the socket below TLS, and the handshake for a host name.\<close>

record 'net tls_network = "'net network" +
  next_write :: "nat \<Rightarrow> bytes \<Rightarrow> 'net \<Rightarrow> io_error option \<times> 'net"
  next_until :: "'net read_until"
  handshake_socket :: "nat \<Rightarrow> bytes \<Rightarrow> 'net \<Rightarrow> io_error option \<times> 'net"

datatype 'net tls_connected = Tls_write 'net | Tls_failed client_error | Tls_denied | Tls_throws

definition handshake :: "'net tls_network \<Rightarrow> client \<Rightarrow> nat \<Rightarrow> 'net \<Rightarrow> 'net tls_connected" where
  "handshake N c i net =
     (case handshake_socket N i (host c) net of
        (None, net) \<Rightarrow> Tls_write net
      | (Some e, net) \<Rightarrow> Tls_failed (C_io e))"

definition connect_text :: "client \<Rightarrow> bytes" where
  "connect_text c = (let hp = host c @ '':'' @ to_string (port c)
     in ''CONNECT '' @ hp @ '' HTTP/1.1'' @ crlf @ ''Host: '' @ hp @ crlf @ crlf)"

text \<open>
  The reply of the proxy. A buffer that is full is an error even if it holds the reply: the
  search fails with \<open>not_found\<close> exactly when it is full without the end of a header.
\<close>

definition proxy_reply :: "'net tls_network \<Rightarrow> client \<Rightarrow> nat \<Rightarrow> nat \<Rightarrow> 'net \<Rightarrow> 'net tls_connected" where
  "proxy_reply N c max_size i net =
     (case next_until N net max_size [] (find_end (crlf @ crlf)) of
        Inl e \<Rightarrow> if e = Not_found then Tls_failed C_message_size else Tls_failed (C_io e)
      | Inr (n, buf, net) \<Rightarrow>
          if length buf = max_size then Tls_failed C_message_size
          else
            (case response_parse buf response_blank of
               None \<Rightarrow> Tls_throws
             | Some (ok, m, left) \<Rightarrow>
                 if \<not> ok then Tls_failed C_protocol
                 else if take 3 (res_status m) \<noteq> ''200'' then Tls_denied
                 else handshake N c i net))"

definition tls_connect :: "'net tls_network \<Rightarrow> client \<Rightarrow> nat \<Rightarrow> pool \<Rightarrow> nat \<Rightarrow> 'net \<Rightarrow> 'net tls_connected" where
  "tls_connect N c max_size p i net =
     (if \<not> is_open N i net then
        (case resolve_name N (the (host_port p)) net of
           (Some e, net) \<Rightarrow> Tls_failed (C_io e)
         | (None, net) \<Rightarrow>
        (case connect_socket N i net of
           (Some e, net) \<Rightarrow> Tls_failed (C_io e)
         | (None, net) \<Rightarrow>
             if proxy_server c \<noteq> [] then
               (case next_write N i (connect_text c) net of
                  (Some e, net) \<Rightarrow> Tls_failed (C_io e)
                | (None, net) \<Rightarrow> proxy_reply N c max_size i net)
             else handshake N c i net))
      else Tls_write net)"

section \<open>The server\<close>

text \<open>The context of a server, and whether a session id context is to be set. \<open>Verify_client\<close> are
  the three flags by which a client must have a valid certificate.\<close>

definition server_tls :: "bytes \<Rightarrow> bytes \<Rightarrow> bytes \<Rightarrow> context_call list \<times> bool" where
  "server_tls certification_file private_key_file verify_file =
     ([Use_certificate_chain certification_file, Use_private_key private_key_file] @
        (if 0 < length verify_file then [Load_verify_file verify_file, Verify_client] else []),
      0 < length verify_file)"

definition SSL_MAX_SSL_SESSION_ID_LENGTH :: nat where
  "SSL_MAX_SSL_SESSION_ID_LENGTH = 32"

definition session_id_context :: "nat \<Rightarrow> bytes \<Rightarrow> bytes" where
  "session_id_context local_port address =
     take SSL_MAX_SSL_SESSION_ID_LENGTH ((to_string local_port @ '':'') @ rev address)"

text \<open>The session context is set only if the certificates of clients are verified.\<close>

definition after_bind :: "bytes \<Rightarrow> nat \<Rightarrow> bytes \<Rightarrow> bytes option" where
  "after_bind verify_file local_port address =
     (if 0 < length verify_file then Some (session_id_context local_port address) else None)"

text \<open>An accepted connection is read after its handshake; without it, it goes.\<close>

definition tls_accept_handler :: "io_error option \<Rightarrow> io_error option \<Rightarrow> nat \<Rightarrow> nat \<Rightarrow> server \<Rightarrow> server" where
  "tls_accept_handler ec handshake_ec c a s =
     (let s = accept_handler ec c a s
      in if ec = None \<and> handshake_ec \<noteq> None then finish_connection c (s\<lparr>errors := Suc (errors s)\<rparr>) else s)"

section \<open>Lemmas\<close>

lemma tls_context_verifies:
  "Verify_peer \<in> set (tls_context h v cert key ca) \<longleftrightarrow> v"
  "Verify_host h \<in> set (tls_context h v cert key ca) \<longleftrightarrow> v"
  "Use_private_key k \<in> set (tls_context h v cert key ca) \<longrightarrow> Use_certificate_chain cert \<in> set (tls_context h v cert key ca)"
  by (auto simp: tls_context_def)

text \<open>The session context is set exactly for a server that verifies its clients.\<close>

lemma server_tls_verifies:
  "snd (server_tls cert key ca) \<longleftrightarrow> Verify_client \<in> set (fst (server_tls cert key ca))"
  "snd (server_tls cert key ca) \<longleftrightarrow> after_bind ca p a \<noteq> None"
  by (auto simp: server_tls_def after_bind_def)

text \<open>Servers that differ in their port or address have different contexts, if these fit.\<close>

lemma session_ids_differ:
  assumes "session_id_context p1 a1 = session_id_context p2 a2"
    and "length (to_string p1) + length a1 \<le> 31" and "length (to_string p2) + length a2 \<le> 31"
  shows "p1 = p2 \<and> a1 = a2"
proof -
  have eq: "to_string p1 @ '':'' @ rev a1 = to_string p2 @ '':'' @ rev a2"
    using assms by (simp add: session_id_context_def SSL_MAX_SSL_SESSION_ID_LENGTH_def)
  have no: "CHR '':'' \<notin> set (to_string p)" for p
    using to_string_digits [of p] by (auto simp: is_digit_def)
  have "takeWhile (\<lambda>c. c \<noteq> CHR '':'') (to_string p @ '':'' @ rev a) = to_string p" for p a
    using no [of p] by (subst takeWhile_append2) auto
  from this [of p1 a1] this [of p2 a2] eq have s: "to_string p1 = to_string p2" by simp
  then have "digits_val 10 (to_string p1) = digits_val 10 (to_string p2)" by simp
  then have "p1 = p2" by (simp add: digits_val_to_string)
  with eq s show ?thesis by simp
qed

lemma tls_accept_ok:
  assumes "server_ok s" and "accepting s = Some c" and "a \<notin> live s"
  shows "server_ok (tls_accept_handler ec hs c a s)"
proof -
  let ?s = "accept_handler ec c a s"
  have ok: "server_ok ?s"
    by (rule server_step_ok [OF server_step.accepted [OF assms(2,3)] assms(1)])
  show ?thesis
  proof (cases "ec = None \<and> hs \<noteq> None")
    case True
    then have "c \<in> serving (?s\<lparr>errors := Suc (errors ?s)\<rparr>)" by (simp add: accept_handler_def Let_def)
    then have "server_ok (finish_connection c (?s\<lparr>errors := Suc (errors ?s)\<rparr>))"
      by (rule server_step_ok [OF server_step.finished]) (use ok in simp)
    with True show ?thesis by (simp add: tls_accept_handler_def Let_def)
  next
    case False
    then show ?thesis using ok by (auto simp: tls_accept_handler_def Let_def)
  qed
qed

lemma response_text_header_end:
  assumes "response_head_ok version status header"
  shows "find_end (crlf @ crlf) (response_text version status header @ rest) = Some (length (response_text version status header))"
proof -
  let ?l = "''HTTP/'' @ version @ '' '' @ status" and ?ls = "map (\<lambda>field. fst field @ '': '' @ snd field) header"
  have "line_ok ?l" "\<forall>l \<in> set ?ls. line_ok l"
    using assms by (auto simp: response_head_ok_def plain_def line_ok_def)
  from find_end_lines [OF this, of rest] show ?thesis
    unfolding response_text_lines header_end_def by simp
qed

section \<open>Properties\<close>


definition tls_streams :: "bytes list list tls_network" where
  "tls_streams = \<lparr>is_open = (\<lambda>i net. False), resolve_name = (\<lambda>_ net. (None, net)),
     connect_socket = (\<lambda>i net. (None, net)), write_all = (\<lambda>i request net. (None, net)),
     until = streams_until, exactly = streams_exactly, to_end = streams_to_end, after_failure = (\<lambda>e net. net),
     next_write = (\<lambda>i request net. (None, net)), next_until = streams_until,
     handshake_socket = (\<lambda>i name net. (None, net))\<rparr>"


end
