(* ===== verification/Tls_Exchange.thy ===== *)
theory Tls_Exchange
  imports Tls
begin

text \<open>
  A request of the TLS client of \<open>src/src/http/client_https.hpp\<close> from its connection to the last
  call of its callback. \<open>ClientBase\<close> of \<open>src/src/http/client_http.hpp\<close> writes, reads and connects
  again as for a plain client (\<open>run_virtual\<close>); \<open>connect\<close> is that of theory \<open>Tls\<close>.
\<close>

section \<open>The session\<close>

definition secure_connect :: "'net tls_network \<Rightarrow> client \<Rightarrow> nat \<Rightarrow> 'net connector" where
  "secure_connect N c max_size p i net =
     (case tls_connect N c max_size p i net of
        Tls_write net \<Rightarrow> Connected net
      | Tls_failed e \<Rightarrow> Connect_fails e
      | Tls_denied \<Rightarrow> Connect_fails C_permission_denied
      | Tls_throws \<Rightarrow> Connect_throws)"

definition secure_request ::
  "'net tls_network \<Rightarrow> nat \<Rightarrow> client \<Rightarrow> bytes \<Rightarrow> bytes \<Rightarrow> bytes \<Rightarrow> headers \<Rightarrow> pool \<Rightarrow> 'net \<Rightarrow> 'net session_end option"
where
  "secure_request N max_size c meth target content header p net =
     (case get_connection c p of
        (i, p') \<Rightarrow> run_virtual (secure_connect N c max_size) (network.truncate N) max_size
                     (request_bytes c meth target content header) i p' net 0)"

lemma truncate_simps [simp]:
  "is_open (network.truncate N) = is_open N" "write_all (network.truncate N) = write_all N"
  "until (network.truncate N) = until N" "exactly (network.truncate N) = exactly N" "to_end (network.truncate N) = to_end N"
  by (simp_all add: network.truncate_def)

interpretation secure: base_client "secure_connect N c max_size" "network.truncate N" for N c max_size
  by standard (simp add: secure_connect_def tls_connect_def)

section \<open>Connecting\<close>

lemma secure_connect_direct:
  assumes "\<not> is_open N i net" and "proxy_server c = []"
    and "resolve_name N (the (host_port p)) net = (None, net1)" and "connect_socket N i net1 = (None, net2)"
    and "handshake_socket N i (host c) net2 = (None, net3)"
  shows "secure_connect N c max_size p i net = Connected net3"
  using assms by (simp add: secure_connect_def tls_connect_def handshake_def)

text \<open>Every way to the request goes through the handshake, with or without a proxy.\<close>

lemma handshake_passed: "handshake N c i net = Tls_write net' \<longleftrightarrow> handshake_socket N i (host c) net = (None, net')"
  by (simp add: handshake_def split: prod.split option.split)

lemma proxy_passed: "proxy_reply N c max_size i net = Tls_write net' \<Longrightarrow>
    \<exists>net0. handshake_socket N i (host c) net0 = (None, net')"
  unfolding proxy_reply_def by (auto simp: handshake_passed split: sum.splits prod.splits option.splits if_splits)

lemma connected_after_handshake:
  assumes "secure_connect N c max_size p i net = Connected net'" and "\<not> is_open N i net"
  shows "\<exists>net0. handshake_socket N i (host c) net0 = (None, net')"
proof -
  have "tls_connect N c max_size p i net = Tls_write net'"
    using assms(1) by (simp add: secure_connect_def split: tls_connected.splits)
  with assms(2) show ?thesis
    by (auto simp: tls_connect_def handshake_passed dest: proxy_passed split: prod.splits option.splits if_splits)
qed

lemma no_handshake_no_request:
  assumes "get_connection c p = (i, p')" and "\<not> is_open N i net"
    and "\<And>net0. fst (handshake_socket N i (host c) net0) \<noteq> None"
  obtains r where "secure_request N max_size c meth target content header p net = Some r" and "writes r = 0"
    and "\<forall>d \<in> set (calls r). failure d \<noteq> None" and "calls r \<noteq> [] \<or> escaped r"
proof -
  have "secure_connect N c max_size p' i net \<noteq> Connected net'" for net'
  proof
    assume "secure_connect N c max_size p' i net = Connected net'"
    with connected_after_handshake [OF _ assms(2)] obtain net0 where "handshake_socket N i (host c) net0 = (None, net')" by blast
    then show False using assms(3) [of net0] by simp
  qed
  then show thesis
    using that by (elim run_refused [where N = "network.truncate N" and n = 0]) (simp add: secure_request_def assms(1))
qed

end
