(* ===== verification/Secure_Device.thy ===== *)
theory Secure_Device
  imports Device_Value Tls_Exchange
begin

text \<open>
  Devices behind HTTPS: \<open>https_response2json\<close> of \<open>src/src/http-server.cpp\<close> makes a TLS client for the
  address of the device, which verifies its certificate, as its constructor in
  \<open>src/src/http/client_https.hpp\<close> does by default.
\<close>

section \<open>The request to a device\<close>

text \<open>The network depends on the context the client has set up: an argument.\<close>

type_synonym 'net engine = "context_call list \<Rightarrow> 'net tls_network"

definition https_context :: "bytes \<Rightarrow> context_call list" where
  "https_context device_location = tls_context (host (client_tls device_location)) True [] [] []"

definition https_request :: "'net engine \<Rightarrow> bytes \<Rightarrow> bytes \<Rightarrow> 'net \<Rightarrow> 'net session_end option" where
  "https_request engine device_location device_path net =
     secure_request (engine (https_context device_location)) max_response_streambuf_size (client_tls device_location)
       ''GET'' device_path [] [] pool_new net"

definition uses_secure_client :: "('w, 'p, 'd) env \<Rightarrow> 'net engine \<Rightarrow> ('w \<Rightarrow> 'net) \<Rightarrow> bool" where
  "uses_secure_client env engine net_of \<longleftrightarrow> (\<forall>device_location device_path w r.
     https_request engine device_location device_path (net_of w) = Some r \<longrightarrow>
     fst (fetch env True device_location device_path w) = fetched r)"

text \<open>
  What OpenSSL documents of a context that verifies: a handshake for a host name succeeds
  only with a peer whose certificate is valid and made out for that name.
\<close>

definition verifies :: "'net engine \<Rightarrow> (bytes \<Rightarrow> nat \<Rightarrow> 'net \<Rightarrow> bool) \<Rightarrow> bool" where
  "verifies engine trusted \<longleftrightarrow> (\<forall>ctx name i net.
     Verify_peer \<in> set ctx \<and> Verify_host name \<in> set ctx \<and> fst (handshake_socket (engine ctx) i name net) = None \<longrightarrow>
     trusted name i net)"

lemma https_context_verifies:
  "Verify_peer \<in> set (https_context l)" "Verify_host (host (client_tls l)) \<in> set (https_context l)"
  by (simp_all add: https_context_def tls_context_def)

section \<open>An answer\<close>

definition secure_request_arrives :: "'net tls_network \<Rightarrow> bytes \<Rightarrow> bytes \<Rightarrow> 'net \<Rightarrow> 'net \<Rightarrow> bool" where
  "secure_request_arrives N device_location device_path net net' \<longleftrightarrow>
     (let c = client_tls device_location
      in \<exists>net0. secure_connect N c max_response_streambuf_size (first_pool c) 0 net = Connected net0 \<and>
           write_all N 0 (request_bytes c ''GET'' device_path [] []) net0 = (None, net'))"

lemma https_request_answered:
  assumes "transport pending (until (engine (https_context l))) (exactly (engine (https_context l)))"
    and "secure_request_arrives (engine (https_context l)) l device_path net net1"
    and "plain_fields header" and "pending net1 = streambuf (write_content code content header response_new)"
    and "length (streambuf (write_content code content header response_new)) < 2 ^ 63"
  obtains r where "https_request engine l device_path net = Some r" and "fetched r = Some [content]"
proof -
  let ?N = "engine (https_context l)" and ?c = "client_tls l"
  obtain net0 where 1: "secure_connect ?N ?c max_response_streambuf_size (first_pool ?c) 0 net = Connected net0"
    "write_all (network.truncate ?N) 0 (request_bytes ?c ''GET'' device_path [] []) net0 = (None, net1)"
    using assms(2) by (auto simp: secure_request_arrives_def Let_def)
  have fits: "length (streambuf (write_content code content header response_new)) \<le> max_response_streambuf_size"
    "length content < 2 ^ 63"
    using assms(5) by (simp_all add: max_response_streambuf_size_def write_content_eq response_new_def)
  have t: "transport pending (until (network.truncate ?N)) (exactly (network.truncate ?N))" using assms(1) by simp
  obtain net2 where "run_virtual (secure_connect ?N ?c max_response_streambuf_size) (network.truncate ?N)
      max_response_streambuf_size (request_bytes ?c ''GET'' device_path [] []) 0 (first_pool ?c) net 0 =
      Some (ended 0 [whole (written_head code content header) content] False (Suc 0) (first_pool ?c) (Some net2))"
    by (rule run_answered [where N = "network.truncate ?N" and con = "secure_connect ?N ?c max_response_streambuf_size", OF t 1 assms(3,4) fits])
  then show thesis
    by (intro that [of "ended 0 [whole (written_head code content header) content] False (Suc 0) (first_pool ?c) (Some net2)"])
      (simp_all add: https_request_def secure_request_def first_connection fetched_def whole_def)
qed

section \<open>No answer\<close>

lemma untrusted_request:
  assumes "verifies engine trusted" and "\<And>net. \<not> trusted (host (client_tls l)) 0 net"
    and "\<not> is_open (engine (https_context l)) 0 net"
  obtains r where "https_request engine l device_path net = Some r" and "writes r = 0"
    and "fetched r = None \<or> fetched r = Some []"
proof -
  have "fst (handshake_socket (engine (https_context l)) 0 (host (client_tls l)) net0) \<noteq> None" for net0
  proof
    assume "fst (handshake_socket (engine (https_context l)) 0 (host (client_tls l)) net0) = None"
    with assms(1) https_context_verifies [of l] have "trusted (host (client_tls l)) 0 net0"
      unfolding verifies_def by blast
    with assms(2) show False by simp
  qed
  then show thesis
    by (rule no_handshake_no_request [OF first_connection assms(3)])
      (rule that, auto simp: https_request_def fetched_def filter_empty_conv)
qed

lemma measured_nothing:
  assumes "protocol obs = ProtocolHTTPS" and "fst (fetch env True (hostname obs) (path obs) w) \<in> {None, Some []}"
    and "get_double env (empty_tree env) (param_location obs) = None"
  shows "fst (measured_value env obs w) = zero_value env"
  using assms
  by (cases "fetch env True (hostname obs) (path obs) w")
    (auto simp: measured_value_def https_response2json_def response2json_def)

section \<open>An environment with a device\<close>

definition secure_engine :: "bool \<Rightarrow> bytes list list engine" where
  "secure_engine valid ctx = tls_streams\<lparr>handshake_socket :=
     \<lambda>i name net. (if valid \<or> Verify_peer \<notin> set ctx then None else Some Eof, net)\<rparr>"

definition secure_env :: "bool \<Rightarrow> (bytes list list, bytes, nat) env" where
  "secure_env valid = device_env\<lparr>fetch := \<lambda>https l p w.
     (case https_request (secure_engine valid) l p w of None \<Rightarrow> None | Some r \<Rightarrow> fetched r, w),
     get_double := \<lambda>tree key. if tree = [] then None else Some (length tree)\<rparr>"

definition secure_observable :: "nat observable" where
  "secure_observable = (observable_new 0 1)\<lparr>hostname := ''a.b'', path := ''/x''\<rparr>"

lemma secure_env_uses: "uses_secure_client (secure_env valid) (secure_engine valid) id"
  by (simp add: uses_secure_client_def secure_env_def)

lemma secure_engine_verifies: "verifies (secure_engine valid) (\<lambda>name i net. valid)"
  by (auto simp: verifies_def secure_engine_def split: if_splits)

section \<open>Properties\<close>

text \<open>
  C6: When an observable whose location is HTTPS is due, the handshake with its device
  succeeds and the device answers the request with a response whose content has a number at
  the location of the parameter, that number becomes the latest of the fifty values,
  whatever way the response is cut on the network.
\<close>
theorem secure_device_value_recorded:
  assumes "uses_secure_client env engine net_of" and "circular_push (push_back env)" and "length (vals obs) \<le> 50"
    and "clock env w = (now, w1)" and "interval obs \<le> as_unsigned (seconds_of (now - latest_observation obs))"
    and "protocol obs = ProtocolHTTPS"
    and "transport pending (until (engine (https_context (hostname obs)))) (exactly (engine (https_context (hostname obs))))"
    and "secure_request_arrives (engine (https_context (hostname obs))) (hostname obs) (path obs) (net_of w1) net1"
    and "plain_fields header" and "pending net1 = streambuf (write_content code content header response_new)"
    and "length (streambuf (write_content code content header response_new)) < 2 ^ 63"
    and "read_json env content = Some root" and "get_double env root (param_location obs) = Some v"
  shows "\<exists>t. vals (fst (observe env obs w)) = drop (Suc (length (vals obs)) - 50) (vals obs @ [(t, v)])"
proof -
  obtain r where r: "https_request engine (hostname obs) (path obs) (net_of w1) = Some r" "fetched r = Some [content]"
    by (rule https_request_answered [where engine = engine and l = "hostname obs", OF assms(7-11)])
  then have "fst (fetch env True (hostname obs) (path obs) w1) = Some [content]"
    using assms(1) by (simp add: uses_secure_client_def)
  then have "fst (measured_value env obs w1) = v"
    using measured_from_contents [where https = True] assms(6,12,13) by simp
  with observe_due [OF assms(2-5)] show ?thesis by simp
qed

theorem secure_device_value_recorded_witness:
  "\<exists>t. vals (fst (observe (secure_env True) secure_observable [[streambuf (write_content 200 ''hello'' [] response_new)]])) = [(t, 5)]"
proof -
  let ?net = "[[streambuf (write_content 200 ''hello'' [] response_new)]]"
  have o: "hostname secure_observable = ''a.b''" "path secure_observable = ''/x''" "vals secure_observable = []"
    by (simp_all add: secure_observable_def observable_new_def)
  have "\<exists>t. vals (fst (observe (secure_env True) secure_observable ?net)) =
      drop (Suc (length (vals secure_observable)) - 50) (vals secure_observable @ [(t, 5)])"
  proof (rule secure_device_value_recorded [OF secure_env_uses, where code = 200 and content = "''hello''" and header = "[]" and
      pending = "\<lambda>net. concat (first_stream net)" and now = "10 ^ 10" and root = "''hello''"])
    show "transport (\<lambda>net. concat (first_stream net)) (until (secure_engine True (https_context (hostname secure_observable))))
        (exactly (secure_engine True (https_context (hostname secure_observable))))"
      using transport_streams by (simp add: secure_engine_def tls_streams_def)
    show "length (streambuf (write_content 200 ''hello'' [] response_new)) < 2 ^ 63"
      by (rule le_less_trans [OF demo_response_short]) simp
    show "secure_request_arrives (secure_engine True (https_context (hostname secure_observable))) (hostname secure_observable)
        (path secure_observable) (id ?net) ?net"
      by (simp add: secure_request_arrives_def Let_def secure_engine_def secure_connect_def tls_connect_def tls_streams_def handshake_def
          client_tls_def client_new_def o case_prod_beta)
    show "interval secure_observable \<le> as_unsigned (seconds_of (10 ^ 10 - latest_observation secure_observable))"
      by (simp add: secure_observable_def observable_new_def as_unsigned_def seconds_of_def)
  qed (simp_all add: secure_env_def device_env_def secure_observable_def observable_new_def plain_fields_def
      has_length_def has_chunked_def circular_ring_push)
  then show ?thesis by (simp add: o)
qed

text \<open>
  C7: The request of an observable whose location is HTTPS is never written to a peer that has
  no valid certificate for the host of the location: nothing but the handshake, and the
  request for a tunnel if there is a proxy, reaches it, and the value recorded is zero.
\<close>
theorem untrusted_device_gets_nothing:
  assumes "uses_secure_client env engine net_of" and "verifies engine trusted"
    and "\<And>net. \<not> trusted (host (client_tls (hostname obs))) 0 net"
    and "\<not> is_open (engine (https_context (hostname obs))) 0 (net_of w)"
    and "protocol obs = ProtocolHTTPS" and "get_double env (empty_tree env) (param_location obs) = None"
  shows "\<exists>r. https_request engine (hostname obs) (path obs) (net_of w) = Some r \<and> writes r = 0 \<and>
    fst (measured_value env obs w) = zero_value env"
proof -
  obtain r where r: "https_request engine (hostname obs) (path obs) (net_of w) = Some r" "writes r = 0"
    "fetched r = None \<or> fetched r = Some []"
    by (rule untrusted_request [OF assms(2-4)])
  then have "fst (fetch env True (hostname obs) (path obs) w) \<in> {None, Some []}"
    using assms(1) by (auto simp: uses_secure_client_def)
  with r(1,2) measured_nothing [OF assms(5) _ assms(6)] show ?thesis by blast
qed

theorem untrusted_device_gets_nothing_witness:
  "\<exists>r. https_request (secure_engine False) ''a.b'' ''/x'' [] = Some r \<and> writes r = 0 \<and>
    fst (measured_value (secure_env False) secure_observable []) = 0"
proof -
  have o: "hostname secure_observable = ''a.b''" "path secure_observable = ''/x''"
    by (simp_all add: secure_observable_def observable_new_def)
  have "\<exists>r. https_request (secure_engine False) (hostname secure_observable) (path secure_observable) (id []) = Some r \<and> writes r = 0 \<and>
    fst (measured_value (secure_env False) secure_observable []) = zero_value (secure_env False)"
    by (rule untrusted_device_gets_nothing [OF secure_env_uses secure_engine_verifies])
      (simp_all add: secure_engine_def tls_streams_def secure_env_def device_env_def secure_observable_def observable_new_def)
  then show ?thesis by (simp add: o secure_env_def device_env_def)
qed

end
