(* ===== verification/Http_Examples.thy ===== *)
theory Http_Examples
  imports Gateway_Dialogue Streams Query_String
begin

text \<open>
  The program \<open>src/src/http/http_examples.cpp\<close> (and \<open>https_examples.cpp\<close>, the same over TLS): a
  server with five resources and a default one, and three requests of a client to it. It
  exercises the server and the client of the HTTP library together: what a client sends to
  a resource is what the resource makes its reply from, and what the client gets. The
  parser of JSON, the addresses and the file system are arguments.
\<close>

section \<open>Resources\<close>

text \<open>Parsing and taking a member may throw, with a message. \<open>field_order\<close> is the order in which
  an unordered multimap is iterated; \<open>canonical_error\<close> the message for a path that does not
  resolve.\<close>

record 'p example_env =
  parse_json :: "bytes \<Rightarrow> bytes + 'p"
  member_of :: "'p \<Rightarrow> bytes \<Rightarrow> bytes + bytes"
  peer :: "bytes \<times> nat"
  field_order :: "headers \<Rightarrow> headers"
  canonical_error :: "bytes \<Rightarrow> bytes"

definition ok_reply :: "bytes \<Rightarrow> response" where
  "ok_reply content = put content (put (''HTTP/1.1 200 OK'' @ crlf @ ''Content-Length: '' @
     to_string (length content) @ crlf @ crlf) response_new)"

definition post_string :: "bytes \<Rightarrow> response" where
  "post_string content = ok_reply content"

definition post_json :: "'p example_env \<Rightarrow> bytes \<Rightarrow> response" where
  "post_json E content =
     (let name = (case parse_json E content of
                    Inl what \<Rightarrow> Inl what
                  | Inr pt \<Rightarrow>
                      (case member_of E pt ''firstName'' of
                         Inl what \<Rightarrow> Inl what
                       | Inr first_name \<Rightarrow>
                           (case member_of E pt ''lastName'' of
                              Inl what \<Rightarrow> Inl what | Inr last_name \<Rightarrow> Inr (first_name @ '' '' @ last_name))))
      in case name of
           Inr name \<Rightarrow> ok_reply name
         | Inl what \<Rightarrow> put what (put (''HTTP/1.1 400 Bad Request'' @ crlf @ ''Content-Length: '' @
             to_string (length what) @ crlf @ crlf) response_new))"

definition field_line :: "bytes \<times> bytes \<Rightarrow> bytes" where
  "field_line field = fst field @ '': '' @ snd field @ ''<br>''"

text \<open>The parser of query strings never throws.\<close>

definition info_text :: "'p example_env \<Rightarrow> request_message \<Rightarrow> bytes" where
  "info_text E m =
     ''<h1>Request from '' @ fst (peer E) @ '':'' @ to_string (snd (peer E)) @ ''</h1>'' @
     req_method m @ '' '' @ req_path m @ '' HTTP/'' @ req_version m @
     ''<h2>Query Fields</h2>'' @
     concat (map field_line (field_order E (case query_parse (req_query m) of None \<Rightarrow> [] | Some qs \<Rightarrow> qs))) @
     ''<h2>Header Fields</h2>'' @ concat (map field_line (field_order E (req_header m)))"

definition get_info :: "'p example_env \<Rightarrow> request_message \<Rightarrow> response" where
  "get_info E m = fst (write_stream_success (string_stream (info_text E m)) [] response_new)"

definition get_match :: "captures \<Rightarrow> response" where
  "get_match path_match = write_success (group path_match 1) [] response_new"

text \<open>The reply of \<open>/work\<close> is written by another thread after five seconds, and sent when that
  thread releases the response.\<close>

definition get_work :: response where
  "get_work = write_success ''Work done'' [] response_new"

definition example_file :: "'p example_env \<Rightarrow> files \<Rightarrow> bytes \<Rightarrow> bytes + bytes" where
  "example_file E fs request_path =
     (case web_root fs of
        None \<Rightarrow> Inl (canonical_error E ''web'')
      | Some web_root_path \<Rightarrow>
     (case resolve fs web_root_path request_path of
        None \<Rightarrow> Inl (canonical_error E request_path)
      | Some target \<Rightarrow>
          if \<not> within web_root_path target then Inl ''path must be within root path''
          else (let target = (if is_directory fs target then target @ [''index.html''] else target)
                in case read_file fs target of None \<Rightarrow> Inl ''could not read file'' | Some content \<Rightarrow> Inr content)))"

definition get_file :: "'p example_env \<Rightarrow> files \<Rightarrow> bytes \<Rightarrow> bytes list" where
  "get_file E fs request_path =
     (case example_file E fs request_path of
        Inl what \<Rightarrow> [streambuf (write_content (StatusCode_of client_error_bad_request)
          (''Could not open path '' @ request_path @ '': '' @ what) [] response_new)]
      | Inr content \<Rightarrow> read_and_send file_buffer content
          (write_header_only [(''Content-Length'', to_string (length content))] response_new))"

section \<open>The server\<close>

type_synonym example_handler = "request_message \<Rightarrow> captures \<Rightarrow> bytes \<Rightarrow> bytes list"

definition example_resources :: "'p example_env \<Rightarrow> example_handler resources" where
  "example_resources E =
     [(Lit ''/info'', [(''GET'', \<lambda>m path_match content. [streambuf (get_info E m)])]),
      (Lit ''/json'', [(''POST'', \<lambda>m path_match content. [streambuf (post_json E content)])]),
      (numbered ''/match/'', [(''GET'', \<lambda>m path_match content. [streambuf (get_match path_match)])]),
      (Lit ''/string'', [(''POST'', \<lambda>m path_match content. [streambuf (post_string content)])]),
      (Lit ''/work'', [(''GET'', \<lambda>m path_match content. [streambuf get_work])])]"

definition example_default :: "'p example_env \<Rightarrow> files \<Rightarrow> (bytes \<times> example_handler) list" where
  "example_default E fs = [(''GET'', \<lambda>m path_match content. get_file E fs (req_path m))]"

definition example_respond :: "'p example_env \<Rightarrow> files \<Rightarrow> request_message \<Rightarrow> bytes \<Rightarrow> bytes list option" where
  "example_respond E fs m content =
     (case find_resource False (example_resources E) (example_default E fs) m of
        Resource handler path_match \<Rightarrow> Some (handler m path_match content)
      | Default handler \<Rightarrow> Some (handler m [] content)
      | _ \<Rightarrow> None)"

text \<open>One request: nothing is sent if there is no resource for it. The program keeps no state.\<close>

definition example_turn :: "request_message \<Rightarrow> bytes list \<Rightarrow> 'net \<Rightarrow> (unit, 'net) turn" where
  "example_turn m bufs net = (case after_response False response_new m of Read_again \<Rightarrow> Again bufs () net | Drop \<Rightarrow> Last [bufs] ())"

definition example_serve ::
  "'p example_env \<Rightarrow> files \<Rightarrow> 'net read_until \<Rightarrow> 'net read_exactly \<Rightarrow> nat \<Rightarrow> 'net \<Rightarrow> unit \<Rightarrow> (unit, 'net) turn option" where
  "example_serve E fs read_until read_exactly max_size net _ =
     (case server_read read_until read_exactly max_size net of
        Some (Ready m content net') \<Rightarrow> map_option (\<lambda>bufs. example_turn m bufs net') (example_respond E fs m content)
      | _ \<Rightarrow> None)"

text \<open>What the server means to answer to a call, and the conversation of a client with it.\<close>

definition example_meaning :: "'p example_env \<Rightarrow> files \<Rightarrow> client \<Rightarrow> client_call \<Rightarrow> unit \<Rightarrow> (unit, unit) turn option" where
  "example_meaning E fs c call _ =
     map_option (\<lambda>bufs. example_turn (call_message c call) bufs ()) (example_respond E fs (call_message c call) (call_content call))"

definition example_conversation ::
  "'p example_env \<Rightarrow> files \<Rightarrow> 'net read_until \<Rightarrow> 'net read_exactly \<Rightarrow> nat \<Rightarrow> ('net \<Rightarrow> bytes \<Rightarrow> 'net) \<Rightarrow>
   client \<Rightarrow> client_call list \<Rightarrow> 'net \<Rightarrow> (bytes list list \<times> unit talk_end) option" where
  "example_conversation E fs read_until read_exactly max_size arrive c reqs net =
     converse (example_serve E fs read_until read_exactly max_size) (\<lambda>net call. arrive net (call_bytes c call)) reqs net ()"

section \<open>The client of the program\<close>

definition json_string :: bytes where
  "json_string = ''{'' @ [CHR 0x22] @ ''firstName'' @ [CHR 0x22] @ '': '' @ [CHR 0x22] @ ''John'' @ [CHR 0x22] @ '','' @
     [CHR 0x22] @ ''lastName'' @ [CHR 0x22] @ '': '' @ [CHR 0x22] @ ''Smith'' @ [CHR 0x22] @ '','' @
     [CHR 0x22] @ ''age'' @ [CHR 0x22] @ '': 25}''"

definition example_client :: client where
  "example_client = client_new ''localhost:8080'' 80 True"

text \<open>Its two synchronous requests, on one connection, and the asynchronous one.\<close>

definition simple_call :: "bytes \<Rightarrow> bytes \<Rightarrow> bytes \<Rightarrow> client_call" where
  "simple_call meth target content =
     \<lparr>call_method = meth, call_path = target, call_query = None, call_content = content, call_header = []\<rparr>"

definition example_sync_calls :: "client_call list" where
  "example_sync_calls = [simple_call ''GET'' ''/match/123'' [], simple_call ''POST'' ''/string'' json_string]"

definition example_async_call :: client_call where
  "example_async_call = simple_call ''POST'' ''/json'' json_string"

section \<open>The table, read\<close>

lemma example_routes:
  "example_respond E fs m content =
     (let target = req_path m in
      if req_method m = ''POST'' then
        (if target = ''/json'' then Some [streambuf (post_json E content)]
         else if target = ''/string'' then Some [streambuf (post_string content)] else None)
      else if req_method m = ''GET'' then
        Some (if target = ''/info'' then [streambuf (get_info E m)]
              else if with_number ''/match/'' target then [streambuf (get_match (number ''/match/'' target))]
              else if target = ''/work'' then [streambuf get_work] else get_file E fs target)
      else None)"
  unfolding example_respond_def find_resource_def example_resources_def example_default_def match_resource.simps
    method_only regex_match_Lit numbered_path Let_def
  by simp

section \<open>Replies\<close>

lemma ok_reply_framed: "streambuf (ok_reply content) = framed_reply ''200 OK'' content"
  by (simp add: ok_reply_def framed_reply_def response_text_def header_line_def response_new_def)

lemma status_200: "status_code_text (StatusCode_of success_ok) = ''200 OK''"
  by (simp add: status_code_text_def status_code_strings_def status_code_names_def enum_eval StatusCode_of_def)

lemma write_success_framed: "streambuf (write_success content [] response_new) = framed_reply ''200 OK'' content"
  by (simp add: write_success_def write_content_eq framed_reply_def framing_def response_new_def has_length_def
      has_chunked_def status_200)

lemma get_info_framed: "streambuf (get_info E m) = framed_reply ''200 OK'' (info_text E m)"
  using write_stream_seekable [of "string_stream (info_text E m)"]
  by (simp add: get_info_def write_stream_success_def seekable_def string_stream_def
      write_success_framed [unfolded write_success_def])

text \<open>The reply the resources mean for a request, where it is a success.\<close>

definition meant :: "'p example_env \<Rightarrow> request_message \<Rightarrow> bytes \<Rightarrow> bytes \<Rightarrow> bool" where
  "meant E m content reply \<longleftrightarrow>
     req_method m = ''POST'' \<and> req_path m = ''/string'' \<and> reply = content \<or>
     req_method m = ''POST'' \<and> req_path m = ''/json'' \<and>
       (\<exists>pt first_name last_name. parse_json E content = Inr pt \<and> member_of E pt ''firstName'' = Inr first_name \<and>
          member_of E pt ''lastName'' = Inr last_name \<and> reply = first_name @ '' '' @ last_name) \<or>
     req_method m = ''GET'' \<and> (\<exists>d. req_path m = ''/match/'' @ d \<and> word digit_chars d \<and> reply = d) \<or>
     req_method m = ''GET'' \<and> req_path m = ''/info'' \<and> reply = info_text E m \<or>
     req_method m = ''GET'' \<and> req_path m = ''/work'' \<and> reply = ''Work done''"

lemma meant_reply:
  assumes "meant E m content reply"
  shows "example_respond E fs m content = Some [framed_reply ''200 OK'' reply]"
proof -
  have fixed: "\<not> with_number ''/match/'' ''/info''" "\<not> with_number ''/match/'' ''/work''"
    by (simp_all add: with_number_def)
  have match: "with_number ''/match/'' (''/match/'' @ d)" "number ''/match/'' (''/match/'' @ d) = [(1, d)]"
    if "word digit_chars d" for d using that by (auto simp: with_number_def number_def)
  have get: "streambuf (get_match [(1, d)]) = framed_reply ''200 OK'' d" for d
    using write_success_framed by (simp add: get_match_def group_def)
  from assms consider
      "req_method m = ''POST''" "req_path m = ''/string''" "reply = content"
    | pt first_name last_name where "req_method m = ''POST''" "req_path m = ''/json''" "parse_json E content = Inr pt"
        "member_of E pt ''firstName'' = Inr first_name" "member_of E pt ''lastName'' = Inr last_name"
        "reply = first_name @ '' '' @ last_name"
    | "req_method m = ''GET''" "req_path m = ''/match/'' @ reply" "word digit_chars reply"
    | "req_method m = ''GET''" "req_path m = ''/info''" "reply = info_text E m"
    | "req_method m = ''GET''" "req_path m = ''/work''" "reply = ''Work done''"
    unfolding meant_def by blast
  then show ?thesis
  proof cases
    case 1
    then show ?thesis by (simp add: example_routes Let_def post_string_def ok_reply_framed)
  next
    case 2
    then show ?thesis by (simp add: example_routes Let_def post_json_def ok_reply_framed)
  next
    case 3
    note r = match [OF 3(3)]
    show ?thesis unfolding example_routes Let_def 3(1,2) r get using r(1) by simp
  next
    case 4
    then show ?thesis by (simp add: example_routes Let_def get_info_framed)
  next
    case 5
    then show ?thesis
      by (simp add: example_routes Let_def fixed get_work_def write_success_framed)
  qed
qed

section \<open>Conversations\<close>

interpretation ex: lock_step "example_serve E fs read_until read_exactly max_size" "example_meaning E fs c"
  "\<lambda>net call. arrive net (call_bytes c call)"
  "\<lambda>net. transport pending read_until read_exactly \<and> (\<forall>net x. pending (arrive net x) = pending net @ x) \<and> pending net = []"
  "call_ok c max_size"
  for E fs read_until read_exactly max_size arrive c pending
proof (standard, goal_cases)
  case (1 net call st)
  then have t: "transport pending read_until read_exactly" and ok: "call_ok c max_size call"
    and p: "pending (arrive net (call_bytes c call)) = call_bytes c call" by simp_all
  obtain net' where r: "server_read read_until read_exactly max_size (arrive net (call_bytes c call)) =
      Some (Ready (call_message c call) (call_content call) net')" "pending net' = []"
    using call_read [OF t ok p] by blast
  have "example_turn m bufs net' = on_net net' (example_turn m bufs ())" for m bufs
    by (simp add: example_turn_def split: next_step.split)
  then show ?case
    using 1 r by (intro exI [of _ net']) (simp add: example_serve_def example_meaning_def option.map_comp comp_def)
qed

text \<open>A call the client may make, which goes on, and its reply.\<close>

definition example_call ::
  "'p example_env \<Rightarrow> client \<Rightarrow> nat \<Rightarrow> nat \<Rightarrow> client_call \<Rightarrow> bytes \<Rightarrow> bool" where
  "example_call E c max_size max_size' call reply \<longleftrightarrow>
     call_ok c max_size call \<and> connection_choice (framed c (call_content call) (call_header call)) = None \<and>
     meant E (call_message c call) (call_content call) reply \<and>
     length (framed_reply ''200 OK'' reply) \<le> max_size' \<and> length reply < 2 ^ 63"

lemma example_call_meaning:
  assumes "example_call E c max_size max_size' call reply"
  shows "example_meaning E fs c call st = Some (Again [framed_reply ''200 OK'' reply] () ())"
proof -
  have "after_response False response_new (call_message c call) = Read_again"
    unfolding call_message_def by (rule after_default) (use assms in \<open>simp_all add: example_call_def\<close>)
  then show ?thesis
    using assms by (simp add: example_meaning_def example_call_def meant_reply example_turn_def)
qed

lemma example_replied:
  assumes "list_all2 (example_call E c max_size max_size') reqs replies"
  shows "replied (example_meaning E fs c) reqs st =
    Some (map (\<lambda>reply. [framed_reply ''200 OK'' reply]) replies, Reads_again ())"
  using assms by (induction rule: list_all2_induct) (simp_all add: example_call_meaning)

section \<open>Properties\<close>

text \<open>
  C36: A client of the library that asks the resources of the example server, one request
  after the other on one connection, gets to each, in one call, status 200 and what the
  resource means to answer, however both directions are cut: the string it has posted, the
  first and the last name of the JSON it has posted, the number in the path it has asked
  for, the description of its request, or the result of the work.
\<close>
theorem examples_answer:
  assumes "transport pending read_until read_exactly" and "transport pending' read_until' read_exactly'"
    and "\<And>net x. pending (arrive net x) = pending net @ x" and "pending net = []"
    and "list_all2 (example_call E c max_size max_size') reqs replies"
  shows "example_conversation E fs read_until read_exactly max_size arrive c reqs net =
      Some (map (\<lambda>reply. [framed_reply ''200 OK'' reply]) replies, Reads_again ()) \<and>
    list_all (\<lambda>reply. client_gets pending' read_until' read_exactly' read_all' max_size'
      (framed_reply ''200 OK'' reply) ''200 OK'' reply) replies"
proof
  have "list_all (call_ok c max_size) reqs"
    using assms(5) by (induction rule: list_all2_induct) (simp_all add: example_call_def)
  then have "example_conversation E fs read_until read_exactly max_size arrive c reqs net =
      replied (example_meaning E fs c) reqs ()"
    unfolding example_conversation_def
    by (intro ex.converse_replied [where pending = pending]) (use assms in auto)
  then show "example_conversation E fs read_until read_exactly max_size arrive c reqs net =
      Some (map (\<lambda>reply. [framed_reply ''200 OK'' reply]) replies, Reads_again ())"
    by (simp add: example_replied [OF assms(5)])
  show "list_all (\<lambda>reply. client_gets pending' read_until' read_exactly' read_all' max_size'
      (framed_reply ''200 OK'' reply) ''200 OK'' reply) replies"
    using assms(5) by (induction rule: list_all2_induct)
      (auto simp: example_call_def plain_def intro!: framed_reply_read [OF assms(2)])
qed

definition demo_example :: "bytes example_env" where
  "demo_example = \<lparr>parse_json = Inr, member_of = (\<lambda>pt key. Inr pt), peer = (''a'', 1), field_order = id,
     canonical_error = (\<lambda>p. [])\<rparr>"

text \<open>The two synchronous requests of the program.\<close>

lemma parse_localhost: "dflt < 2 ^ 16 \<Longrightarrow> parse_host_port ''localhost:8080'' dflt = (''localhost'', 8080)"
proof -
  assume d: "dflt < 2 ^ 16"
  have "to_string 8080 = ''8080''" by (simp add: to_string.simps digit_char_def char_of_eq_iff)
  then show ?thesis using host_port_parsed [of "''localhost''" 8080 dflt "[]"] d by simp
qed

lemma example_client_eq: "example_client = \<lparr>host = ''localhost'', port = 8080, default_port = 80, proxy_server = [], is_tcp = True\<rparr>"
  by (simp add: example_client_def client_new_def parse_localhost)

lemma example_no_proxy: "proxy_server example_client = []"
  by (simp add: example_client_eq)

text \<open>The asynchronous request means the first and the last name, for a parser that finds them.\<close>

lemma sample_json:
  assumes "parse_json E json_string = Inr pt" and "member_of E pt ''firstName'' = Inr ''John''"
    and "member_of E pt ''lastName'' = Inr ''Smith''"
  shows "meant E (call_message c example_async_call) (call_content example_async_call) ''John Smith''"
  using assms by (auto simp: meant_def call_message_def parsed_request_def example_async_call_def simple_call_def)

lemma sample_framed:
  "framed example_client [] [] = [(''Host'', ''localhost:'' @ to_string 8080)]"
  "content \<noteq> [] \<Longrightarrow> framed example_client content [] =
     [(''Host'', ''localhost:'' @ to_string 8080), (''Content-Length'', to_string (length content))]"
  by (simp_all add: framed_def example_client_eq host_text_def)

lemma sample_calls:
  "list_all2 (example_call demo_example example_client 200 200) example_sync_calls [''123'', json_string]"
proof -
  have l: "length (to_string 8080) = 4" "length json_string = 51" "length (to_string 51) = 2" "length (to_string (Suc (Suc (Suc 0)))) = 1"
    by (simp_all add: to_string.simps json_string_def)
  have f: "framed example_client json_string [] =
      [(''Host'', ''localhost:'' @ to_string 8080), (''Content-Length'', to_string 51)]"
    using sample_framed(2) [of json_string] unfolding l(2) by (metis l(2) list.size(3) zero_neq_numeral)
  have c: "connection_choice (framed example_client [] []) = None" "connection_choice (framed example_client json_string []) = None"
    by (simp_all add: f sample_framed(1) case_insensitive_equal_def)
  have ok: "call_ok example_client 200 (simple_call ''GET'' ''/match/123'' [])"
    using to_string_plain [of 8080]
    by (simp add: call_ok_def simple_call_def sample_framed(1) l head_ok_def plain_def target_ok_def target_text_def field_ok_def
        corrected_path_def request_text_def header_line_def example_no_proxy)
  have ok': "call_ok example_client 200 (simple_call ''POST'' ''/string'' json_string)"
    using to_string_plain [of 51] to_string_plain [of 8080] to_string_field_ok [of "''Content-Length''" 51]
    by (simp add: call_ok_def simple_call_def f l head_ok_def plain_def target_ok_def target_text_def field_ok_def
        corrected_path_def request_text_def header_line_def example_no_proxy)
  have m: "meant demo_example (call_message example_client (simple_call ''GET'' ''/match/123'' [])) [] ''123''"
    by (simp add: meant_def call_message_def parsed_request_def simple_call_def word_def digit_chars_def in_cls_def)
  have m': "meant demo_example (call_message example_client (simple_call ''POST'' ''/string'' json_string)) json_string json_string"
    by (simp add: meant_def call_message_def parsed_request_def simple_call_def)
  show ?thesis
    using ok ok' m m' c
    by (simp add: example_sync_calls_def example_call_def simple_call_def framed_reply_def response_text_def header_line_def l)
qed

theorem examples_answer_witness:
  "example_conversation demo_example demo_files segments_until segments_exactly 200 (\<lambda>net x. net @ [take 20 x, drop 20 x])
      example_client example_sync_calls [] =
    Some ([[framed_reply ''200 OK'' ''123''], [framed_reply ''200 OK'' json_string]], Reads_again ()) \<and>
    client_gets concat segments_until segments_exactly segments_all 200 (framed_reply ''200 OK'' json_string) ''200 OK'' json_string"
proof -
  have "example_conversation demo_example demo_files segments_until segments_exactly 200 (\<lambda>net x. net @ [take 20 x, drop 20 x])
      example_client example_sync_calls [] =
    Some (map (\<lambda>reply. [framed_reply ''200 OK'' reply]) [''123'', json_string], Reads_again ()) \<and>
    list_all (\<lambda>reply. client_gets concat segments_until segments_exactly segments_all 200
      (framed_reply ''200 OK'' reply) ''200 OK'' reply) [''123'', json_string]"
    by (rule examples_answer [OF transport_segments transport_segments _ _ sample_calls]) simp_all
  then show ?thesis by simp
qed

end
