(* ===== verification/Https_Examples.thy ===== *)
theory Https_Examples
  imports Http_Examples Tls_Exchange
begin

text \<open>
  The program \<open>src/src/http/https_examples.cpp\<close>: the server and the client of \<open>http_examples.cpp\<close>
  over TLS. Its handlers are the same text, so the definitions of theory \<open>Http_Examples\<close> are
  theirs too; its own are the contexts, the tables, and the handshake before the first
  request.
\<close>

section \<open>The server\<close>

definition https_example_server :: "context_call list \<times> bool" where
  "https_example_server = server_tls ''server.crt'' ''server.key'' []"

definition https_example_resources :: "'p example_env \<Rightarrow> example_handler resources" where
  "https_example_resources E =
     [(Lit ''/info'', [(''GET'', \<lambda>m path_match content. [streambuf (get_info E m)])]),
      (Lit ''/json'', [(''POST'', \<lambda>m path_match content. [streambuf (post_json E content)])]),
      (numbered ''/match/'', [(''GET'', \<lambda>m path_match content. [streambuf (get_match path_match)])]),
      (Lit ''/string'', [(''POST'', \<lambda>m path_match content. [streambuf (post_string content)])]),
      (Lit ''/work'', [(''GET'', \<lambda>m path_match content. [streambuf get_work])])]"

definition https_example_default :: "'p example_env \<Rightarrow> files \<Rightarrow> (bytes \<times> example_handler) list" where
  "https_example_default E fs = [(''GET'', \<lambda>m path_match content. get_file E fs (req_path m))]"

definition https_example_respond :: "'p example_env \<Rightarrow> files \<Rightarrow> request_message \<Rightarrow> bytes \<Rightarrow> bytes list option" where
  "https_example_respond E fs m content =
     (case find_resource False (https_example_resources E) (https_example_default E fs) m of
        Resource handler path_match \<Rightarrow> Some (handler m path_match content)
      | Default handler \<Rightarrow> Some (handler m [] content)
      | _ \<Rightarrow> None)"

definition https_example_serve ::
  "'p example_env \<Rightarrow> files \<Rightarrow> 'net read_until \<Rightarrow> 'net read_exactly \<Rightarrow> nat \<Rightarrow> 'net \<Rightarrow> unit \<Rightarrow> (unit, 'net) turn option" where
  "https_example_serve E fs read_until read_exactly max_size net _ =
     (case server_read read_until read_exactly max_size net of
        Some (Ready m content net') \<Rightarrow> map_option (\<lambda>bufs. example_turn m bufs net') (https_example_respond E fs m content)
      | _ \<Rightarrow> None)"

text \<open>A connection is read only after its handshake; without it the session is dropped.\<close>

definition https_example_session ::
  "'p example_env \<Rightarrow> files \<Rightarrow> 'net read_until \<Rightarrow> 'net read_exactly \<Rightarrow> nat \<Rightarrow> ('net \<Rightarrow> bytes \<Rightarrow> 'net) \<Rightarrow>
   client \<Rightarrow> client_call list \<Rightarrow> io_error option \<Rightarrow> 'net \<Rightarrow> (bytes list list \<times> unit talk_end) option" where
  "https_example_session E fs read_until read_exactly max_size arrive c reqs handshake_ec net =
     (case handshake_ec of
        Some e \<Rightarrow> Some ([], Dropped ())
      | None \<Rightarrow> converse (https_example_serve E fs read_until read_exactly max_size) (\<lambda>net call. arrive net (call_bytes c call)) reqs net ())"

section \<open>The client\<close>

text \<open>The sample client does not verify the certificate.\<close>

definition https_example_client :: client where
  "https_example_client = client_tls ''localhost:8080''"

definition https_example_context :: "context_call list" where
  "https_example_context = tls_context (host https_example_client) False [] [] []"

lemma https_example_unverified: "Verify_peer \<notin> set https_example_context" "Verify_none \<in> set https_example_context"
  by (simp_all add: https_example_context_def tls_context_def)

lemma https_example_client_eq:
  "https_example_client = \<lparr>host = ''localhost'', port = 8080, default_port = 443, proxy_server = [], is_tcp = False\<rparr>"
  by (simp add: https_example_client_def client_tls_def client_new_def parse_localhost)

text \<open>Below TLS it writes what the plain client writes.\<close>

lemma https_client_same_bytes: "call_bytes https_example_client = call_bytes example_client"
  "call_message https_example_client = call_message example_client"
  by (rule ext, simp add: call_bytes_def request_bytes_def create_request_header_def corrected_path_def host_text_def
      https_example_client_eq example_client_eq)
    (rule ext, simp add: call_message_def framed_def host_text_def https_example_client_eq example_client_eq)

section \<open>The same conversation\<close>

lemma https_example_respond_eq: "https_example_respond = example_respond"
  by (simp add: fun_eq_iff https_example_respond_def example_respond_def
      https_example_resources_def example_resources_def https_example_default_def example_default_def)

lemma https_example_serve_eq: "https_example_serve = example_serve"
  unfolding fun_eq_iff https_example_serve_def example_serve_def https_example_respond_eq by simp

text \<open>After the handshake a client has the conversation it has with the plain server; without one
  no request is answered.\<close>

lemma https_session_answers:
  "https_example_session E fs read_until read_exactly max_size arrive https_example_client reqs None net =
     example_conversation E fs read_until read_exactly max_size arrive example_client reqs net"
  "https_example_session E fs read_until read_exactly max_size arrive c reqs (Some e) net = Some ([], Dropped ())"
  by (simp_all add: https_example_session_def example_conversation_def https_example_serve_eq https_client_same_bytes)

end
