(* ===== verification/Server_Session.thy ===== *)
theory Server_Session
  imports Http_Server Timers
begin

text \<open>
  What remains of the objects of a session in \<open>src/src/http/server_http.hpp\<close> and
  \<open>src/src/http/client_http.hpp\<close>: the accessors of a request, its content as a stream, and the end
  of a response, which is sent when the object is destroyed.
\<close>

section \<open>The peer of a request\<close>

text \<open>A request holds a weak pointer to its connection: \<^term>\<open>None\<close> once the connection is gone.
  Asking the socket for an endpoint may throw.\<close>

record endpoint =
  address_text :: bytes
  port_number :: nat

definition endpoint_none :: endpoint where
  "endpoint_none = \<lparr>address_text = ''0.0.0.0'', port_number = 0\<rparr>"

definition remote_endpoint :: "('c \<Rightarrow> endpoint outcome) \<Rightarrow> 'c option \<Rightarrow> endpoint" where
  "remote_endpoint remote_of connection =
     (case connection of
        None \<Rightarrow> endpoint_none
      | Some c \<Rightarrow> (case remote_of c of Ok e \<Rightarrow> e | _ \<Rightarrow> endpoint_none))"

definition local_endpoint :: "('c \<Rightarrow> endpoint outcome) \<Rightarrow> 'c option \<Rightarrow> endpoint" where
  "local_endpoint local_of connection =
     (case connection of
        None \<Rightarrow> endpoint_none
      | Some c \<Rightarrow> (case local_of c of Ok e \<Rightarrow> e | _ \<Rightarrow> endpoint_none))"

definition remote_endpoint_address :: "('c \<Rightarrow> endpoint outcome) \<Rightarrow> 'c option \<Rightarrow> bytes" where
  "remote_endpoint_address remote_of connection =
     (case connection of
        None \<Rightarrow> []
      | Some c \<Rightarrow> (case remote_of c of Ok e \<Rightarrow> address_text e | _ \<Rightarrow> []))"

definition remote_endpoint_port :: "('c \<Rightarrow> endpoint outcome) \<Rightarrow> 'c option \<Rightarrow> nat" where
  "remote_endpoint_port remote_of connection =
     (case connection of
        None \<Rightarrow> 0
      | Some c \<Rightarrow> (case remote_of c of Ok e \<Rightarrow> port_number e | _ \<Rightarrow> 0))"

text \<open>The deprecated accessors are those of the endpoint, except for the address of none.\<close>

lemma deprecated_endpoint:
  "remote_endpoint_port remote_of connection = port_number (remote_endpoint remote_of connection)"
  "remote_endpoint_address remote_of connection \<in> {address_text (remote_endpoint remote_of connection), []}"
  by (auto simp: remote_endpoint_port_def remote_endpoint_address_def remote_endpoint_def endpoint_none_def
      split: option.split outcome.split)

section \<open>Content\<close>

text \<open>A content is an input stream over a buffer: what has been read is gone from the buffer;
  \<open>string\<close> copies it and reads nothing.\<close>

definition content_size :: "bytes \<Rightarrow> nat" where
  "content_size buf = length buf"

definition content_string :: "bytes \<Rightarrow> bytes" where
  "content_string buf = buf"

definition content_read :: "nat \<Rightarrow> bytes \<Rightarrow> bytes \<times> bytes" where
  "content_read n buf = (take n buf, drop n buf)"

text \<open>A handler that asks for the string after it has read misses what it has read, and only that.\<close>

lemma string_after_read:
  assumes "content_read n buf = (x, buf')"
  shows "x @ content_string buf' = content_string buf" "content_size buf' = content_size buf - n"
  using assms by (auto simp: content_read_def content_string_def content_size_def)

section \<open>The end of a response\<close>

text \<open>
  The deleter of a response sends its buffer; when that is done, nothing happens if the server
  is being destroyed (no lock of the scope runner); otherwise the limit is cancelled, and
  either the connection is treated as the response and the request say, or the error is
  reported and the connection is dropped.
\<close>

datatype deletion = Unheard | Continues next_step | Reports io_error

definition response_deleted ::
  "bool \<Rightarrow> io_error option \<Rightarrow> response \<Rightarrow> request_message \<Rightarrow> deadline \<Rightarrow> deletion \<times> deadline" where
  "response_deleted lock ec r m st =
     (if \<not> lock then (Unheard, st)
      else (let st = cancel_timeout st
            in case ec of
                 None \<Rightarrow> (Continues (after_response False r m), st)
               | Some e \<Rightarrow> (Reports e, st)))"

text \<open>The connection lives on only if it is read again: otherwise its last pointer goes.\<close>

fun read_on :: "deletion \<times> deadline \<Rightarrow> deadline" where
  "read_on (Continues Read_again, st) = st"
| "read_on (d, st) = timer_step Release st"

fun end_of :: "deletion \<Rightarrow> request_end" where
  "end_of Unheard = Dropped"
| "end_of (Continues Read_again) = Answered_again"
| "end_of _ = Answered_last"

lemma deleted_timers:
  assumes "response_deleted lock ec r m st = (d, st')"
  shows "read_on (d, st') = run_events (drop 2 (request_calls timeout_request timeout_content (end_of d))) st"
proof (cases d)
  case Unheard
  then show ?thesis using assms by (auto simp: response_deleted_def Let_def split: if_splits option.splits)
next
  case (Continues k)
  then show ?thesis using assms by (cases k) (auto simp: response_deleted_def Let_def split: if_splits option.splits)
next
  case (Reports e)
  then show ?thesis using assms by (auto simp: response_deleted_def Let_def split: if_splits option.splits)
qed

text \<open>
  A write that fails, or one that ends while the server is being destroyed, never reads the
  connection again; and whenever a connection is read again, no limit is running, so that
  none of the last request can close it.
\<close>
lemma read_again_unlimited:
  assumes "response_deleted lock ec r m st = (Continues Read_again, st')" and "has_timer st \<or> expiry st = None"
  shows "lock \<and> ec = None \<and> expiry st' = None"
  using assms by (auto simp: response_deleted_def cancel_timeout_def Let_def split: if_splits option.splits)

section \<open>Closing a response\<close>

text \<open>\<open>close\<close> of a response of the client shuts the socket of its connection, if that is still
  there; what it does to a request that is under way is an error of its next operation.\<close>

definition response_close :: "deadline option \<Rightarrow> deadline option" where
  "response_close connection = map_option close_socket connection"

lemma response_close_closes: "pred_option socket_closed (response_close connection)"
  by (cases connection) (simp_all add: response_close_def close_socket_def)

end
