(* ===== verification/Gateway_Start.thy ===== *)
theory Gateway_Start
  imports Server_Start Coap
begin

text \<open>
  The start of the gateway's HTTP server, at the end of \<open>start_http_server\<close> in
  \<open>src/src/http-server.cpp\<close>, inside \<open>main\<close> of \<open>src/src/source.cpp\<close>: a thread runs \<open>start\<close>, whose callback
  hands over the port; the thread that waits for the port then counts the server in
  \<open>load_progress\<close>. An exception of \<open>start\<close> is caught by nobody: it leaves the thread and ends
  the program.
\<close>

section \<open>Operations\<close>

text \<open>No address is configured, and the event loop has the one thread of the default.\<close>

definition gateway_config :: config where
  "gateway_config = \<lparr>config_address = [], address_parses = False, thread_pool_size = 1\<rparr>"

datatype http_start = Serving nat | Waiting_for_port | Program_ends

definition start_http_server :: "system_answers \<Rightarrow> http_start" where
  "start_http_server sys =
     (case start_server gateway_config sys True life_new of
        (Returns, s) \<Rightarrow>
          (case loop_of s of
             Some l \<Rightarrow> if 0 < started_threads s \<and> posted l \<noteq> [] then Serving (hd (posted l)) else Waiting_for_port
           | None \<Rightarrow> Waiting_for_port)
      | _ \<Rightarrow> Program_ends)"

text \<open>The threads of the program, until one of them ends it.\<close>

datatype program = Running boot | Ended

inductive program_step :: "coap_server outcome \<Rightarrow> http_start \<Rightarrow> program \<Rightarrow> program \<Rightarrow> bool" for coap http where
  runs: "boot_step coap (\<exists>port. http = Serving port) b b' \<Longrightarrow> program_step coap http (Running b) (Running b')"
| ends: "http = Program_ends \<Longrightarrow> program_step coap http (Running b) Ended"

section \<open>What a start comes to\<close>

lemma start_listens:
  assumes "start_server cfg sys True life_new = (Returns, s)"
  shows "\<exists>l. loop_of s = Some l \<and> posted l = [port_given sys] \<and> started_threads s = thread_pool_size cfg"
  using assms start_threads_total [of "thread_pool_size cfg"]
  by (auto simp: start_server_def run_loop_def ensure_parts_def set_acceptor_def life_new_def Let_def
      split: if_splits sum.splits prod.splits)

text \<open>Either every step of the acceptor succeeds and the port is handed over, or the program ends.\<close>

lemma start_http_cases:
  "start_http_server sys =
     (if fst (start_server gateway_config sys True life_new) = Returns then Serving (port_given sys) else Program_ends)"
proof (cases "start_server gateway_config sys True life_new")
  case (Pair e s)
  then show ?thesis
    using start_listens [of gateway_config sys s]
    by (cases e) (auto simp: start_http_server_def gateway_config_def)
qed

lemma port_in_use_ends_program:
  assumes "\<And>endpoint. \<not> bind_succeeds sys endpoint"
  shows "start_http_server sys = Program_ends"
proof -
  have "fst (start_server gateway_config sys True life_new) \<noteq> Returns"
    using assms by (auto simp: start_server_def Let_def split: sum.split)
  then show ?thesis by (simp add: start_http_cases)
qed

text \<open>Without the HTTP server there is no command line: the program has ended, or will.\<close>

lemma program_reachable:
  assumes "(program_step coap http)\<^sup>*\<^sup>* (Running boot_start) s"
  shows "case s of Running b \<Rightarrow> boot_reachable coap (\<exists>port. http = Serving port) b | Ended \<Rightarrow> http = Program_ends"
  using assms
proof (induction rule: rtranclp_induct)
  case base
  show ?case by (simp add: boot_reachable.init)
next
  case (step s s')
  from step(2,3) show ?case by (cases rule: program_step.cases) (auto intro: boot_reachable.step)
qed

lemma command_line_needs_port:
  assumes "(program_step coap (start_http_server sys))\<^sup>*\<^sup>* (Running boot_start) (Running b)" and "prompting b"
  shows "start_http_server sys = Serving (port_given sys)"
proof -
  have "boot_reachable coap (\<exists>port. start_http_server sys = Serving port) b" using program_reachable [OF assms(1)] by simp
  then have "\<exists>port. start_http_server sys = Serving port" using boot_up assms(2) by blast
  then show ?thesis by (auto simp: start_http_cases split: if_splits)
qed

end
