(* ===== verification/Spec2Isabelle.thy ===== *)
theory Spec2Isabelle
  imports Signal Observable Locations Status_Code Query_String Http_Message Server_Response Gateway_Service
    Scope_Runner Date_Text Coap Crypto Round_Trip Streams Client_Sync Timers Server_Start Gateway_Interleaving
    Gateway_Observed Secure_Device Https_Examples Server_Session Gateway_Start
begin

text \<open>
  A model of the IoT smart gateway: the gateway program \<open>src/src/source.cpp\<close>,
  \<open>src/src/http-server.cpp\<close>, \<open>src/src/coap-server.cpp\<close> and \<open>src/src/coap-client.cpp\<close>, its own
  containers under \<open>src/src/clib/\<close>, and the HTTP library under \<open>src/src/http/\<close> that is part of
  the repository.

  \<^bold>\<open>The program.\<close> \<open>main\<close> starts a thread with the HTTP server, one with the CoAP server and the
  command line. Peers send requests to the HTTP server: seven resources manage observables
  (a device's address, the parameter to read from its JSON, and an interval), every other
  GET is a file of the directory \<open>web\<close>. The thread of the global timer emits a signal once a
  second; each observable has a callback connected to it, which asks the device over the
  network when its interval is over and keeps the last fifty values. The timer thread and
  the handlers share the table of observables and the signal under a mutex, so their
  accesses are taken one after the other, except for the timer's walk itself, which \<open>Gateway_Interleaving\<close>
  takes step by step.

  \<^bold>\<open>Theories and sources.\<close> Every definition has the name of the function it models.
  \<^item> \<open>Prelude\<close>, \<open>Numbers\<close>: byte strings, outcomes (\<open>Ok\<close>, \<open>Throw\<close>, \<open>Undefined\<close>), operations
    of \<open>std::string\<close>, conversions of numbers with their limits and exceptions.
  \<^item> \<open>Signal\<close>: \<open>clib/simple_signal.hpp\<close>. The buffer of callback pointers is a store of slots
    with the chain of free ones, \<open>slot\<close> its abstraction to a map. Interface \<open>slot_table\<close>.
  \<^item> \<open>Session_Manager\<close>: \<open>clib/session_manager.hpp\<close>, random handles with their retries.
    Interface \<open>session_store\<close>.
  \<^item> \<open>Observable\<close>: \<open>clib/observation_module.hpp\<close>, the ring of fifty values.
  \<^item> \<open>Regex_Match\<close>, \<open>Locations\<close>: \<open>std::regex_match\<close> for the expressions of
    \<open>http-server.cpp\<close> and what the location expression accepts.
  \<^item> \<open>Gateway\<close>: the handlers and the timer's callback of \<open>http-server.cpp\<close> with the map of
    callbacks they keep (record \<open>gateway\<close>: table, timer, map, random draws, the world);
    \<open>Gateway_Invariants\<close> ties the three containers together and keeps the invariant through
    every handler and tick; \<open>Gateway_Properties\<close> says what this gives. \<open>Observable_Lifecycle\<close>
    follows one observable from its request to its retirement, through any other requests.
  \<^item> \<open>Status_Code\<close>: \<open>http/status_code.hpp\<close>. \<open>Percent_Codec\<close> (interface \<open>field_codec\<close>), \<open>Query_String\<close>, \<open>Http_Header\<close>,
    \<open>Http_Message\<close>, \<open>Date_Text\<close>, \<open>Scope_Runner\<close>: \<open>http/utility.hpp\<close>. \<open>Crypto\<close>:
    \<open>http/crypto.hpp\<close>.
  \<^item> \<open>Transport\<close>: the composed read operations of the network library as arguments, with
    their documented behaviour as hypotheses, and lists of segments as an instance.
    \<open>Chunked\<close>: both decoders of the chunked coding.
  \<^item> \<open>Server_Response\<close>, \<open>Http_Server\<close>, \<open>Server_Connections\<close>: \<open>http/server_http.hpp\<close>: the queue of
    buffers of a connection, the reading of a request up to its handler, what follows a
    response, and the connections with start and stop. \<open>Static_Files\<close> and \<open>Gateway_Service\<close>:
    the default resource, and the composition from the socket to the gateway and back.
  \<^item> \<open>Client_Request\<close>, \<open>Header_End\<close>, \<open>Client_Read\<close>, \<open>Client_Pool\<close>, \<open>Client_Exchange\<close>:
    \<open>http/client_http.hpp\<close>: what is written, how a response is read, the connections, and one
    request from its connection to its last callback, retries included, for any client that
    overrides \<open>connect\<close> (interface \<open>base_client\<close>, which the plain and the TLS client keep). \<open>Device_Value\<close>: the
    gateway with the client it uses. \<open>Round_Trip\<close>: a client talking to the gateway.
    \<open>Gateway_Observed\<close>: one that adds an observable, asks for its values and removes it.
  \<^item> \<open>Tls\<close>: \<open>http/client_https.hpp\<close> and \<open>http/server_https.hpp\<close>. \<open>Tls_Exchange\<close>: a whole request over
    TLS. \<open>Secure_Device\<close>: the gateway's requests to HTTPS devices. \<open>Coap\<close>: the CoAP files and
    \<open>source.cpp\<close>. \<open>Gateway_Start\<close>: the program up to its prompt, with the start of the HTTP server.
  \<^item> \<open>Timers\<close>: the time limits of a connection, whose classes the server and the client have
    alike. \<open>Server_Start\<close>: \<open>start\<close>, \<open>stop\<close> and the destructor of a server, with \<open>make_address\<close>
    of \<open>http/asio_compatibility.hpp\<close>. \<open>Server_Session\<close>: the accessors of a request and the end of a response. \<open>Streams\<close>: contents
    given as streams. \<open>Client_Sync\<close>: synchronous requests and the client as an object.
    \<open>Lock_Step\<close>: a client that waits for each reply, and what a server must promise it
    (interface \<open>lock_step\<close>); \<open>Gateway_Dialogue\<close> and \<open>Http_Examples\<close> (the sample server and client of
    \<open>http/http_examples.cpp\<close>) are the two servers that keep it; \<open>Https_Examples\<close> is the sample program \<open>http/https_examples.cpp\<close>. \<open>Gateway_Interleaving\<close>: requests handled while
    the timer's thread walks through its callbacks.
  \<^bold>\<open>What the lemmas show.\<close> Per component: an invariant kept by every operation, the outcome of
  each operation on each branch, and where there is a contract its refinement to a finite
  map (\<open>connect_refines_insert\<close>, \<open>disconnect_refines_delete\<close>, \<open>store_refines_map\<close>) as an
  interpretation of the locale that states it. The parsers and codecs are compared with
  declarative readings on every input. The reading of requests and responses is proved for
  every way the network cuts the bytes. The properties across components follow: from the
  start, without an early reuse of a handle, no tick throws and no request leaves defined
  behaviour; whatever a peer sends keeps the gateway's invariant; a device's answer becomes
  the latest value; an added observable is measured, reported and retired, whatever else is
  requested, and a client over the network sees this; the request to an HTTPS device reaches
  only a peer whose certificate is valid; a client that removes an observable over the network removes that one;
  on a persistent connection every request gets its own answer.
  Where the code does not do what it means to, a theorem shows the behaviour it has
  (\<open>full_timer_leaves_orphan\<close>, \<open>reused_handle_ends_program\<close>).

  \<^bold>\<open>Bounds and recursion.\<close> Loops whose recursion is structural are \<open>fun\<close>; loops over a stream
  or a retry count are \<open>function\<close> with a measure; those that need not end (the reading of
  a chunked body or of events, the drawing of a free handle, the dialogue of the command
  line) are \<open>partial_function (option)\<close>, and a theorem that relies on their end proves it. Sizes are
  natural numbers with the wrap-around of \<open>size_t\<close> written out where the code adds them;
  digests and flags are words.

  \<^bold>\<open>Parameters.\<close> The clock, the property trees of JSON, the random generator, the digests, the
  TLS engine, name resolution, sockets, the CoAP library and the order in which
  threads and handlers run are not part of the repository. They are arguments (records \<open>env\<close>, \<open>network\<close>
  and others, functions, lists of events), with the documented behaviour a theorem needs as
  a hypothesis, and every such theorem has an instance.

  \<^bold>\<open>Not modelled.\<close> The other names \<open>http/asio_compatibility.hpp\<close> gives to functions of Asio, the
  tests and fuzzers, the pages under \<open>web\<close>. Of \<open>source.cpp\<close> the export and import, which are commented out. Races on
  memory: steps of two threads inside one callback or one request are not interleaved,
  though \<open>emit\<close> and \<open>disconnect\<close> run outside the mutex under which the server connects. The
  time limits are modelled by themselves; in the theories of connections a limit that is
  over shows as an operation that fails. Memory that runs out, and what is printed.
\<close>

end
